(* ===== verification/Prelude.thy ===== *)
theory Prelude
  imports Main "HOL-Library.Word" "HOL-Library.Monad_Syntax" "HOL-Library.Sublist"
begin

text \<open>
  The shared vocabulary of the development: bytes, assertions as values, the width of
  \<^verbatim>\<open>size_t\<close>, raw memory blocks with checked reads and writes, and the searches of the C++ standard
  library that the sources use, each with the lemmas every component proof relies on.

  A C++ function that may abort (a failed \<^verbatim>\<open>assert\<close>) or run into undefined behaviour (an access
  outside an array, a read of memory that was never written) is a function into \<open>option\<close>; \<open>None\<close>
  is that failure. A theorem that a function returns \<open>Some\<close> is therefore a statement that no
  assertion fails and no access is out of range.
\<close>

unbundle bit_operations_syntax

named_theorems checked \<open>equations that evaluate the checked operations under their guards\<close>
named_theorems wf_simps \<open>unfolding rules of the well-formedness predicates\<close>

subsection \<open>Bytes, cells and machine sizes\<close>

type_synonym byte = char
  \<comment> \<open>the element type \<^verbatim>\<open>char\<close> of every buffer and string of the sources\<close>

type_synonym cell = "byte option"
  \<comment> \<open>a byte of allocated storage; \<open>None\<close> while it has never been written\<close>

datatype server_status = kNull | kInitializing | kInitialized | kStarting | kRunning | kStopping | kStopped
  \<comment> \<open>\<^verbatim>\<open>ServerStatus\<close>, the life of a loop, a thread, a pool of threads or a server\<close>

abbreviation CR :: byte where "CR \<equiv> CHR 0x0D"
abbreviation LF :: byte where "LF \<equiv> CHR 0x0A"
abbreviation HT :: byte where "HT \<equiv> CHR 0x09"
abbreviation SP :: byte where "SP \<equiv> CHR 0x20"

definition size_t :: "nat \<Rightarrow> nat" where
  "size_t n = n mod 2 ^ 64"
  \<comment> \<open>the value of an unsigned 64-bit expression\<close>

lemma size_t_id [simp]: "n < 2 ^ 64 \<Longrightarrow> size_t n = n"
  by (simp add: size_t_def)

lemma size_t_less: "size_t n < 2 ^ 64"
  by (simp add: size_t_def)

lemma size_t_le: "size_t n \<le> n"
  by (simp add: size_t_def)

subsection \<open>Assertions\<close>

definition require :: "bool \<Rightarrow> unit option" where
  "require b = (if b then Some () else None)"

lemma require_True [simp]: "require True = Some ()"
  by (simp add: require_def)

lemma require_False [simp]: "require False = None"
  by (simp add: require_def)

lemma require_bind [checked]: "P \<Longrightarrow> require P \<bind> f = f ()"
  by (simp add: require_def)

lemma require_bind_Some_iff: "require P \<bind> f = Some y \<longleftrightarrow> P \<and> f () = Some y"
  by (simp add: require_def)

lemma require_eq_Some_iff [simp]: "require P = Some u \<longleftrightarrow> P"
  by (simp add: require_def)

subsection \<open>Checked memory\<close>

definition mem_read :: "'a list \<Rightarrow> nat \<Rightarrow> nat \<Rightarrow> 'a list option" where
  "mem_read m off n = (if off + n \<le> length m then Some (take n (drop off m)) else None)"
  \<comment> \<open>the source operand of a \<^verbatim>\<open>memcpy\<close> or a read of \<open>n\<close> bytes at \<open>off\<close>\<close>

definition mem_write :: "'a list \<Rightarrow> nat \<Rightarrow> 'a list \<Rightarrow> 'a list option" where
  "mem_write m off s =
     (if off + length s \<le> length m then Some (take off m @ s @ drop (off + length s) m) else None)"
  \<comment> \<open>the destination operand of a \<^verbatim>\<open>memcpy\<close> or \<^verbatim>\<open>memmove\<close>: \<open>s\<close> stored at \<open>off\<close>\<close>

lemma mem_read_ok [checked]: "off + n \<le> length m \<Longrightarrow> mem_read m off n = Some (take n (drop off m))"
  by (simp add: mem_read_def)

lemma mem_write_ok [checked]:
  "off + length s \<le> length m \<Longrightarrow>
     mem_write m off s = Some (take off m @ s @ drop (off + length s) m)"
  by (simp add: mem_write_def)

lemma length_mem_write: "mem_write m off s = Some m' \<Longrightarrow> length m' = length m"
  by (auto simp: mem_write_def split: if_splits)

lemma take_drop_window:
  "off = length p \<Longrightarrow> n = length s \<Longrightarrow> take n (drop off (p @ s @ q)) = s"
  by simp

subsection \<open>Initialised memory\<close>

definition initialised :: "cell list \<Rightarrow> bool" where
  "initialised cs \<longleftrightarrow> None \<notin> set cs"

lemma initialised_map_Some [simp]: "initialised (map Some s)"
  by (auto simp: initialised_def)

lemma initialised_append [simp]: "initialised (a @ b) \<longleftrightarrow> initialised a \<and> initialised b"
  by (auto simp: initialised_def)

lemma initialised_Nil [simp]: "initialised []"
  by (simp add: initialised_def)

lemma initialised_take [intro]: "initialised cs \<Longrightarrow> initialised (take n cs)"
  by (auto simp: initialised_def dest: in_set_takeD)

lemma initialised_drop [intro]: "initialised cs \<Longrightarrow> initialised (drop n cs)"
  by (auto simp: initialised_def dest: in_set_dropD)

lemma initialised_iff_map: "initialised cs \<longleftrightarrow> (\<exists>s. cs = map Some s)"
proof
  assume "initialised cs"
  then have "cs = map Some (map the cs)"
    by (induction cs) (auto simp: initialised_def)
  then show "\<exists>s. cs = map Some s" ..
next
  assume "\<exists>s. cs = map Some s"
  then show "initialised cs" by auto
qed

lemma those_map_Some [simp]: "those (map Some s) = Some s"
  by (induction s) simp_all

subsection \<open>Searching\<close>

fun search_seq :: "'a list \<Rightarrow> 'a list \<Rightarrow> nat" where
  "search_seq [] pat = 0"
| "search_seq (x # xs) pat =
     (if take (length pat) (x # xs) = pat then 0 else Suc (search_seq xs pat))"
  \<comment> \<open>\<^verbatim>\<open>std::search\<close>: the offset of the first occurrence of \<open>pat\<close>, or the length of the range\<close>

fun find_if_idx :: "('a \<Rightarrow> bool) \<Rightarrow> 'a list \<Rightarrow> nat" where
  "find_if_idx P [] = 0"
| "find_if_idx P (x # xs) = (if P x then 0 else Suc (find_if_idx P xs))"
  \<comment> \<open>\<^verbatim>\<open>std::find_if\<close> and \<^verbatim>\<open>memchr\<close>: the offset of the first match, or the length of the range\<close>

lemma search_seq_le: "search_seq xs pat \<le> length xs"
  by (induction xs) auto

lemma search_seq_match:
  "search_seq xs pat < length xs \<Longrightarrow> take (length pat) (drop (search_seq xs pat) xs) = pat"
  by (induction xs) (auto split: if_splits)

lemma search_seq_first:
  "i < search_seq xs pat \<Longrightarrow> take (length pat) (drop i xs) \<noteq> pat"
proof (induction xs arbitrary: i)
  case Nil
  then show ?case by simp
next
  case (Cons x xs)
  then have ne: "take (length pat) (x # xs) \<noteq> pat"
    by (metis less_nat_zero_code search_seq.simps(2))
  show ?case
  proof (cases i)
    case 0
    with ne show ?thesis by (simp only: drop0 not_False_eq_True)
  next
    case (Suc j)
    with Cons.prems ne have "j < search_seq xs pat"
      by (simp only: search_seq.simps if_False Suc_less_eq)
    then have "take (length pat) (drop j xs) \<noteq> pat" by (rule Cons.IH)
    with Suc show ?thesis by (simp only: drop_Suc_Cons not_False_eq_True)
  qed
qed

lemma find_if_idx_le: "find_if_idx P xs \<le> length xs"
  by (induction xs) auto

lemma find_if_idx_hit: "find_if_idx P xs < length xs \<Longrightarrow> P (xs ! find_if_idx P xs)"
  by (induction xs) (auto split: if_splits)

lemma find_if_idx_first: "i < find_if_idx P xs \<Longrightarrow> \<not> P (xs ! i)"
proof (induction xs arbitrary: i)
  case Nil
  then show ?case by simp
next
  case (Cons x xs)
  then show ?case by (cases i) (auto split: if_splits)
qed

lemma find_if_idx_takeWhile: "find_if_idx P xs = length (takeWhile (\<lambda>x. \<not> P x) xs)"
  by (induction xs) auto

lemma find_if_idx_append:
  "find_if_idx P (xs @ ys) =
     (if \<exists>x \<in> set xs. P x then find_if_idx P xs else length xs + find_if_idx P ys)"
  by (induction xs) auto


lemma search_seq_none:
  assumes "search_seq xs pat = length xs" and "pat \<noteq> []"
  shows "xs \<noteq> p @ pat @ q"
proof
  assume *: "xs = p @ pat @ q"
  then have "length p < search_seq xs pat" using assms by simp
  from search_seq_first [OF this] * show False by simp
qed

lemma search_seq_some:
  assumes "search_seq xs pat \<noteq> length xs"
  obtains p q where "xs = p @ pat @ q" "length p = search_seq xs pat"
    "\<forall>p' q'. xs = p' @ pat @ q' \<longrightarrow> length p \<le> length p'"
proof
  let ?i = "search_seq xs pat"
  have le: "?i < length xs" using assms search_seq_le [of xs pat] by simp
  from search_seq_match [OF le] have "drop ?i xs = pat @ drop (length pat) (drop ?i xs)"
    by (metis append_take_drop_id)
  then show "xs = take ?i xs @ pat @ drop (length pat) (drop ?i xs)"
    by (metis append_take_drop_id)
  show "length (take ?i xs) = ?i" using le by simp
  have "?i \<le> length p'" if "xs = p' @ pat @ q'" for p' q'
    using that search_seq_first [of "length p'" xs pat] by (auto simp: not_less [symmetric])
  then show "\<forall>p' q'. xs = p' @ pat @ q' \<longrightarrow> length (take ?i xs) \<le> length p'"
    using le by simp
qed

lemma find_if_idx_none: "\<not> find_if_idx P xs < length xs \<Longrightarrow> x \<in> set xs \<Longrightarrow> \<not> P x"
  by (induction xs) (auto split: if_splits)

lemma find_if_idx_some:
  assumes "find_if_idx P xs < length xs"
  obtains p x q where "xs = p @ x # q" "P x" "length p = find_if_idx P xs" "\<forall>y \<in> set p. \<not> P y"
proof
  let ?i = "find_if_idx P xs"
  show "xs = take ?i xs @ xs ! ?i # drop (Suc ?i) xs" using assms by (rule id_take_nth_drop)
  show "P (xs ! ?i)" using assms by (rule find_if_idx_hit)
  show "length (take ?i xs) = ?i" using assms by simp
  show "\<forall>y \<in> set (take ?i xs). \<not> P y"
    using find_if_idx_first [of _ P xs] by (auto simp: in_set_conv_nth)
qed

subsection \<open>Decimal numbers\<close>

definition digit_char :: "nat \<Rightarrow> byte" where
  "digit_char d = (if d < 10 then char_of (48 + d) else char_of (87 + d))"

function digits :: "nat \<Rightarrow> nat \<Rightarrow> byte list" where
  "digits b n = (if b < 2 \<or> n < b then [digit_char n] else digits b (n div b) @ [digit_char (n mod b)])"
  by pat_completeness auto
termination by (relation "measure snd") auto

declare digits.simps [simp del]

definition print_d :: "int \<Rightarrow> byte list" where
  "print_d i = (if i < 0 then CHR ''-'' # digits 10 (nat (- i)) else digits 10 (nat i))"
  \<comment> \<open>\<^verbatim>\<open>%d\<close>\<close>

subsection \<open>Transition systems\<close>

lemma longest_run:
  assumes "\<And>n t. (r ^^ n) s t \<Longrightarrow> n \<le> b"
  shows "\<exists>t. r\<^sup>*\<^sup>* s t \<and> (\<nexists>t'. r t t')"
proof -
  have "\<exists>n. (\<exists>t. (r ^^ n) s t) \<and> (\<forall>m. (\<exists>t. (r ^^ m) s t) \<longrightarrow> m \<le> n)"
    by (rule ex_has_greatest_nat [of _ 0 _ "Suc b"]) (use assms in \<open>auto simp: less_Suc_eq_le\<close>)
  then obtain n t where t: "(r ^^ n) s t" and max: "\<And>m t. (r ^^ m) s t \<Longrightarrow> m \<le> n" by blast
  have "\<not> r t t'" for t' using max [of "Suc n" t'] t by auto
  with relpowp_imp_rtranclp [OF t] show ?thesis by blast
qed

text \<open>The two arguments about step relations that the components share: a property that every step
  keeps holds along every run, and if every step also decreases a measure then runs are bounded and
  some run ends in a state without a step.\<close>

locale preserved =
  fixes step :: "'s \<Rightarrow> 's \<Rightarrow> bool" and inv :: "'s \<Rightarrow> bool"
  assumes step_inv: "step s t \<Longrightarrow> inv s \<Longrightarrow> inv t"
begin

lemma run_inv: "step\<^sup>*\<^sup>* s t \<Longrightarrow> inv s \<Longrightarrow> inv t"
proof (induction rule: rtranclp_induct)
  case (step t u)
  from step.hyps(2) step.IH [OF step.prems] show ?case by (rule step_inv)
qed

end

locale decreasing = preserved +
  fixes weight :: "'s \<Rightarrow> nat"
  assumes step_less: "step s t \<Longrightarrow> inv s \<Longrightarrow> weight t < weight s"
begin

lemma run_bound: "(step ^^ n) s t \<Longrightarrow> inv s \<Longrightarrow> n + weight t \<le> weight s"
proof (induction n arbitrary: t)
  case (Suc n)
  then obtain u where u: "(step ^^ n) s u" "step u t" by auto
  have "inv u" by (rule run_inv [OF relpowp_imp_rtranclp [OF u(1)] Suc.prems(2)])
  with Suc.IH [OF u(1) Suc.prems(2)] step_less [OF u(2)] show ?case by simp
qed simp

lemma some_final:
  assumes "inv s"
  shows "\<exists>t. step\<^sup>*\<^sup>* s t \<and> (\<nexists>t'. step t t')"
proof (rule longest_run)
  show "n \<le> weight s" if "(step ^^ n) s t" for n t using run_bound [OF that assms] by simp
qed

end

end
