(* ===== verification/HttpTypes.thy ===== *)
theory HttpTypes
  imports Prelude
begin

text \<open>
  The data of the HTTP parser (\<^verbatim>\<open>src/evpp/evpphttp/http_parser.h\<close> and the first part of
  \<^verbatim>\<open>src/evpp/evpphttp/http_parser_cpp.cc\<close>): the enumerations, the parser and settings structures,
  the character tables and the character classes, for the build's \<^verbatim>\<open>HTTP_PARSER_STRICT = 0\<close>.

  A bit mask of independent flags is a set of flags. Fields that \<^verbatim>\<open>http_parser_init\<close> leaves alone
  keep whatever value the structure had. A callback receives the parser and the object behind
  \<^verbatim>\<open>parser->data\<close> (type \<open>'u\<close>), and returns its result with both as it left them.
\<close>

section \<open>Enumerations\<close>

datatype http_method =
    HTTP_DELETE | HTTP_GET | HTTP_HEAD | HTTP_POST | HTTP_PUT
  | HTTP_CONNECT | HTTP_OPTIONS | HTTP_TRACE
  | HTTP_COPY | HTTP_LOCK | HTTP_MKCOL | HTTP_MOVE | HTTP_PROPFIND | HTTP_PROPPATCH | HTTP_UNLOCK
  | HTTP_REPORT | HTTP_MKACTIVITY | HTTP_CHECKOUT | HTTP_MERGE
  | HTTP_MSEARCH | HTTP_NOTIFY | HTTP_SUBSCRIBE | HTTP_UNSUBSCRIBE
  | HTTP_PATCH

datatype http_parser_type = HTTP_REQUEST | HTTP_RESPONSE | HTTP_BOTH

datatype http_flag = F_CHUNKED | F_TRAILING | F_UPGRADE | F_SKIPBODY

datatype (plugins del: "quickcheck" size transfer lifting) http_errno =
    HPE_OK
  | HPE_CB_message_begin | HPE_CB_path | HPE_CB_query_string | HPE_CB_url | HPE_CB_fragment
  | HPE_CB_header_field | HPE_CB_header_value | HPE_CB_headers_complete | HPE_CB_body
  | HPE_CB_message_complete | HPE_CB_reason | HPE_CB_chunk_header | HPE_CB_chunk_complete
  | HPE_INVALID_EOF_STATE | HPE_HEADER_OVERFLOW | HPE_CLOSED_CONNECTION | HPE_INVALID_VERSION
  | HPE_INVALID_STATUS | HPE_INVALID_METHOD | HPE_INVALID_URL | HPE_INVALID_HOST
  | HPE_INVALID_PORT | HPE_INVALID_PATH | HPE_INVALID_QUERY_STRING | HPE_INVALID_FRAGMENT
  | HPE_LF_EXPECTED | HPE_INVALID_HEADER_TOKEN | HPE_INVALID_CONTENT_LENGTH
  | HPE_HUGE_CONTENT_LENGTH | HPE_INVALID_CHUNK_SIZE | HPE_HUGE_CHUNK_SIZE
  | HPE_INVALID_TRANSFER_ENCODING | HPE_INVALID_UPGRADE | HPE_INVALID_CONSTANT
  | HPE_INVALID_INTERNAL_STATE | HPE_STRICT | HPE_PAUSED | HPE_UNKNOWN

datatype (plugins del: "quickcheck" size transfer lifting) http_state =
    s_dead | s_pre_start_req_or_res | s_start_req_or_res | s_res_or_resp_H
  | s_pre_start_res | s_start_res | s_res_H | s_res_HT | s_res_HTT | s_res_HTTP
  | s_res_first_http_major | s_res_http_major | s_res_first_http_minor | s_res_http_minor
  | s_res_first_status_code | s_res_status_code | s_res_status_start | s_res_status
  | s_res_line_almost_done
  | s_pre_start_req | s_start_req | s_req_method | s_req_spaces_before_url
  | s_req_schema | s_req_schema_slash | s_req_schema_slash_slash
  | s_req_server_start | s_req_server | s_req_server_with_at
  | s_req_host_start | s_req_host | s_req_host_ipv6 | s_req_host_done | s_req_port
  | s_req_path | s_req_query_string_start | s_req_query_string
  | s_req_fragment_start | s_req_fragment
  | s_req_http_start | s_req_http_H | s_req_http_HT | s_req_http_HTT | s_req_http_HTTP
  | s_req_first_http_major | s_req_http_major | s_req_first_http_minor | s_req_http_minor
  | s_req_line_almost_done
  | s_header_field_start | s_header_field | s_header_value_start | s_header_value
  | s_header_value_lws | s_header_almost_done
  | s_chunk_size_start | s_chunk_size | s_chunk_parameters | s_chunk_size_almost_done
  | s_headers_almost_done | s_headers_done
  | s_chunk_data | s_chunk_data_almost_done | s_chunk_data_done
  | s_body_identity | s_body_identity_eof | s_message_done

datatype header_states =
    h_general | h_general_and_quote | h_general_and_quote_and_escape
  | h_matching_content_length | h_matching_transfer_encoding | h_matching_upgrade
  | h_content_length | h_transfer_encoding | h_upgrade
  | h_matching_transfer_encoding_chunked | h_transfer_encoding_chunked

section \<open>The order of the states\<close>

text \<open>
  The numbers of \<^verbatim>\<open>enum state\<close>, which starts at 1. The states up to \<^term>\<open>s_headers_done\<close> are the
  header states.
\<close>

definition state_order :: "http_state list" where
  "state_order =
    [s_dead, s_pre_start_req_or_res, s_start_req_or_res, s_res_or_resp_H,
     s_pre_start_res, s_start_res, s_res_H, s_res_HT, s_res_HTT, s_res_HTTP,
     s_res_first_http_major, s_res_http_major, s_res_first_http_minor, s_res_http_minor,
     s_res_first_status_code, s_res_status_code, s_res_status_start, s_res_status,
     s_res_line_almost_done,
     s_pre_start_req, s_start_req, s_req_method, s_req_spaces_before_url,
     s_req_schema, s_req_schema_slash, s_req_schema_slash_slash,
     s_req_server_start, s_req_server, s_req_server_with_at,
     s_req_host_start, s_req_host, s_req_host_ipv6, s_req_host_done, s_req_port,
     s_req_path, s_req_query_string_start, s_req_query_string,
     s_req_fragment_start, s_req_fragment,
     s_req_http_start, s_req_http_H, s_req_http_HT, s_req_http_HTT, s_req_http_HTTP,
     s_req_first_http_major, s_req_http_major, s_req_first_http_minor, s_req_http_minor,
     s_req_line_almost_done,
     s_header_field_start, s_header_field, s_header_value_start, s_header_value,
     s_header_value_lws, s_header_almost_done,
     s_chunk_size_start, s_chunk_size, s_chunk_parameters, s_chunk_size_almost_done,
     s_headers_almost_done, s_headers_done,
     s_chunk_data, s_chunk_data_almost_done, s_chunk_data_done,
     s_body_identity, s_body_identity_eof, s_message_done]"

definition state_code :: "http_state \<Rightarrow> nat" where
  "state_code s = Suc (find_if_idx (\<lambda>t. t = s) state_order)"

definition PARSING_HEADER :: "http_state \<Rightarrow> bool" where
  "PARSING_HEADER s \<longleftrightarrow> state_code s \<le> state_code s_headers_done"

section \<open>Structures\<close>

record http_parser =
  ptype :: http_parser_type
  flags :: "http_flag set"
  pstate :: http_state
  header_state :: header_states
  pindex :: nat
  nread :: nat
  content_length :: int
  http_major :: nat
  http_minor :: nat
  status_code :: nat
  pmethod :: http_method
  perrno :: http_errno
  upgrade :: bool

type_synonym 'u http_cb = "http_parser \<Rightarrow> 'u \<Rightarrow> int \<times> http_parser \<times> 'u"
type_synonym 'u http_data_cb = "http_parser \<Rightarrow> byte list \<Rightarrow> 'u \<Rightarrow> int \<times> http_parser \<times> 'u"

record 'u http_parser_settings =
  on_message_begin :: "'u http_cb"
  on_url :: "'u http_data_cb"
  on_header_field :: "'u http_data_cb"
  on_header_value :: "'u http_data_cb"
  on_headers_complete :: "http_parser \<Rightarrow> nat \<Rightarrow> 'u \<Rightarrow> int \<times> http_parser \<times> 'u"
    \<comment> \<open>the data pointer is \<^verbatim>\<open>nullptr\<close>; the length is the size of the header\<close>
  on_body :: "'u http_data_cb"
  on_message_complete :: "'u http_cb"
  on_reason :: "'u http_data_cb"
  on_chunk_header :: "'u http_cb"
  on_chunk_complete :: "'u http_cb"

section \<open>Tables\<close>

text \<open>
  The initialisers of the three tables give 128 entries; C fills the other 128 with zeros.
\<close>

definition tokens :: "nat list" where
  "tokens =
    [0, 0, 0, 0, 0, 0, 0, 0, 0, 0, 0, 0, 0, 0, 0, 0,
     0, 0, 0, 0, 0, 0, 0, 0, 0, 0, 0, 0, 0, 0, 0, 0,
     0, 33, 0, 35, 36, 37, 38, 39, 0, 0, 42, 43, 0, 45, 46, 0,
     48, 49, 50, 51, 52, 53, 54, 55, 56, 57, 0, 0, 0, 0, 0, 0,
     0, 97, 98, 99, 100, 101, 102, 103, 104, 105, 106, 107, 108, 109, 110, 111,
     112, 113, 114, 115, 116, 117, 118, 119, 120, 121, 122, 0, 0, 0, 94, 95,
     96, 97, 98, 99, 100, 101, 102, 103, 104, 105, 106, 107, 108, 109, 110, 111,
     112, 113, 114, 115, 116, 117, 118, 119, 120, 121, 122, 0, 124, 0, 126, 0] @ replicate 128 0"

definition unhex :: "int list" where
  "unhex =
    [-1, -1, -1, -1, -1, -1, -1, -1, -1, -1, -1, -1, -1, -1, -1, -1,
     -1, -1, -1, -1, -1, -1, -1, -1, -1, -1, -1, -1, -1, -1, -1, -1,
     -1, -1, -1, -1, -1, -1, -1, -1, -1, -1, -1, -1, -1, -1, -1, -1,
     0, 1, 2, 3, 4, 5, 6, 7, 8, 9, -1, -1, -1, -1, -1, -1,
     -1, 10, 11, 12, 13, 14, 15, -1, -1, -1, -1, -1, -1, -1, -1, -1,
     -1, -1, -1, -1, -1, -1, -1, -1, -1, -1, -1, -1, -1, -1, -1, -1,
     -1, 10, 11, 12, 13, 14, 15, -1, -1, -1, -1, -1, -1, -1, -1, -1,
     -1, -1, -1, -1, -1, -1, -1, -1, -1, -1, -1, -1, -1, -1, -1, -1] @ replicate 128 0"

definition normal_url_char :: "nat list" where
  "normal_url_char =
    [0, 0, 0, 0, 0, 0, 0, 0, 0, 1, 0, 0, 1, 0, 0, 0,
     0, 0, 0, 0, 0, 0, 0, 0, 0, 0, 0, 0, 0, 0, 0, 0,
     0, 1, 1, 0, 1, 1, 1, 1, 1, 1, 1, 1, 1, 1, 1, 1,
     1, 1, 1, 1, 1, 1, 1, 1, 1, 1, 1, 1, 1, 1, 1, 0,
     1, 1, 1, 1, 1, 1, 1, 1, 1, 1, 1, 1, 1, 1, 1, 1,
     1, 1, 1, 1, 1, 1, 1, 1, 1, 1, 1, 1, 1, 1, 1, 1,
     1, 1, 1, 1, 1, 1, 1, 1, 1, 1, 1, 1, 1, 1, 1, 1,
     1, 1, 1, 1, 1, 1, 1, 1, 1, 1, 1, 1, 1, 1, 1, 0] @ replicate 128 0"

primrec method_strings :: "http_method \<Rightarrow> byte list" where
  "method_strings HTTP_DELETE = ''DELETE''"
| "method_strings HTTP_GET = ''GET''"
| "method_strings HTTP_HEAD = ''HEAD''"
| "method_strings HTTP_POST = ''POST''"
| "method_strings HTTP_PUT = ''PUT''"
| "method_strings HTTP_CONNECT = ''CONNECT''"
| "method_strings HTTP_OPTIONS = ''OPTIONS''"
| "method_strings HTTP_TRACE = ''TRACE''"
| "method_strings HTTP_COPY = ''COPY''"
| "method_strings HTTP_LOCK = ''LOCK''"
| "method_strings HTTP_MKCOL = ''MKCOL''"
| "method_strings HTTP_MOVE = ''MOVE''"
| "method_strings HTTP_PROPFIND = ''PROPFIND''"
| "method_strings HTTP_PROPPATCH = ''PROPPATCH''"
| "method_strings HTTP_UNLOCK = ''UNLOCK''"
| "method_strings HTTP_REPORT = ''REPORT''"
| "method_strings HTTP_MKACTIVITY = ''MKACTIVITY''"
| "method_strings HTTP_CHECKOUT = ''CHECKOUT''"
| "method_strings HTTP_MERGE = ''MERGE''"
| "method_strings HTTP_MSEARCH = ''M-SEARCH''"
| "method_strings HTTP_NOTIFY = ''NOTIFY''"
| "method_strings HTTP_SUBSCRIBE = ''SUBSCRIBE''"
| "method_strings HTTP_UNSUBSCRIBE = ''UNSUBSCRIBE''"
| "method_strings HTTP_PATCH = ''PATCH''"

definition CONTENT_LENGTH :: "byte list" where "CONTENT_LENGTH = ''content-length''"
definition TRANSFER_ENCODING :: "byte list" where "TRANSFER_ENCODING = ''transfer-encoding''"
definition UPGRADE :: "byte list" where "UPGRADE = ''upgrade''"
definition CHUNKED :: "byte list" where "CHUNKED = ''chunked''"

definition HTTP_MAX_HEADER_SIZE :: nat where "HTTP_MAX_HEADER_SIZE = 80 * 1024"

section \<open>Character classes\<close>

abbreviation code_of :: "byte \<Rightarrow> nat" where "code_of c \<equiv> of_char c"
abbreviation QT :: byte where "QT \<equiv> CHR 0x22"
abbreviation BS :: byte where "BS \<equiv> CHR 0x5C"

definition LOWER :: "byte \<Rightarrow> nat" where
  "LOWER c = code_of c OR 0x20"

definition TOKEN :: "byte \<Rightarrow> nat" where
  "TOKEN c = tokens ! code_of c"

definition UNHEX :: "byte \<Rightarrow> int" where
  "UNHEX c = unhex ! code_of c"

definition IS_ALPHA :: "byte \<Rightarrow> bool" where
  "IS_ALPHA c \<longleftrightarrow> LOWER c \<ge> code_of CHR ''a'' \<and> LOWER c \<le> code_of CHR ''z''"

definition IS_NUM :: "byte \<Rightarrow> bool" where
  "IS_NUM c \<longleftrightarrow> code_of c \<ge> code_of CHR ''0'' \<and> code_of c \<le> code_of CHR ''9''"

definition IS_ALPHANUM :: "byte \<Rightarrow> bool" where
  "IS_ALPHANUM c \<longleftrightarrow> IS_ALPHA c \<or> IS_NUM c"

definition IS_HEX :: "byte \<Rightarrow> bool" where
  "IS_HEX c \<longleftrightarrow> IS_NUM c \<or> (LOWER c \<ge> code_of CHR ''a'' \<and> LOWER c \<le> code_of CHR ''f'')"

definition IS_MARK :: "byte \<Rightarrow> bool" where
  "IS_MARK c \<longleftrightarrow> c \<in> set [CHR ''-'', CHR ''_'', CHR ''.'', CHR ''!'', CHR ''~'', CHR ''*'', CHR 0x27,
     CHR ''('', CHR '')'']"

definition IS_USERINFO_CHAR :: "byte \<Rightarrow> bool" where
  "IS_USERINFO_CHAR c \<longleftrightarrow> IS_ALPHANUM c \<or> IS_MARK c \<or> c \<in> set [CHR ''%'', CHR '';'', CHR '':'',
     CHR ''&'', CHR ''='', CHR ''+'', CHR ''$'', CHR '','']"

definition IS_URL_CHAR :: "byte \<Rightarrow> bool" where
  "IS_URL_CHAR c \<longleftrightarrow> normal_url_char ! code_of c \<noteq> 0 \<or> code_of c AND 0x80 \<noteq> 0"

definition IS_HOST_CHAR :: "byte \<Rightarrow> bool" where
  "IS_HOST_CHAR c \<longleftrightarrow> IS_ALPHANUM c \<or> c = CHR ''.'' \<or> c = CHR ''-'' \<or> c = CHR ''_''"

definition IS_HEADER_CHAR :: "byte \<Rightarrow> bool" where
  "IS_HEADER_CHAR c \<longleftrightarrow> c = CR \<or> c = LF \<or> code_of c = 9 \<or> (code_of c > 31 \<and> code_of c \<noteq> 127)"

definition digit :: "byte \<Rightarrow> nat" where
  "digit c = code_of c - code_of CHR ''0''"
  \<comment> \<open>\<^verbatim>\<open>ch - '0'\<close>\<close>

section \<open>Set-up and pausing\<close>

definition start_state :: "http_parser \<Rightarrow> http_state" where
  "start_state ps = (if ptype ps = HTTP_REQUEST then s_pre_start_req else s_pre_start_res)"

definition http_parser_init :: "http_parser_type \<Rightarrow> http_parser \<Rightarrow> http_parser" where
  "http_parser_init t ps = ps\<lparr>ptype := t,
     pstate := (if t = HTTP_REQUEST then s_pre_start_req
                else if t = HTTP_RESPONSE then s_pre_start_res else s_pre_start_req_or_res),
     nread := 0, upgrade := False, flags := {}, pmethod := HTTP_DELETE, perrno := HPE_OK\<rparr>"

definition http_parser_pause :: "bool \<Rightarrow> http_parser \<Rightarrow> http_parser option" where
  "http_parser_pause paused ps =
     (if perrno ps = HPE_OK \<or> perrno ps = HPE_PAUSED
      then Some (ps\<lparr>perrno := (if paused then HPE_PAUSED else HPE_OK)\<rparr>)
      else None)"

definition http_method_str :: "http_method \<Rightarrow> byte list" where
  "http_method_str m = method_strings m"

section \<open>What the tables contain\<close>

lemma PARSING_HEADER_iff: "PARSING_HEADER s \<longleftrightarrow> s \<notin> {s_chunk_data, s_chunk_data_almost_done,
    s_chunk_data_done, s_body_identity, s_body_identity_eof, s_message_done}"
  by (cases s) (simp_all add: PARSING_HEADER_def state_code_def state_order_def)

lemma code_less [simp]: "code_of c < 256"
  by (metis of_char_mod_256 mod_less_divisor zero_less_numeral)

text \<open>
  The separators of RFC 2616 and, for each table, the function it tabulates.
\<close>

definition separators :: "byte list" where
  "separators = ''()<>@,;:'' @ [BS, QT] @ ''/[]?={}'' @ [SP, HT]"

definition token_code :: "nat \<Rightarrow> nat" where
  "token_code n = (if n \<le> 31 \<or> n \<ge> 127 \<or> n \<in> set (map of_char separators) then 0
     else if code_of CHR ''A'' \<le> n \<and> n \<le> code_of CHR ''Z'' then n + 32 else n)"

definition unhex_code :: "nat \<Rightarrow> int" where
  "unhex_code n = (if 48 \<le> n \<and> n \<le> 57 then int n - 48 else if 65 \<le> n \<and> n \<le> 70 then int n - 55
     else if 97 \<le> n \<and> n \<le> 102 then int n - 87 else if n < 128 then -1 else 0)"

definition url_code :: "nat \<Rightarrow> nat" where
  "url_code n = (if n = 9 \<or> n = 12 \<or> (32 < n \<and> n < 127 \<and> n \<noteq> 35 \<and> n \<noteq> 63) then 1 else 0)"

lemma table_nth:
  assumes "t = map f [0..<m] @ replicate k z" and "\<forall>n. m \<le> n \<longrightarrow> f n = z" and "i < m + k"
  shows "t ! i = f i"
  using assms by (simp add: nth_append)

lemma TOKEN_code: "TOKEN c = token_code (code_of c)"
  unfolding TOKEN_def
proof (rule table_nth [where m = 128 and k = 128 and z = 0])
  show "tokens = map token_code [0..<128] @ replicate 128 0" 
    unfolding tokens_def by (rule arg_cong2 [of _ _ _ _ append]) (simp_all add: upt_conv_Cons token_code_def separators_def)
  show "\<forall>n. 128 \<le> n \<longrightarrow> token_code n = 0" by (simp add: token_code_def)
qed simp

lemma UNHEX_code: "UNHEX c = unhex_code (code_of c)"
  unfolding UNHEX_def
proof (rule table_nth [where m = 128 and k = 128 and z = 0])
  show "unhex = map unhex_code [0..<128] @ replicate 128 0" 
    unfolding unhex_def by (rule arg_cong2 [of _ _ _ _ append]) (simp_all add: upt_conv_Cons unhex_code_def)
  show "\<forall>n. 128 \<le> n \<longrightarrow> unhex_code n = 0" by (simp add: unhex_code_def)
qed simp

lemma url_code: "normal_url_char ! (code_of c) = url_code (code_of c)"
proof (rule table_nth [where m = 128 and k = 128 and z = 0])
  show "normal_url_char = map url_code [0..<128] @ replicate 128 0" 
    unfolding normal_url_char_def by (rule arg_cong2 [of _ _ _ _ append]) (simp_all add: upt_conv_Cons url_code_def)
  show "\<forall>n. 128 \<le> n \<longrightarrow> url_code n = 0" by (simp add: url_code_def)
qed simp

lemma UNHEX_range: "-1 \<le> UNHEX c" "UNHEX c \<le> 15"
  by (simp_all add: UNHEX_code unhex_code_def)

lemma digit_le: "IS_NUM c \<Longrightarrow> digit c \<le> 9"
  unfolding IS_NUM_def digit_def by simp linarith

end
