(* ===== verification/HttpParser.thy ===== *)
theory HttpParser
  imports HttpTypes
begin

text \<open>
  \<^verbatim>\<open>http_parser_execute\<close> of \<^verbatim>\<open>src/evpp/evpphttp/http_parser_cpp.cc\<close>: the byte-driven state machine for
  HTTP requests and responses, with its callbacks, its marks into the input, its fast-forward
  loops and its error exits. The function's local variables are the record \<open>exec\<close>; pointers into
  the input are offsets from \<^verbatim>\<open>data\<close>. One execution of the big \<^verbatim>\<open>switch\<close> is \<open>exec_byte\<close>, split by
  groups of states, and ends in an \<open>outcome\<close>: \<^verbatim>\<open>break\<close>, \<^verbatim>\<open>goto reexecute_byte\<close> or \<^verbatim>\<open>return\<close>. A failed
  assertion, a read outside the input or a table, or a signed overflow is the outcome \<open>Fault\<close>.

  The loop \<open>run\<close> is total: every callback may do to the parser what it likes and the loop still
  ends, because the local copy of the state and the position decide its progress.
\<close>

section \<open>The execution state\<close>

record 'u exec =
  parser :: http_parser
  st :: http_state
  pos :: nat
  ch :: byte
  header_field_mark :: "nat option"
  header_value_mark :: "nat option"
  url_mark :: "nat option"
  reason_mark :: "nat option"
  body_mark :: "nat option"
  header_data_start :: nat
  udata :: 'u

datatype 'u outcome = Break "'u exec" | Reexecute "'u exec" | Return nat "'u exec" | Fault

definition upd :: "(http_parser \<Rightarrow> http_parser) \<Rightarrow> 'u exec \<Rightarrow> 'u exec" where
  "upd f x = x\<lparr>parser := f (parser x)\<rparr>"

definition SET_ERRNO :: "http_errno \<Rightarrow> 'u exec \<Rightarrow> 'u exec" where
  "SET_ERRNO e = upd (\<lambda>ps. ps\<lparr>perrno := e\<rparr>)"

definition RETURN :: "nat \<Rightarrow> 'u exec \<Rightarrow> 'u outcome" where
  "RETURN n x = Return n (upd (\<lambda>ps. ps\<lparr>pstate := st x\<rparr>) x)"

definition goto_error :: "'u exec \<Rightarrow> 'u outcome" where
  "goto_error x =
     RETURN (pos x) (if perrno (parser x) = HPE_OK then SET_ERRNO HPE_UNKNOWN x else x)"

definition fail :: "http_errno \<Rightarrow> 'u exec \<Rightarrow> 'u outcome" where
  "fail e x = goto_error (SET_ERRNO e x)"
  \<comment> \<open>\<^verbatim>\<open>SET_ERRNO(e); goto error;\<close>\<close>

section \<open>Callbacks and marks\<close>

datatype notify_event = N_message_begin | N_message_complete | N_chunk_header | N_chunk_complete

datatype data_event = D_header_field | D_header_value | D_url | D_reason | D_body

primrec notify_cb :: "notify_event \<Rightarrow> 'u http_parser_settings \<Rightarrow> 'u http_cb" where
  "notify_cb N_message_begin S = on_message_begin S"
| "notify_cb N_message_complete S = on_message_complete S"
| "notify_cb N_chunk_header S = on_chunk_header S"
| "notify_cb N_chunk_complete S = on_chunk_complete S"

primrec notify_errno :: "notify_event \<Rightarrow> http_errno" where
  "notify_errno N_message_begin = HPE_CB_message_begin"
| "notify_errno N_message_complete = HPE_CB_message_complete"
| "notify_errno N_chunk_header = HPE_CB_chunk_header"
| "notify_errno N_chunk_complete = HPE_CB_chunk_complete"

primrec data_cb :: "data_event \<Rightarrow> 'u http_parser_settings \<Rightarrow> 'u http_data_cb" where
  "data_cb D_header_field S = on_header_field S"
| "data_cb D_header_value S = on_header_value S"
| "data_cb D_url S = on_url S"
| "data_cb D_reason S = on_reason S"
| "data_cb D_body S = on_body S"

primrec data_errno :: "data_event \<Rightarrow> http_errno" where
  "data_errno D_header_field = HPE_CB_header_field"
| "data_errno D_header_value = HPE_CB_header_value"
| "data_errno D_url = HPE_CB_url"
| "data_errno D_reason = HPE_CB_reason"
| "data_errno D_body = HPE_CB_body"

primrec get_mark :: "data_event \<Rightarrow> 'u exec \<Rightarrow> nat option" where
  "get_mark D_header_field x = header_field_mark x"
| "get_mark D_header_value x = header_value_mark x"
| "get_mark D_url x = url_mark x"
| "get_mark D_reason x = reason_mark x"
| "get_mark D_body x = body_mark x"

primrec set_mark :: "data_event \<Rightarrow> nat option \<Rightarrow> 'u exec \<Rightarrow> 'u exec" where
  "set_mark D_header_field m x = x\<lparr>header_field_mark := m\<rparr>"
| "set_mark D_header_value m x = x\<lparr>header_value_mark := m\<rparr>"
| "set_mark D_url m x = x\<lparr>url_mark := m\<rparr>"
| "set_mark D_reason m x = x\<lparr>reason_mark := m\<rparr>"
| "set_mark D_body m x = x\<lparr>body_mark := m\<rparr>"

definition MARK :: "data_event \<Rightarrow> 'u exec \<Rightarrow> 'u exec" where
  "MARK ev x = (if get_mark ev x = None then set_mark ev (Some (pos x)) x else x)"

definition after_callback :: "http_errno \<Rightarrow> nat \<Rightarrow> int \<times> http_parser \<times> 'u \<Rightarrow> 'u exec \<Rightarrow>
    ('u exec \<Rightarrow> 'u outcome) \<Rightarrow> 'u outcome" where
  "after_callback e er res x k =
     (case res of (r, ps, u) \<Rightarrow>
        let ps' = (if r \<noteq> 0 then ps\<lparr>perrno := e\<rparr> else ps);
            x' = x\<lparr>parser := ps', udata := u\<rparr>
        in if perrno ps' \<noteq> HPE_OK then Return er x' else k x')"

definition CALLBACK_NOTIFY_ER :: "'u http_parser_settings \<Rightarrow> notify_event \<Rightarrow> nat \<Rightarrow> 'u exec \<Rightarrow>
    ('u exec \<Rightarrow> 'u outcome) \<Rightarrow> 'u outcome" where
  "CALLBACK_NOTIFY_ER S ev er x k =
     (let ps = (parser x)\<lparr>pstate := st x\<rparr>
      in if perrno ps \<noteq> HPE_OK then Fault
         else after_callback (notify_errno ev) er (notify_cb ev S ps (udata x)) x k)"

definition CALLBACK_NOTIFY where
  "CALLBACK_NOTIFY S ev x k = CALLBACK_NOTIFY_ER S ev (pos x + 1) x k"

definition CALLBACK_NOTIFY_NOADVANCE where
  "CALLBACK_NOTIFY_NOADVANCE S ev x k = CALLBACK_NOTIFY_ER S ev (pos x) x k"

definition CALLBACK_DATA_ER :: "'u http_parser_settings \<Rightarrow> byte list \<Rightarrow> data_event \<Rightarrow> nat \<Rightarrow> nat \<Rightarrow>
    'u exec \<Rightarrow> ('u exec \<Rightarrow> 'u outcome) \<Rightarrow> 'u outcome" where
  "CALLBACK_DATA_ER S data ev stop er x k =
     (let ps = (parser x)\<lparr>pstate := st x\<rparr>
      in if perrno ps \<noteq> HPE_OK then Fault
         else case get_mark ev x of
             None \<Rightarrow> k (x\<lparr>parser := ps\<rparr>)
           | Some m \<Rightarrow>
               (if m \<le> stop \<and> stop \<le> length data
                then after_callback (data_errno ev) er
                       (data_cb ev S ps (take (stop - m) (drop m data)) (udata x)) x
                       (\<lambda>x'. k (set_mark ev None x'))
                else Fault))"
  \<comment> \<open>the bytes from the mark up to the offset \<open>stop\<close>\<close>

definition CALLBACK_DATA where
  "CALLBACK_DATA S data ev x k = CALLBACK_DATA_ER S data ev (pos x) (pos x + 1) x k"

definition CALLBACK_DATA_NOADVANCE where
  "CALLBACK_DATA_NOADVANCE S data ev x k = CALLBACK_DATA_ER S data ev (pos x) (pos x) x k"

definition CALLBACK_SPACE :: "'u http_parser_settings \<Rightarrow> 'u exec \<Rightarrow> ('u exec \<Rightarrow> 'u outcome) \<Rightarrow> 'u outcome" where
  "CALLBACK_SPACE S x k =
     after_callback HPE_CB_header_value (pos x)
       (on_header_value S ((parser x)\<lparr>pstate := st x\<rparr>) [SP] (udata x)) x k"

section \<open>The start line of a message\<close>

definition set_no_body :: "'u exec \<Rightarrow> 'u exec" where
  "set_no_body = upd (\<lambda>ps. ps\<lparr>flags := {}, content_length := -1\<rparr>)"

definition step_start :: "'u http_parser_settings \<Rightarrow> 'u exec \<Rightarrow> 'u outcome" where
  "step_start S x = (case st x of
     s_pre_start_req_or_res \<Rightarrow>
       (if ch x = CR \<or> ch x = LF then Break x
        else CALLBACK_NOTIFY_NOADVANCE S N_message_begin (x\<lparr>st := s_start_req_or_res\<rparr>) Reexecute)
   | s_start_req_or_res \<Rightarrow>
       (let x1 = set_no_body x
        in if ch x = CHR ''H'' then Break (x1\<lparr>st := s_res_or_resp_H\<rparr>)
           else Reexecute ((upd (\<lambda>ps. ps\<lparr>ptype := HTTP_REQUEST\<rparr>) x1)\<lparr>st := s_start_req\<rparr>))
   | s_res_or_resp_H \<Rightarrow>
       (if ch x = CHR ''T''
        then Break ((upd (\<lambda>ps. ps\<lparr>ptype := HTTP_RESPONSE\<rparr>) x)\<lparr>st := s_res_HT\<rparr>)
        else if ch x \<noteq> CHR ''E'' then fail HPE_INVALID_CONSTANT x
        else Break ((upd (\<lambda>ps. ps\<lparr>ptype := HTTP_REQUEST, pmethod := HTTP_HEAD, pindex := 2\<rparr>) x)
                    \<lparr>st := s_req_method\<rparr>))
   | s_pre_start_res \<Rightarrow>
       (if ch x = CR \<or> ch x = LF then Break x
        else CALLBACK_NOTIFY_NOADVANCE S N_message_begin (x\<lparr>st := s_start_res\<rparr>) Reexecute)
   | s_start_res \<Rightarrow>
       (let x1 = set_no_body x
        in if ch x = CHR ''H'' then Break (x1\<lparr>st := s_res_H\<rparr>) else fail HPE_INVALID_CONSTANT x1)
   | _ \<Rightarrow> Fault)"

definition first_major :: "http_state \<Rightarrow> 'u exec \<Rightarrow> 'u outcome" where
  "first_major next x =
     (if code_of (ch x) < code_of CHR ''0'' \<or> code_of (ch x) > code_of CHR ''9''
      then fail HPE_INVALID_VERSION x
      else Break ((upd (\<lambda>ps. ps\<lparr>http_major := digit (ch x)\<rparr>) x)\<lparr>st := next\<rparr>))"

definition more_major :: "http_state \<Rightarrow> 'u exec \<Rightarrow> 'u outcome" where
  "more_major next x =
     (if ch x = CHR ''.'' then Break (x\<lparr>st := next\<rparr>)
      else if \<not> IS_NUM (ch x) then fail HPE_INVALID_VERSION x
      else let x1 = upd (\<lambda>ps. ps\<lparr>http_major := (http_major ps * 10 + digit (ch x)) mod 2 ^ 16\<rparr>) x
           in if http_major (parser x1) > 999 then fail HPE_INVALID_VERSION x1 else Break x1)"

definition first_minor :: "http_state \<Rightarrow> 'u exec \<Rightarrow> 'u outcome" where
  "first_minor next x =
     (if \<not> IS_NUM (ch x) then fail HPE_INVALID_VERSION x
      else Break ((upd (\<lambda>ps. ps\<lparr>http_minor := digit (ch x)\<rparr>) x)\<lparr>st := next\<rparr>))"

definition more_minor :: "'u exec \<Rightarrow> 'u outcome" where
  "more_minor x =
     (if \<not> IS_NUM (ch x) then fail HPE_INVALID_VERSION x
      else let x1 = upd (\<lambda>ps. ps\<lparr>http_minor := (http_minor ps * 10 + digit (ch x)) mod 2 ^ 16\<rparr>) x
           in if http_minor (parser x1) > 999 then fail HPE_INVALID_VERSION x1 else Break x1)"

definition step_res_version :: "'u exec \<Rightarrow> 'u outcome" where
  "step_res_version x = (case st x of
     s_res_H \<Rightarrow> Break (x\<lparr>st := s_res_HT\<rparr>)
   | s_res_HT \<Rightarrow> Break (x\<lparr>st := s_res_HTT\<rparr>)
   | s_res_HTT \<Rightarrow> Break (x\<lparr>st := s_res_HTTP\<rparr>)
   | s_res_HTTP \<Rightarrow> Break (x\<lparr>st := s_res_first_http_major\<rparr>)
   | s_res_first_http_major \<Rightarrow> first_major s_res_http_major x
   | s_res_http_major \<Rightarrow> more_major s_res_first_http_minor x
   | s_res_first_http_minor \<Rightarrow> first_minor s_res_http_minor x
   | s_res_http_minor \<Rightarrow>
       (if ch x = SP then Break (x\<lparr>st := s_res_first_status_code\<rparr>) else more_minor x)
   | _ \<Rightarrow> Fault)"

definition step_res_status :: "'u http_parser_settings \<Rightarrow> byte list \<Rightarrow> 'u exec \<Rightarrow> 'u outcome" where
  "step_res_status S data x = (case st x of
     s_res_first_status_code \<Rightarrow>
       (if \<not> IS_NUM (ch x) then (if ch x = SP then Break x else fail HPE_INVALID_STATUS x)
        else Break ((upd (\<lambda>ps. ps\<lparr>status_code := digit (ch x)\<rparr>) x)\<lparr>st := s_res_status_code\<rparr>))
   | s_res_status_code \<Rightarrow>
       (if \<not> IS_NUM (ch x)
        then (if ch x = SP then Break (x\<lparr>st := s_res_status\<rparr>)
              else if ch x = CR then Break (x\<lparr>st := s_res_line_almost_done\<rparr>)
              else if ch x = LF then Break (x\<lparr>st := s_header_field_start\<rparr>)
              else fail HPE_INVALID_STATUS x)
        else let x1 = upd (\<lambda>ps. ps\<lparr>status_code := (status_code ps * 10 + digit (ch x)) mod 2 ^ 16\<rparr>) x
             in if status_code (parser x1) > 999 then fail HPE_INVALID_STATUS x1 else Break x1)
   | s_res_status \<Rightarrow>
       (let x1 = MARK D_reason x
        in if ch x = CR then CALLBACK_DATA S data D_reason (x1\<lparr>st := s_res_line_almost_done\<rparr>) Break
           else if ch x = LF then CALLBACK_DATA S data D_reason (x1\<lparr>st := s_header_field_start\<rparr>) Break
           else Break x1)
   | s_res_line_almost_done \<Rightarrow> Break (x\<lparr>st := s_header_field_start\<rparr>)
   | _ \<Rightarrow> Fault)"

section \<open>The request method\<close>

definition method_of_first :: "byte \<Rightarrow> http_method option" where
  "method_of_first c =
     (if c = CHR ''C'' then Some HTTP_CONNECT else if c = CHR ''D'' then Some HTTP_DELETE
      else if c = CHR ''G'' then Some HTTP_GET else if c = CHR ''H'' then Some HTTP_HEAD
      else if c = CHR ''L'' then Some HTTP_LOCK else if c = CHR ''M'' then Some HTTP_MKCOL
      else if c = CHR ''N'' then Some HTTP_NOTIFY else if c = CHR ''O'' then Some HTTP_OPTIONS
      else if c = CHR ''P'' then Some HTTP_POST else if c = CHR ''R'' then Some HTTP_REPORT
      else if c = CHR ''S'' then Some HTTP_SUBSCRIBE else if c = CHR ''T'' then Some HTTP_TRACE
      else if c = CHR ''U'' then Some HTTP_UNLOCK else None)"

definition step_req_start :: "'u http_parser_settings \<Rightarrow> 'u exec \<Rightarrow> 'u outcome" where
  "step_req_start S x = (case st x of
     s_pre_start_req \<Rightarrow>
       (if ch x = CR \<or> ch x = LF then Break x
        else CALLBACK_NOTIFY_NOADVANCE S N_message_begin (x\<lparr>st := s_start_req\<rparr>) Reexecute)
   | s_start_req \<Rightarrow>
       (let x1 = set_no_body x
        in if \<not> IS_ALPHA (ch x) then fail HPE_INVALID_METHOD x1
           else let x2 = upd (\<lambda>ps. ps\<lparr>pmethod := HTTP_DELETE, pindex := 1\<rparr>) x1
                in case method_of_first (ch x) of
                    None \<Rightarrow> fail HPE_INVALID_METHOD x2
                  | Some m \<Rightarrow> Break ((upd (\<lambda>ps. ps\<lparr>pmethod := m\<rparr>) x2)\<lparr>st := s_req_method\<rparr>))
   | _ \<Rightarrow> Fault)"

definition c_string_at :: "byte list \<Rightarrow> nat \<Rightarrow> byte option" where
  "c_string_at s i =
     (if i < length s then Some (s ! i) else if i = length s then Some (CHR 0x00) else None)"
  \<comment> \<open>\<^verbatim>\<open>s[i]\<close> of a C string: the terminating NUL is the last valid index\<close>

definition next_index :: "'u exec \<Rightarrow> 'u exec" where
  "next_index = upd (\<lambda>ps. ps\<lparr>pindex := (pindex ps + 1) mod 2 ^ 8\<rparr>)"

definition with_method :: "http_method \<Rightarrow> 'u exec \<Rightarrow> 'u outcome" where
  "with_method m x = Break (next_index (upd (\<lambda>ps. ps\<lparr>pmethod := m\<rparr>) x))"

definition step_req_method :: "'u exec \<Rightarrow> 'u outcome" where
  "step_req_method x =
     (let c = ch x; m = pmethod (parser x); i = pindex (parser x)
      in if c = CHR 0x00 then fail HPE_INVALID_METHOD x
         else case c_string_at (method_strings m) i of
             None \<Rightarrow> Fault
           | Some w \<Rightarrow>
               (if c = SP \<and> w = CHR 0x00 then Break (next_index (x\<lparr>st := s_req_spaces_before_url\<rparr>))
                else if c = w then Break (next_index x)
                else if m = HTTP_CONNECT then
                  (if i = 1 \<and> c = CHR ''H'' then with_method HTTP_CHECKOUT x
                   else if i = 2 \<and> c = CHR ''P'' then with_method HTTP_COPY x
                   else goto_error x)
                else if m = HTTP_MKCOL then
                  (if i = 1 \<and> c = CHR ''O'' then with_method HTTP_MOVE x
                   else if i = 1 \<and> c = CHR ''E'' then with_method HTTP_MERGE x
                   else if i = 1 \<and> c = CHR ''-'' then with_method HTTP_MSEARCH x
                   else if i = 2 \<and> c = CHR ''A'' then with_method HTTP_MKACTIVITY x
                   else goto_error x)
                else if i = 1 \<and> m = HTTP_POST then
                  (if c = CHR ''R'' then with_method HTTP_PROPFIND x
                   else if c = CHR ''U'' then with_method HTTP_PUT x
                   else if c = CHR ''A'' then with_method HTTP_PATCH x
                   else goto_error x)
                else if i = 2 \<and> m = HTTP_UNLOCK \<and> c = CHR ''S'' then with_method HTTP_UNSUBSCRIBE x
                else if i = 4 \<and> m = HTTP_PROPFIND \<and> c = CHR ''P'' then with_method HTTP_PROPPATCH x
                else fail HPE_INVALID_METHOD x))"

section \<open>The request target\<close>

definition url_done :: "'u http_parser_settings \<Rightarrow> byte list \<Rightarrow> http_state \<Rightarrow> 'u exec \<Rightarrow> 'u outcome" where
  "url_done S data s x = CALLBACK_DATA S data D_url (x\<lparr>st := s\<rparr>) Break"

definition http_0_9 :: "'u exec \<Rightarrow> 'u exec" where
  "http_0_9 = upd (\<lambda>ps. ps\<lparr>http_major := 0, http_minor := 9\<rparr>)"

definition step_url_host :: "'u http_parser_settings \<Rightarrow> byte list \<Rightarrow> 'u exec \<Rightarrow> 'u outcome" where
  "step_url_host S data x = (let c = ch x in case st x of
     s_req_spaces_before_url \<Rightarrow>
       (if c = SP then Break x
        else if pmethod (parser x) = HTTP_CONNECT
        then Reexecute ((MARK D_url x)\<lparr>st := s_req_host_start\<rparr>)
        else if c = CHR ''/'' \<or> c = CHR ''*'' then Break ((MARK D_url x)\<lparr>st := s_req_path\<rparr>)
        else if IS_ALPHA c then Break ((MARK D_url x)\<lparr>st := s_req_schema\<rparr>)
        else fail HPE_INVALID_URL x)
   | s_req_schema \<Rightarrow>
       (if IS_ALPHA c then Break x
        else if c = CHR '':'' then Break (x\<lparr>st := s_req_schema_slash\<rparr>)
        else fail HPE_INVALID_URL x)
   | s_req_schema_slash \<Rightarrow> Break (x\<lparr>st := s_req_schema_slash_slash\<rparr>)
   | s_req_schema_slash_slash \<Rightarrow> Break (x\<lparr>st := s_req_host_start\<rparr>)
   | s_req_host_start \<Rightarrow>
       (if c = CHR ''['' then Break (x\<lparr>st := s_req_host_ipv6\<rparr>)
        else if IS_ALPHANUM c then Break (x\<lparr>st := s_req_host\<rparr>)
        else fail HPE_INVALID_HOST x)
   | s_req_host \<Rightarrow>
       (if IS_HOST_CHAR c then Break x else Reexecute (x\<lparr>st := s_req_host_done\<rparr>))
   | s_req_host_ipv6 \<Rightarrow>
       (if IS_HEX c \<or> c = CHR '':'' then Break x
        else if c = CHR '']'' then Break (x\<lparr>st := s_req_host_done\<rparr>)
        else fail HPE_INVALID_HOST x)
   | s_req_host_done \<Rightarrow>
       (if c = CHR '':'' then Break (x\<lparr>st := s_req_port\<rparr>)
        else if c = CHR ''/'' then Break (x\<lparr>st := s_req_path\<rparr>)
        else if c = SP then url_done S data s_req_http_start x
        else if c = CHR ''?'' then Break (x\<lparr>st := s_req_query_string_start\<rparr>)
        else fail HPE_INVALID_HOST x)
   | s_req_port \<Rightarrow>
       (if IS_NUM c then Break x
        else if c = CHR ''/'' then Break (x\<lparr>st := s_req_path\<rparr>)
        else if c = SP then url_done S data s_req_http_start x
        else if c = CHR ''?'' then Break (x\<lparr>st := s_req_query_string_start\<rparr>)
        else fail HPE_INVALID_PORT x)
   | _ \<Rightarrow> Fault)"

definition step_url_path :: "'u http_parser_settings \<Rightarrow> byte list \<Rightarrow> 'u exec \<Rightarrow> 'u outcome" where
  "step_url_path S data x = (let c = ch x in case st x of
     s_req_path \<Rightarrow>
       (if IS_URL_CHAR c then Break x
        else if c = SP then url_done S data s_req_http_start x
        else if c = CR then url_done S data s_req_line_almost_done (http_0_9 x)
        else if c = LF then url_done S data s_header_field_start (http_0_9 x)
        else if c = CHR ''?'' then Break (x\<lparr>st := s_req_query_string_start\<rparr>)
        else if c = CHR ''#'' then Break (x\<lparr>st := s_req_fragment_start\<rparr>)
        else fail HPE_INVALID_PATH x)
   | s_req_query_string_start \<Rightarrow>
       (if IS_URL_CHAR c then Break (x\<lparr>st := s_req_query_string\<rparr>)
        else if c = CHR ''?'' then Break x
        else if c = SP then url_done S data s_req_http_start x
        else if c = CR then url_done S data s_req_line_almost_done (http_0_9 x)
        else if c = LF then url_done S data s_header_field_start (http_0_9 x)
        else if c = CHR ''#'' then Break (x\<lparr>st := s_req_fragment_start\<rparr>)
        else fail HPE_INVALID_QUERY_STRING x)
   | s_req_query_string \<Rightarrow>
       (if IS_URL_CHAR c then Break x
        else if c = CHR ''?'' then Break x
        else if c = SP then url_done S data s_req_http_start x
        else if c = CR then url_done S data s_req_line_almost_done (http_0_9 x)
        else if c = LF then url_done S data s_header_field_start (http_0_9 x)
        else if c = CHR ''#'' then Break (x\<lparr>st := s_req_fragment_start\<rparr>)
        else fail HPE_INVALID_QUERY_STRING x)
   | _ \<Rightarrow> Fault)"

definition step_url_fragment :: "'u http_parser_settings \<Rightarrow> byte list \<Rightarrow> 'u exec \<Rightarrow> 'u outcome" where
  "step_url_fragment S data x = (let c = ch x in case st x of
     s_req_fragment_start \<Rightarrow>
       (if IS_URL_CHAR c then Break (x\<lparr>st := s_req_fragment\<rparr>)
        else if c = SP then url_done S data s_req_http_start x
        else if c = CR then url_done S data s_req_line_almost_done (http_0_9 x)
        else if c = LF then url_done S data s_header_field_start (http_0_9 x)
        else if c = CHR ''?'' then Break (x\<lparr>st := s_req_fragment\<rparr>)
        else if c = CHR ''#'' then Break x
        else fail HPE_INVALID_FRAGMENT x)
   | s_req_fragment \<Rightarrow>
       (if IS_URL_CHAR c then Break x
        else if c = SP then url_done S data s_req_http_start x
        else if c = CR then url_done S data s_req_line_almost_done (http_0_9 x)
        else if c = LF then url_done S data s_header_field_start (http_0_9 x)
        else if c = CHR ''?'' \<or> c = CHR ''#'' then Break x
        else fail HPE_INVALID_FRAGMENT x)
   | _ \<Rightarrow> Fault)"

section \<open>The version of a request\<close>

definition step_req_http :: "'u exec \<Rightarrow> 'u outcome" where
  "step_req_http x = (case st x of
     s_req_http_start \<Rightarrow>
       (if ch x = CHR ''H'' then Break (x\<lparr>st := s_req_http_H\<rparr>)
        else if ch x = SP then Break x
        else fail HPE_INVALID_CONSTANT x)
   | s_req_http_H \<Rightarrow> Break (x\<lparr>st := s_req_http_HT\<rparr>)
   | s_req_http_HT \<Rightarrow> Break (x\<lparr>st := s_req_http_HTT\<rparr>)
   | s_req_http_HTT \<Rightarrow> Break (x\<lparr>st := s_req_http_HTTP\<rparr>)
   | s_req_http_HTTP \<Rightarrow> Break (x\<lparr>st := s_req_first_http_major\<rparr>)
   | s_req_first_http_major \<Rightarrow> first_major s_req_http_major x
   | s_req_http_major \<Rightarrow> more_major s_req_first_http_minor x
   | s_req_first_http_minor \<Rightarrow> first_minor s_req_http_minor x
   | s_req_http_minor \<Rightarrow>
       (if ch x = CR then Break (x\<lparr>st := s_req_line_almost_done\<rparr>)
        else if ch x = LF then Break (x\<lparr>st := s_header_field_start\<rparr>)
        else more_minor x)
   | s_req_line_almost_done \<Rightarrow>
       (if ch x \<noteq> LF then fail HPE_LF_EXPECTED x else Break (x\<lparr>st := s_header_field_start\<rparr>))
   | _ \<Rightarrow> Fault)"

section \<open>Header fields\<close>

definition set_hs :: "header_states \<Rightarrow> 'u exec \<Rightarrow> 'u exec" where
  "set_hs h = upd (\<lambda>ps. ps\<lparr>header_state := h\<rparr>)"

definition step_header_field_start :: "'u exec \<Rightarrow> 'u outcome" where
  "step_header_field_start x =
     (if ch x = CR then Break (x\<lparr>st := s_headers_almost_done\<rparr>)
      else if ch x = LF then Reexecute (x\<lparr>st := s_headers_almost_done\<rparr>)
      else let c = TOKEN (ch x)
           in if c = 0 then fail HPE_INVALID_HEADER_TOKEN x
              else let x1 = (upd (\<lambda>ps. ps\<lparr>pindex := 0\<rparr>) (MARK D_header_field x))\<lparr>st := s_header_field\<rparr>
                   in Break (set_hs
                       (if c = code_of CHR ''c'' then h_matching_content_length
                        else if c = code_of CHR ''t'' then h_matching_transfer_encoding
                        else if c = code_of CHR ''u'' then h_matching_upgrade
                        else h_general) x1))"

fun move_the_head :: "nat \<Rightarrow> byte list \<Rightarrow> nat \<Rightarrow> (bool \<times> nat) option" where
  "move_the_head 0 data p = Some (False, p)"
| "move_the_head (Suc k) data p =
     (if Suc p < length data
      then if TOKEN (data ! Suc p) = 0 then Some (True, Suc p) else move_the_head k data (Suc p)
      else None)"
  \<comment> \<open>\<open>k\<close> times \<^verbatim>\<open>MOVE_THE_HEAD\<close>: stop at a byte that is not a token character\<close>

definition match_word :: "byte list \<Rightarrow> header_states \<Rightarrow> nat \<Rightarrow> http_parser \<Rightarrow> http_parser" where
  "match_word word found c ps =
     (let i = (pindex ps + 1) mod 2 ^ 8; ps1 = ps\<lparr>pindex := i\<rparr>
      in if i > length word \<or> c \<noteq> (if i < length word then code_of (word ! i) else 0)
         then ps1\<lparr>header_state := h_general\<rparr>
         else if i = length word - 1 then ps1\<lparr>header_state := found\<rparr>
         else ps1)"
  \<comment> \<open>\<^verbatim>\<open>sizeof(WORD)-1\<close> is the length of the word, the index of its terminating NUL\<close>

definition notatoken :: "'u http_parser_settings \<Rightarrow> byte list \<Rightarrow> 'u exec \<Rightarrow> 'u outcome" where
  "notatoken S data x =
     (if ch x = CHR '':'' then
        (case header_field_mark x of
           None \<Rightarrow> Fault
         | Some m \<Rightarrow>
             (let x1 = x\<lparr>st := s_header_value_start\<rparr>
              in if pos x > m + 1 \<and> data ! (pos x - 1) = SP then fail HPE_INVALID_HEADER_TOKEN x1
                 else CALLBACK_DATA S data D_header_field x1 Break))
      else fail HPE_INVALID_HEADER_TOKEN x)"

definition step_header_field :: "'u http_parser_settings \<Rightarrow> byte list \<Rightarrow> 'u exec \<Rightarrow> 'u outcome" where
  "step_header_field S data x =
     (let c = TOKEN (ch x)
      in if c \<noteq> 0 then
           (case header_state (parser x) of
              h_general \<Rightarrow>
                (let left = length data - pos x
                 in case move_the_head (if left \<ge> 9 then 8 else if left \<ge> 4 then 3 else 0) data (pos x) of
                     None \<Rightarrow> Fault
                   | Some (stopped, p) \<Rightarrow>
                       (if stopped then notatoken S data (x\<lparr>pos := p, ch := data ! p\<rparr>)
                        else Break (x\<lparr>pos := p\<rparr>)))
            | h_matching_content_length \<Rightarrow> Break (upd (match_word CONTENT_LENGTH h_content_length c) x)
            | h_matching_transfer_encoding \<Rightarrow>
                Break (upd (match_word TRANSFER_ENCODING h_transfer_encoding c) x)
            | h_matching_upgrade \<Rightarrow> Break (upd (match_word UPGRADE h_upgrade c) x)
            | h_content_length \<Rightarrow> Break (if ch x \<noteq> SP then set_hs h_general x else x)
            | h_transfer_encoding \<Rightarrow> Break (if ch x \<noteq> SP then set_hs h_general x else x)
            | h_upgrade \<Rightarrow> Break (if ch x \<noteq> SP then set_hs h_general x else x)
            | _ \<Rightarrow> Fault)
         else notatoken S data x)"

section \<open>Header values\<close>

definition step_header_value_start :: "'u http_parser_settings \<Rightarrow> byte list \<Rightarrow> 'u exec \<Rightarrow> 'u outcome" where
  "step_header_value_start S data x =
     (let c = ch x; h = header_state (parser x)
      in if c = SP \<or> c = HT then Break x
         else
           let x1 = (upd (\<lambda>ps. ps\<lparr>pindex := 0\<rparr>) (MARK D_header_value x))\<lparr>st := s_header_value\<rparr>;
               x2 = (if c = CR \<or> c = LF then
                       (if h = h_content_length then SET_ERRNO HPE_INVALID_CONTENT_LENGTH x1
                        else if h = h_transfer_encoding then SET_ERRNO HPE_INVALID_TRANSFER_ENCODING x1
                        else if h = h_upgrade then SET_ERRNO HPE_INVALID_UPGRADE x1
                        else x1)
                     else x1)
           in if (c = CR \<or> c = LF) \<and> perrno (parser x2) \<noteq> HPE_OK then goto_error x2
              else if c = CR then
                CALLBACK_DATA S data D_header_value ((set_hs h_general x2)\<lparr>st := s_header_almost_done\<rparr>) Break
              else if c = LF then
                CALLBACK_DATA S data D_header_value (x2\<lparr>st := s_header_field_start\<rparr>) Break
              else (case h of
                  h_upgrade \<Rightarrow>
                    Break (set_hs h_general (upd (\<lambda>ps. ps\<lparr>flags := insert F_UPGRADE (flags ps)\<rparr>) x2))
                | h_transfer_encoding \<Rightarrow>
                    Break (set_hs (if LOWER c = code_of CHR ''c'' then h_matching_transfer_encoding_chunked
                                   else h_general) x2)
                | h_content_length \<Rightarrow>
                    (if \<not> IS_NUM c then fail HPE_INVALID_CONTENT_LENGTH x2
                     else Break (upd (\<lambda>ps. ps\<lparr>content_length := int (digit c)\<rparr>) x2))
                | _ \<Rightarrow> Break (set_hs (if c = QT then h_general_and_quote else h_general) x2)))"

fun move_fast :: "nat \<Rightarrow> byte list \<Rightarrow> nat \<Rightarrow> (bool \<times> nat) option" where
  "move_fast 0 data p = Some (False, p)"
| "move_fast (Suc k) data p =
     (if Suc p < length data
      then let c = data ! Suc p
           in if c = CR \<or> c = LF \<or> c = QT \<or> c = BS \<or> \<not> IS_HEADER_CHAR c then Some (True, Suc p)
              else move_fast k data (Suc p)
      else None)"

definition INT64_MAX :: int where
  "INT64_MAX = 2 ^ 63 - 1"

definition add_digit64 :: "int \<Rightarrow> int \<Rightarrow> int \<Rightarrow> int option" where
  "add_digit64 base n d =
     (if - (2 ^ 63) \<le> n * base \<and> n * base \<le> INT64_MAX \<and> n * base + d \<le> INT64_MAX
      then Some (n * base + d) else None)"
  \<comment> \<open>\<^verbatim>\<open>n *= base; n += d\<close> on a signed 64-bit integer; overflow is undefined\<close>

definition value_switch :: "byte list \<Rightarrow> 'u exec \<Rightarrow> 'u outcome" where
  "value_switch data x =
     (let c = ch x
      in case header_state (parser x) of
          h_general \<Rightarrow>
            (let x1 = (if c = QT then set_hs h_general_and_quote x else x);
                 left = length data - pos x
             in case move_fast (if left \<ge> 12 then 11 else if left \<ge> 5 then 4 else 0) data (pos x) of
                 None \<Rightarrow> Fault
               | Some (stopped, p) \<Rightarrow>
                   (if stopped then Reexecute (x1\<lparr>pos := p, ch := data ! p\<rparr>)
                    else Break (x1\<lparr>pos := p, ch := data ! p\<rparr>)))
        | h_general_and_quote \<Rightarrow>
            Break (if c = QT then set_hs h_general x
                   else if c = BS then set_hs h_general_and_quote_and_escape x else x)
        | h_general_and_quote_and_escape \<Rightarrow> Break (set_hs h_general_and_quote x)
        | h_transfer_encoding \<Rightarrow> fail HPE_INVALID_HEADER_TOKEN x
        | h_content_length \<Rightarrow>
            (if c = SP then Break x
             else if \<not> IS_NUM c then fail HPE_INVALID_CONTENT_LENGTH x
             else if content_length (parser x) > (INT64_MAX - 10) div 10
             then fail HPE_HUGE_CONTENT_LENGTH x
             else case add_digit64 10 (content_length (parser x)) (int (digit c)) of
                 None \<Rightarrow> Fault
               | Some n \<Rightarrow> Break (upd (\<lambda>ps. ps\<lparr>content_length := n\<rparr>) x))
        | h_matching_transfer_encoding_chunked \<Rightarrow>
            Break (upd (match_word CHUNKED h_transfer_encoding_chunked (LOWER c)) x)
        | h_transfer_encoding_chunked \<Rightarrow> Break (if c \<noteq> SP then set_hs h_general x else x)
        | _ \<Rightarrow> Break ((set_hs h_general x)\<lparr>st := s_header_value\<rparr>))"
  \<comment> \<open>\<^verbatim>\<open>goto cr_or_lf_or_qt\<close> stays in the state \<^verbatim>\<open>s_header_value\<close>, so it is a re-execution\<close>

definition step_header_value :: "'u http_parser_settings \<Rightarrow> byte list \<Rightarrow> 'u exec \<Rightarrow> 'u outcome" where
  "step_header_value S data x =
     (let c = ch x; escaped = (header_state (parser x) = h_general_and_quote_and_escape)
      in if c = CR \<and> \<not> escaped then
           CALLBACK_DATA S data D_header_value (x\<lparr>st := s_header_almost_done\<rparr>) Break
         else if c = LF \<and> \<not> escaped then
           CALLBACK_DATA_NOADVANCE S data D_header_value (x\<lparr>st := s_header_almost_done\<rparr>) Reexecute
         else if \<not> IS_HEADER_CHAR c \<and> \<not> escaped then fail HPE_INVALID_HEADER_TOKEN x
         else value_switch data x)"

section \<open>The end of a header line and of the headers\<close>

definition step_header_end :: "'u http_parser_settings \<Rightarrow> 'u exec \<Rightarrow> 'u outcome" where
  "step_header_end S x = (case st x of
     s_header_almost_done \<Rightarrow>
       (let x1 = x\<lparr>st := (if ch x = LF then s_header_value_lws else s_header_value)\<rparr>;
            x2 = (if header_state (parser x) = h_transfer_encoding_chunked
                  then upd (\<lambda>ps. ps\<lparr>flags := insert F_CHUNKED (flags ps)\<rparr>) x1 else x1)
        in if ch x \<noteq> LF then CALLBACK_SPACE S x2 Break else Break x2)
   | s_header_value_lws \<Rightarrow>
       (if ch x = SP \<or> ch x = HT then CALLBACK_SPACE S (x\<lparr>st := s_header_value_start\<rparr>) Break
        else Reexecute (x\<lparr>st := s_header_field_start\<rparr>))
   | _ \<Rightarrow> Fault)"

definition step_headers_almost_done :: "'u http_parser_settings \<Rightarrow> 'u exec \<Rightarrow> 'u outcome" where
  "step_headers_almost_done S x =
     (if ch x \<noteq> LF then fail HPE_STRICT x
      else if F_TRAILING \<in> flags (parser x) then
        CALLBACK_NOTIFY_NOADVANCE S N_chunk_complete (x\<lparr>st := s_message_done\<rparr>) Reexecute
      else
        let x1 = (upd (\<lambda>ps. ps\<lparr>upgrade := (F_UPGRADE \<in> flags ps \<or> pmethod ps = HTTP_CONNECT)\<rparr>) x)
                 \<lparr>st := s_headers_done\<rparr>
        in case on_headers_complete S (parser x1) (pos x + 1) (udata x1) of
            (r, ps, u) \<Rightarrow>
              let x2 = x1\<lparr>parser := ps, udata := u\<rparr>;
                  x3 = (if r = 1 then upd (\<lambda>ps. ps\<lparr>flags := insert F_SKIPBODY (flags ps)\<rparr>) x2 else x2)
              in if r \<noteq> 0 \<and> r \<noteq> 1 then RETURN (pos x) (SET_ERRNO HPE_CB_headers_complete x3)
                 else if perrno (parser x3) \<noteq> HPE_OK then RETURN (pos x) x3
                 else Reexecute x3)"

definition new_message :: "'u http_parser_settings \<Rightarrow> 'u exec \<Rightarrow> ('u exec \<Rightarrow> 'u outcome) \<Rightarrow> 'u outcome" where
  "new_message S x k =
     CALLBACK_NOTIFY S N_message_complete (x\<lparr>st := start_state (parser x)\<rparr>) k"
  \<comment> \<open>\<^verbatim>\<open>state = NEW_MESSAGE(); CALLBACK_NOTIFY(message_complete);\<close>\<close>

definition step_headers_done :: "'u http_parser_settings \<Rightarrow> 'u exec \<Rightarrow> 'u outcome" where
  "step_headers_done S x =
     (let x1 = (upd (\<lambda>ps. ps\<lparr>nread := 0\<rparr>) x)\<lparr>header_data_start := pos x\<rparr>;
          ps = parser x1;
          hasBody = (F_CHUNKED \<in> flags ps \<or> content_length ps > 0)
      in if upgrade ps \<and> (pmethod ps = HTTP_CONNECT \<or> F_SKIPBODY \<in> flags ps \<or> \<not> hasBody)
         then new_message S x1 (\<lambda>x2. RETURN (pos x2 + 1) x2)
         else if F_SKIPBODY \<in> flags ps then new_message S x1 Break
         else if F_CHUNKED \<in> flags ps then Break (x1\<lparr>st := s_chunk_size_start\<rparr>)
         else if content_length ps = 0 then new_message S x1 Break
         else if content_length ps > 0 then Break (x1\<lparr>st := s_body_identity\<rparr>)
         else let sc = status_code ps
              in if ptype ps = HTTP_REQUEST \<or> (100 \<le> sc \<and> sc \<le> 199) \<or> sc = 204 \<or> sc = 304
                 then new_message S x1 Break
                 else Break (x1\<lparr>st := s_body_identity_eof\<rparr>))"

section \<open>Bodies\<close>

definition take_body :: "byte list \<Rightarrow> 'u exec \<Rightarrow> 'u exec" where
  "take_body data x =
     (let to_read = min (nat (content_length (parser x))) (length data - pos x);
          x1 = MARK D_body x
      in (upd (\<lambda>ps. ps\<lparr>content_length := content_length ps - int to_read\<rparr>) x1)
         \<lparr>pos := pos x + to_read - 1\<rparr>)"

definition step_body :: "'u http_parser_settings \<Rightarrow> byte list \<Rightarrow> 'u exec \<Rightarrow> 'u outcome" where
  "step_body S data x = (case st x of
     s_body_identity \<Rightarrow>
       (if \<not> content_length (parser x) > 0 then Fault
        else let x1 = take_body data x
             in if content_length (parser x1) = 0
                then CALLBACK_DATA_ER S data D_body (pos x1 + 1) (pos x1) (x1\<lparr>st := s_message_done\<rparr>) Reexecute
                else Break x1)
   | s_body_identity_eof \<Rightarrow> Break ((MARK D_body x)\<lparr>pos := length data - 1\<rparr>)
   | s_message_done \<Rightarrow>
       new_message S ((upd (\<lambda>ps. ps\<lparr>nread := 0\<rparr>) x)\<lparr>header_data_start := pos x\<rparr>)
         (\<lambda>x1. if upgrade (parser x1) then RETURN (pos x1 + 1) x1 else Break x1)
   | _ \<Rightarrow> Fault)"

definition step_chunk_size :: "'u exec \<Rightarrow> 'u outcome" where
  "step_chunk_size x = (let v = UNHEX (ch x) in
     if F_CHUNKED \<notin> flags (parser x) then Fault
     else case st x of
       s_chunk_size_start \<Rightarrow>
         (if v = -1 then fail HPE_INVALID_CHUNK_SIZE x
          else Break ((upd (\<lambda>ps. ps\<lparr>content_length := v\<rparr>) x)\<lparr>st := s_chunk_size\<rparr>))
     | s_chunk_size \<Rightarrow>
         (if ch x = CR then Break (x\<lparr>st := s_chunk_size_almost_done\<rparr>)
          else if v = -1 then
            (if ch x = CHR '';'' \<or> ch x = SP then Break (x\<lparr>st := s_chunk_parameters\<rparr>)
             else fail HPE_INVALID_CHUNK_SIZE x)
          else if content_length (parser x) > (INT64_MAX - v) div 16 then fail HPE_HUGE_CHUNK_SIZE x
          else case add_digit64 16 (content_length (parser x)) v of
              None \<Rightarrow> Fault
            | Some n \<Rightarrow> Break (upd (\<lambda>ps. ps\<lparr>content_length := n\<rparr>) x))
     | s_chunk_parameters \<Rightarrow>
         Break (if ch x = CR then x\<lparr>st := s_chunk_size_almost_done\<rparr> else x)
     | _ \<Rightarrow> Fault)"

definition step_chunk_data :: "'u http_parser_settings \<Rightarrow> byte list \<Rightarrow> 'u exec \<Rightarrow> 'u outcome" where
  "step_chunk_data S data x =
     (if F_CHUNKED \<notin> flags (parser x) then Fault
      else case st x of
        s_chunk_size_almost_done \<Rightarrow>
          (if content_length (parser x) = 0
           then CALLBACK_NOTIFY S N_chunk_header
                  ((upd (\<lambda>ps. ps\<lparr>flags := insert F_TRAILING (flags ps)\<rparr>) x)\<lparr>st := s_header_field_start\<rparr>) Break
           else CALLBACK_NOTIFY S N_chunk_header (x\<lparr>st := s_chunk_data\<rparr>) Break)
      | s_chunk_data \<Rightarrow>
          (if \<not> content_length (parser x) > 0 then Fault
           else let x1 = take_body data x
                in Break (if content_length (parser x1) = 0 then x1\<lparr>st := s_chunk_data_almost_done\<rparr> else x1))
      | s_chunk_data_almost_done \<Rightarrow>
          (if content_length (parser x) \<noteq> 0 then Fault
           else CALLBACK_DATA S data D_body (x\<lparr>st := s_chunk_data_done\<rparr>) Break)
      | s_chunk_data_done \<Rightarrow>
          CALLBACK_NOTIFY S N_chunk_complete
            ((upd (\<lambda>ps. ps\<lparr>nread := 0\<rparr>) x)\<lparr>st := s_chunk_size_start, header_data_start := pos x\<rparr>) Break
      | _ \<Rightarrow> Fault)"

section \<open>One byte\<close>

definition exec_byte :: "'u http_parser_settings \<Rightarrow> byte list \<Rightarrow> 'u exec \<Rightarrow> 'u outcome" where
  "exec_byte S data x = (case st x of
     s_pre_start_req_or_res \<Rightarrow> step_start S x
   | s_start_req_or_res \<Rightarrow> step_start S x
   | s_res_or_resp_H \<Rightarrow> step_start S x
   | s_pre_start_res \<Rightarrow> step_start S x
   | s_start_res \<Rightarrow> step_start S x
   | s_res_H \<Rightarrow> step_res_version x
   | s_res_HT \<Rightarrow> step_res_version x
   | s_res_HTT \<Rightarrow> step_res_version x
   | s_res_HTTP \<Rightarrow> step_res_version x
   | s_res_first_http_major \<Rightarrow> step_res_version x
   | s_res_http_major \<Rightarrow> step_res_version x
   | s_res_first_http_minor \<Rightarrow> step_res_version x
   | s_res_http_minor \<Rightarrow> step_res_version x
   | s_res_first_status_code \<Rightarrow> step_res_status S data x
   | s_res_status_code \<Rightarrow> step_res_status S data x
   | s_res_status \<Rightarrow> step_res_status S data x
   | s_res_line_almost_done \<Rightarrow> step_res_status S data x
   | s_pre_start_req \<Rightarrow> step_req_start S x
   | s_start_req \<Rightarrow> step_req_start S x
   | s_req_method \<Rightarrow> step_req_method x
   | s_req_spaces_before_url \<Rightarrow> step_url_host S data x
   | s_req_schema \<Rightarrow> step_url_host S data x
   | s_req_schema_slash \<Rightarrow> step_url_host S data x
   | s_req_schema_slash_slash \<Rightarrow> step_url_host S data x
   | s_req_host_start \<Rightarrow> step_url_host S data x
   | s_req_host \<Rightarrow> step_url_host S data x
   | s_req_host_ipv6 \<Rightarrow> step_url_host S data x
   | s_req_host_done \<Rightarrow> step_url_host S data x
   | s_req_port \<Rightarrow> step_url_host S data x
   | s_req_path \<Rightarrow> step_url_path S data x
   | s_req_query_string_start \<Rightarrow> step_url_path S data x
   | s_req_query_string \<Rightarrow> step_url_path S data x
   | s_req_fragment_start \<Rightarrow> step_url_fragment S data x
   | s_req_fragment \<Rightarrow> step_url_fragment S data x
   | s_req_http_start \<Rightarrow> step_req_http x
   | s_req_http_H \<Rightarrow> step_req_http x
   | s_req_http_HT \<Rightarrow> step_req_http x
   | s_req_http_HTT \<Rightarrow> step_req_http x
   | s_req_http_HTTP \<Rightarrow> step_req_http x
   | s_req_first_http_major \<Rightarrow> step_req_http x
   | s_req_http_major \<Rightarrow> step_req_http x
   | s_req_first_http_minor \<Rightarrow> step_req_http x
   | s_req_http_minor \<Rightarrow> step_req_http x
   | s_req_line_almost_done \<Rightarrow> step_req_http x
   | s_header_field_start \<Rightarrow> step_header_field_start x
   | s_header_field \<Rightarrow> step_header_field S data x
   | s_header_value_start \<Rightarrow> step_header_value_start S data x
   | s_header_value \<Rightarrow> step_header_value S data x
   | s_header_almost_done \<Rightarrow> step_header_end S x
   | s_header_value_lws \<Rightarrow> step_header_end S x
   | s_headers_almost_done \<Rightarrow> step_headers_almost_done S x
   | s_headers_done \<Rightarrow> step_headers_done S x
   | s_body_identity \<Rightarrow> step_body S data x
   | s_body_identity_eof \<Rightarrow> step_body S data x
   | s_message_done \<Rightarrow> step_body S data x
   | s_chunk_size_start \<Rightarrow> step_chunk_size x
   | s_chunk_size \<Rightarrow> step_chunk_size x
   | s_chunk_parameters \<Rightarrow> step_chunk_size x
   | s_chunk_size_almost_done \<Rightarrow> step_chunk_data S data x
   | s_chunk_data \<Rightarrow> step_chunk_data S data x
   | s_chunk_data_almost_done \<Rightarrow> step_chunk_data S data x
   | s_chunk_data_done \<Rightarrow> step_chunk_data S data x
   | _ \<Rightarrow> Fault)"
  \<comment> \<open>the other states are never entered by the machine: \<^verbatim>\<open>assert(0 && "unhandled state")\<close>\<close>

section \<open>Termination of the loop\<close>

text \<open>
  Statements about an outcome are given by what they ask of each way to end: \<^const>\<open>Break\<close>,
  \<^const>\<open>Reexecute\<close>, \<^const>\<open>Return\<close>, and whether a \<^const>\<open>Fault\<close> is allowed.
\<close>

primrec ends :: "('u exec \<Rightarrow> bool) \<Rightarrow> ('u exec \<Rightarrow> bool) \<Rightarrow> (nat \<Rightarrow> 'u exec \<Rightarrow> bool) \<Rightarrow> bool \<Rightarrow>
    'u outcome \<Rightarrow> bool" where
  "ends B R E f (Break x) = B x"
| "ends B R E f (Reexecute x) = R x"
| "ends B R E f (Return n x) = E n x"
| "ends B R E f Fault = f"

definition rank :: "http_state \<Rightarrow> nat" where
  "rank s = (case s of
     s_header_value \<Rightarrow> 5 | s_header_value_lws \<Rightarrow> 4 | s_header_field_start \<Rightarrow> 3
   | s_pre_start_req_or_res \<Rightarrow> 3 | s_pre_start_res \<Rightarrow> 3 | s_pre_start_req \<Rightarrow> 3
   | s_req_spaces_before_url \<Rightarrow> 3 | s_req_host \<Rightarrow> 3 | s_body_identity \<Rightarrow> 3
   | s_headers_almost_done \<Rightarrow> 2 | s_start_req_or_res \<Rightarrow> 2 | s_start_req \<Rightarrow> 1 | _ \<Rightarrow> 0)"
  \<comment> \<open>decreases with every \<^verbatim>\<open>goto reexecute_byte\<close> that stays at the same byte\<close>

definition progress :: "byte list \<Rightarrow> 'u exec \<Rightarrow> 'u outcome \<Rightarrow> bool" where
  "progress data x =
     ends (\<lambda>y. pos y + 1 < length data \<longrightarrow> pos x \<le> pos y)
          (\<lambda>y. (pos y = pos x \<and> rank (st y) < rank (st x) \<or> pos x < pos y \<and> pos y < length data)
               \<and> st y \<noteq> s_header_field \<and> (st y = s_header_value \<longrightarrow> ch y = data ! pos y))
          (\<lambda>n _. pos x \<le> n) True"

lemma pos_upd [simp]: "pos (upd f x) = pos x" "st (upd f x) = st x" "ch (upd f x) = ch x"
  by (simp_all add: upd_def)

lemma pos_set_mark [simp]: "pos (set_mark ev m x) = pos x" "st (set_mark ev m x) = st x"
    "ch (set_mark ev m x) = ch x"
  by (cases ev; simp)+

lemma pos_MARK [simp]: "pos (MARK ev x) = pos x" "st (MARK ev x) = st x" "ch (MARK ev x) = ch x"
  by (simp_all add: MARK_def)

lemma progress_simps [simp]:
  "progress data x (Break y) \<longleftrightarrow> (pos y + 1 < length data \<longrightarrow> pos x \<le> pos y)"
  "progress data x (Reexecute y) \<longleftrightarrow> (pos y = pos x \<and> rank (st y) < rank (st x)
     \<or> pos x < pos y \<and> pos y < length data)
     \<and> st y \<noteq> s_header_field \<and> (st y = s_header_value \<longrightarrow> ch y = data ! pos y)"
  "progress data x (RETURN n y) \<longleftrightarrow> pos x \<le> n" "progress data x (Return n y) \<longleftrightarrow> pos x \<le> n"
  "progress data x Fault"
  "progress data x (goto_error y) \<longleftrightarrow> pos x \<le> pos y" "progress data x (fail e y) \<longleftrightarrow> pos x \<le> pos y"
  by (simp_all add: progress_def RETURN_def goto_error_def fail_def SET_ERRNO_def)

lemma progress_after:
  "(\<And>z. pos z = pos y \<Longrightarrow> st z = st y \<Longrightarrow> progress data x (k z)) \<Longrightarrow>
     pos x \<le> er \<Longrightarrow> progress data x (after_callback e er res y k)"
  by (simp add: after_callback_def Let_def split: prod.splits)

lemma progress_callback:
  assumes "\<And>z. pos z = pos y \<Longrightarrow> st z = st y \<Longrightarrow> progress data x (k z)"
  shows "pos x \<le> er \<Longrightarrow> progress data x (CALLBACK_NOTIFY_ER S ev er y k)"
    and "pos x \<le> er \<Longrightarrow> progress data x (CALLBACK_DATA_ER S data dev stop er y k)"
    and "pos x \<le> pos y \<Longrightarrow> progress data x (CALLBACK_SPACE S y k)"
  using assms
  by (auto simp: CALLBACK_NOTIFY_ER_def CALLBACK_DATA_ER_def CALLBACK_SPACE_def Let_def
      intro!: progress_after split: option.split)

lemmas callback_defs = CALLBACK_NOTIFY_def CALLBACK_NOTIFY_NOADVANCE_def CALLBACK_DATA_def
  CALLBACK_DATA_NOADVANCE_def new_message_def url_done_def


lemma progress_if: "progress data x r \<Longrightarrow> progress data x q \<Longrightarrow> progress data x (if b then r else q)"
  by simp

lemma progress_start: "progress data x (step_start S x)"
  by (cases "st x")
    (auto simp: step_start_def set_no_body_def rank_def Let_def callback_defs intro!: progress_callback)

lemma progress_version:
  "progress data x (first_major s x)" "progress data x (more_major s x)"
  "progress data x (first_minor s x)" "progress data x (more_minor x)"
  by (simp_all add: first_major_def more_major_def first_minor_def more_minor_def Let_def)

lemma progress_res: "progress data x (step_res_version x)" "progress data x (step_res_status S data x)"
  by (cases "st x"; simp add: step_res_version_def progress_version)
    (cases "st x"; auto simp: step_res_status_def Let_def callback_defs intro!: progress_callback)

lemma progress_req: "progress data x (step_req_start S x)" "progress data x (step_req_method x)"
proof -
  show "progress data x (step_req_start S x)"
    by (cases "st x")
      (auto simp: step_req_start_def Let_def rank_def set_no_body_def callback_defs
        intro!: progress_callback split: option.split)
  show "progress data x (step_req_method x)"
    unfolding step_req_method_def Let_def with_method_def
    by (cases "c_string_at (method_strings (pmethod (parser x))) (pindex (parser x))")
      (simp_all only: option.case, (intro progress_if; simp add: next_index_def)+)
qed

lemma progress_url: "progress data x (step_url_host S data x)" "progress data x (step_url_path S data x)"
    "progress data x (step_url_fragment S data x)" "progress data x (step_req_http x)"
proof -
  show "progress data x (step_url_host S data x)"
    by (cases "st x"; auto simp: step_url_host_def Let_def rank_def callback_defs intro!: progress_callback)
  show "progress data x (step_url_path S data x)"
    by (cases "st x"; auto simp: step_url_path_def Let_def http_0_9_def callback_defs intro!: progress_callback)
  show "progress data x (step_url_fragment S data x)"
    by (cases "st x"; auto simp: step_url_fragment_def Let_def http_0_9_def callback_defs intro!: progress_callback)
  show "progress data x (step_req_http x)"
    by (cases "st x"; simp add: step_req_http_def progress_version)
qed

lemma move_the_head_pos:
  "move_the_head k data p = Some (b, q) \<Longrightarrow> p \<le> q \<and> (b \<longrightarrow> p < q \<and> q < length data)"
  by (induction k data p rule: move_the_head.induct) (auto split: if_splits)

lemma move_fast_pos:
  "move_fast k data p = Some (b, q) \<Longrightarrow> p \<le> q \<and> (b \<longrightarrow> p < q \<and> q < length data)"
  by (induction k data p rule: move_fast.induct) (auto simp: Let_def split: if_splits)

lemma move_the_head_some:
  "p + k < length data \<Longrightarrow> \<exists>b q. move_the_head k data p = Some (b, q) \<and> p \<le> q \<and> q < length data"
proof (induction k arbitrary: p)
  case (Suc k)
  then obtain b q where "move_the_head k data (Suc p) = Some (b, q)" "Suc p \<le> q" "q < length data"
    by force
  with Suc.prems show ?case by (cases "TOKEN (data ! Suc p) = 0") auto
qed auto

lemma move_fast_some:
  "p + k < length data \<Longrightarrow> \<exists>b q. move_fast k data p = Some (b, q) \<and> p \<le> q \<and> q < length data"
proof (induction k arbitrary: p)
  case (Suc k)
  then obtain b q where "move_fast k data (Suc p) = Some (b, q)" "Suc p \<le> q" "q < length data"
    by force
  with Suc.prems show ?case by (auto simp: Let_def)
qed auto

lemma progress_notatoken:
  "pos x \<le> pos y \<Longrightarrow> progress data x (notatoken S data y)"
  by (auto simp: notatoken_def Let_def callback_defs intro!: progress_callback split: option.split)

lemma progress_header_field:
  "progress data x (step_header_field_start x)" if "st x = s_header_field_start"
  using that by (simp add: step_header_field_start_def Let_def rank_def set_hs_def)

lemma progress_header_field': "progress data x (step_header_field S data x)"
  by (cases "header_state (parser x)")
    (auto simp: step_header_field_def Let_def set_hs_def split: option.split
      intro!: progress_notatoken dest: move_the_head_pos)

lemma progress_header_value_start: "progress data x (step_header_value_start S data x)"
  unfolding step_header_value_start_def Let_def
  by (cases "header_state (parser x)"; simp only: header_states.case; intro progress_if)
    (auto simp: callback_defs set_hs_def SET_ERRNO_def intro!: progress_callback)

lemma progress_value_switch: "progress data x (value_switch data x)" if "st x = s_header_value"
  using that unfolding value_switch_def Let_def
  by (cases "header_state (parser x)"; simp only: header_states.case)
    (auto simp: set_hs_def dest: move_fast_pos split: option.split)

lemma progress_header_value: "progress data x (step_header_value S data x)" if "st x = s_header_value"
  using that unfolding step_header_value_def Let_def
  by (auto simp: callback_defs rank_def intro!: progress_callback progress_value_switch)

lemma progress_header_end: "progress data x (step_header_end S x)"
  by (cases "st x") (auto simp: step_header_end_def Let_def rank_def intro!: progress_callback)

lemma progress_headers_almost_done:
  "st x = s_headers_almost_done \<Longrightarrow> progress data x (step_headers_almost_done S x)"
  by (auto simp: step_headers_almost_done_def Let_def callback_defs rank_def
      intro!: progress_callback split: prod.split)

lemma progress_headers_done: "progress data x (step_headers_done S x)"
  by (auto simp: step_headers_done_def Let_def callback_defs intro!: progress_callback)

lemma pos_take_body: "pos (take_body data x) = pos x
    + min (nat (content_length (parser x))) (length data - pos x) - 1"
    "st (take_body data x) = st x"
  by (simp_all add: take_body_def Let_def)

lemma content_length_MARK [simp]: "parser (MARK ev x) = parser x"
  by (cases ev) (simp_all add: MARK_def)

lemma content_length_take_body:
  "content_length (parser (take_body data x)) =
     content_length (parser x) - int (min (nat (content_length (parser x))) (length data - pos x))"
  by (simp add: take_body_def Let_def upd_def)

lemma take_body_complete:
  assumes "content_length (parser (take_body data x)) = 0" and "0 < content_length (parser x)"
  shows "pos x \<le> pos (take_body data x)" and "pos (take_body data x) < length data"
  using assms by (auto simp: content_length_take_body pos_take_body min_def split: if_splits)

lemma progress_body: "progress data x (step_body S data x)"
proof (cases "st x = s_body_identity")
  case True
  then show ?thesis
    using take_body_complete [of data x]
    by (auto simp: step_body_def Let_def rank_def pos_take_body(2) intro!: progress_callback)
      (simp_all add: pos_take_body)
next
  case False
  then show ?thesis
    by (cases "st x") (auto simp: step_body_def Let_def callback_defs intro!: progress_callback)
qed

lemma progress_chunk: "progress data x (step_chunk_size x)" "progress data x (step_chunk_data S data x)"
  by (cases "st x"; simp add: step_chunk_size_def Let_def split: option.split)
    (cases "st x"; auto simp: step_chunk_data_def Let_def callback_defs pos_take_body intro!: progress_callback)

lemma exec_byte_progress: "progress data x (exec_byte S data x)"
  by (cases "st x")
    (simp_all add: exec_byte_def progress_start progress_res progress_req progress_url
      progress_header_field progress_header_field' progress_header_value_start progress_header_value
      progress_header_end progress_headers_almost_done progress_headers_done progress_body progress_chunk)

section \<open>The loop and the function\<close>

definition marks_set :: "'u exec \<Rightarrow> nat" where
  "marks_set x = length (filter (\<lambda>m. m \<noteq> None)
     [header_field_mark x, header_value_mark x, url_mark x, reason_mark x, body_mark x])"

definition finish :: "'u http_parser_settings \<Rightarrow> byte list \<Rightarrow> 'u exec \<Rightarrow> 'u outcome" where
  "finish S data x =
     (let x1 = (if PARSING_HEADER (st x)
                then upd (\<lambda>ps. ps\<lparr>nread := (nread ps + (pos x - header_data_start x)) mod 2 ^ 32\<rparr>) x else x)
      in if PARSING_HEADER (st x) \<and> nread (parser x1) > HTTP_MAX_HEADER_SIZE
         then fail HPE_HEADER_OVERFLOW x1
         else if marks_set x1 > 1 then Fault
         else CALLBACK_DATA_NOADVANCE S data D_header_field x1 (\<lambda>x2.
              CALLBACK_DATA_NOADVANCE S data D_header_value x2 (\<lambda>x3.
              CALLBACK_DATA_NOADVANCE S data D_url x3 (\<lambda>x4.
              CALLBACK_DATA_NOADVANCE S data D_reason x4 (\<lambda>x5.
              CALLBACK_DATA_NOADVANCE S data D_body x5 (\<lambda>x6.
              RETURN (length data) x6))))))"

function run :: "'u http_parser_settings \<Rightarrow> byte list \<Rightarrow> 'u exec \<Rightarrow> 'u outcome" where
  "run S data x =
     (case exec_byte S data x of
        Break y \<Rightarrow>
          (let p = pos y + 1
           in if p = length data then finish S data (y\<lparr>pos := p\<rparr>)
              else if p < length data then run S data (y\<lparr>pos := p, ch := data ! p\<rparr>)
              else Fault)
      | Reexecute y \<Rightarrow> run S data y
      | r \<Rightarrow> r)"
  by pat_completeness auto
termination
proof (relation "measures [\<lambda>(S, data, x). length data - pos x, \<lambda>(S, data, x). rank (st x)]")
  show "wf (measures [\<lambda>(S, data, x). length data - pos x, \<lambda>(S, data, x). rank (st x)])" by simp
next
  fix S :: "'u http_parser_settings" and data and x y :: "'u exec" and p
  assume "exec_byte S data x = Break y" "p = pos y + 1" "p < length data"
  then show "((S, data, y\<lparr>pos := p, ch := data ! p\<rparr>), S, data, x)
      \<in> measures [\<lambda>(S, data, x). length data - pos x, \<lambda>(S, data, x). rank (st x)]"
    using exec_byte_progress [of data x S] by (simp add: diff_less_mono2)
next
  fix S :: "'u http_parser_settings" and data and x y :: "'u exec"
  assume "exec_byte S data x = Reexecute y"
  then show "((S, data, y), S, data, x)
      \<in> measures [\<lambda>(S, data, x). length data - pos x, \<lambda>(S, data, x). rank (st x)]"
    using exec_byte_progress [of data x S] by (auto simp: diff_less_mono2)
qed

declare run.simps [simp del]

definition initial_exec :: "byte list \<Rightarrow> http_parser \<Rightarrow> 'u \<Rightarrow> 'u exec" where
  "initial_exec data ps u =
     \<lparr>parser = ps, st = pstate ps, pos = 0, ch = (if data = [] then CHR 0x00 else data ! 0),
      header_field_mark = (if pstate ps = s_header_field then Some 0 else None),
      header_value_mark = (if pstate ps = s_header_value then Some 0 else None),
      url_mark = (if pstate ps \<in> set [s_req_path, s_req_schema, s_req_schema_slash,
          s_req_schema_slash_slash, s_req_port, s_req_query_string_start, s_req_query_string,
          s_req_host_start, s_req_host, s_req_host_ipv6, s_req_host_done,
          s_req_fragment_start, s_req_fragment] then Some 0 else None),
      reason_mark = (if pstate ps = s_res_status then Some 0 else None),
      body_mark = None, header_data_start = 0, udata = u\<rparr>"

definition at_eof :: "'u http_parser_settings \<Rightarrow> 'u exec \<Rightarrow> 'u outcome" where
  "at_eof S x =
     (if st x = s_body_identity_eof
      then CALLBACK_NOTIFY_NOADVANCE S N_message_complete x (RETURN 0)
      else if st x = s_pre_start_req_or_res \<or> st x = s_pre_start_res \<or> st x = s_pre_start_req
      then RETURN 0 x
      else RETURN 1 (SET_ERRNO HPE_INVALID_EOF_STATE x))"

definition result_of :: "'u outcome \<Rightarrow> (nat \<times> http_parser \<times> 'u) option" where
  "result_of r = (case r of Return n x \<Rightarrow> Some (n, parser x, udata x) | _ \<Rightarrow> None)"

definition http_parser_execute :: "'u http_parser_settings \<Rightarrow> byte list \<Rightarrow> http_parser \<Rightarrow> 'u \<Rightarrow>
    (nat \<times> http_parser \<times> 'u) option" where
  "http_parser_execute S data ps u =
     (let x = initial_exec data ps u
      in result_of
          (if perrno ps \<noteq> HPE_OK then RETURN 0 x
           else if data = [] then at_eof S x
           else run S data x))"
  \<comment> \<open>the number of bytes parsed, the parser and the user's object; \<open>None\<close> is a fault\<close>

section \<open>The number of bytes reported\<close>

definition returns_at :: "nat \<Rightarrow> 'u outcome \<Rightarrow> bool" where
  "returns_at p = ends (\<lambda>_. False) (\<lambda>_. False) (\<lambda>n _. n = p) True"

lemma returns_at_DATA:
  assumes "pos y = p" and "\<And>z. pos z = p \<Longrightarrow> returns_at p (k z)"
  shows "returns_at p (CALLBACK_DATA_NOADVANCE S data ev y k)"
  using assms
  by (auto simp: CALLBACK_DATA_NOADVANCE_def CALLBACK_DATA_ER_def after_callback_def Let_def
      returns_at_def split: option.splits prod.splits)

lemma finish_returns_at: "pos x = length data \<Longrightarrow> returns_at (length data) (finish S data x)"
  unfolding finish_def Let_def
  by (auto intro!: returns_at_DATA)
    (simp_all add: returns_at_def fail_def goto_error_def RETURN_def SET_ERRNO_def)

lemma run_returns_from: "run S data x = Return n y \<Longrightarrow> pos x \<le> n \<or> length data \<le> n"
proof (induction S data x rule: run.induct)
  case (1 S data x)
  note p = exec_byte_progress [of data x S]
  show ?case
  proof (cases "exec_byte S data x")
    case (Break z)
    consider "pos z + 1 = length data" | "pos z + 1 < length data" | "length data < pos z + 1" by linarith
    then show ?thesis
    proof cases
      case 1
      have "returns_at (length data) (finish S data (z\<lparr>pos := length data\<rparr>))"
        by (simp add: finish_returns_at)
      moreover have "finish S data (z\<lparr>pos := length data\<rparr>) = Return n y"
        using "1.prems" Break 1 by (subst (asm) run.simps) (simp add: Let_def)
      ultimately show ?thesis by (simp add: returns_at_def)
    next
      case 2
      have "pos (z\<lparr>pos := pos z + 1, ch := data ! (pos z + 1)\<rparr>) \<le> n \<or> length data \<le> n"
        using "1.prems" Break 2 by (intro "1.IH"(1) [OF Break refl]) (simp_all add: run.simps [of S data x] Let_def)
      then show ?thesis using p Break 2 by auto
    next
      case 3
      then show ?thesis using "1.prems" Break by (subst (asm) run.simps) (simp add: Let_def)
    qed
  next
    case (Reexecute z)
    then have "pos z \<le> n \<or> length data \<le> n"
      using "1.prems" by (intro "1.IH"(2)) (simp_all add: run.simps [of S data x])
    then show ?thesis using p Reexecute by auto
  qed (use "1.prems" p in \<open>simp_all add: run.simps [of S data x]\<close>)
qed

end
