(* ===== verification/HttpFast.thy ===== *)
theory HttpFast
  imports HttpParser
begin

text \<open>
  The two fast-forward loops of the HTTP parser (\<^verbatim>\<open>MOVE_THE_HEAD\<close> over header names, \<^verbatim>\<open>MOVE_FAST\<close> over
  header values) against a reference machine that takes one byte at a time: both give the same
  result on every input and for all callbacks.
\<close>

section \<open>The machine without fast-forwarding\<close>

definition plain_value_byte :: "byte \<Rightarrow> bool" where
  "plain_value_byte c \<longleftrightarrow> c \<noteq> CR \<and> c \<noteq> LF \<and> IS_HEADER_CHAR c"

definition slow_byte :: "'u http_parser_settings \<Rightarrow> byte list \<Rightarrow> 'u exec \<Rightarrow> 'u outcome" where
  "slow_byte S data x =
     (if st x = s_header_field \<and> header_state (parser x) = h_general \<and> TOKEN (ch x) \<noteq> 0 then Break x
      else if st x = s_header_value \<and> header_state (parser x) = h_general \<and> plain_value_byte (ch x)
      then Break (if ch x = QT then set_hs h_general_and_quote x else x)
      else exec_byte S data x)"

lemma slow_byte_progress: "progress data x (slow_byte S data x)"
  by (simp add: slow_byte_def exec_byte_progress set_hs_def)

function slow_run :: "'u http_parser_settings \<Rightarrow> byte list \<Rightarrow> 'u exec \<Rightarrow> 'u outcome" where
  "slow_run S data x =
     (case slow_byte S data x of
        Break y \<Rightarrow>
          (let p = pos y + 1
           in if p = length data then finish S data (y\<lparr>pos := p\<rparr>)
              else if p < length data then slow_run S data (y\<lparr>pos := p, ch := data ! p\<rparr>)
              else Fault)
      | Reexecute y \<Rightarrow> slow_run S data y
      | r \<Rightarrow> r)"
  by pat_completeness auto
termination
proof (relation "measures [\<lambda>(S, data, x). length data - pos x, \<lambda>(S, data, x). rank (st x)]")
  show "wf (measures [\<lambda>(S, data, x). length data - pos x, \<lambda>(S, data, x). rank (st x)])" by simp
next
  fix S :: "'u http_parser_settings" and data and x y :: "'u exec" and p
  assume "slow_byte S data x = Break y" "p = pos y + 1" "p < length data"
  then show "((S, data, y\<lparr>pos := p, ch := data ! p\<rparr>), S, data, x)
      \<in> measures [\<lambda>(S, data, x). length data - pos x, \<lambda>(S, data, x). rank (st x)]"
    using slow_byte_progress [of data x S] by (simp add: diff_less_mono2)
next
  fix S :: "'u http_parser_settings" and data and x y :: "'u exec"
  assume "slow_byte S data x = Reexecute y"
  then show "((S, data, y), S, data, x)
      \<in> measures [\<lambda>(S, data, x). length data - pos x, \<lambda>(S, data, x). rank (st x)]"
    using slow_byte_progress [of data x S] by (auto simp: diff_less_mono2)
qed

declare slow_run.simps [simp del]

definition continue :: "('u exec \<Rightarrow> 'u outcome) \<Rightarrow> 'u http_parser_settings \<Rightarrow> byte list \<Rightarrow> 'u outcome \<Rightarrow> 'u outcome" where
  "continue loop S data r =
     (case r of
        Break y \<Rightarrow>
          (if pos y + 1 = length data then finish S data (y\<lparr>pos := pos y + 1\<rparr>)
           else if pos y + 1 < length data then loop (y\<lparr>pos := pos y + 1, ch := data ! (pos y + 1)\<rparr>)
           else Fault)
      | Reexecute y \<Rightarrow> loop y
      | r \<Rightarrow> r)"
  \<comment> \<open>what the loop does after one byte\<close>

lemma run_continue: "run S data x = continue (run S data) S data (exec_byte S data x)"
  by (subst run.simps) (simp add: continue_def Let_def split: outcome.split)

lemma slow_run_continue: "slow_run S data x = continue (slow_run S data) S data (slow_byte S data x)"
  by (subst slow_run.simps) (simp add: continue_def Let_def split: outcome.split)

section \<open>Skipping bytes one at a time\<close>

lemma slow_step_token:
  assumes "st x = s_header_field" "header_state (parser x) = h_general" "TOKEN (ch x) \<noteq> 0"
    and "Suc (pos x) < length data"
  shows "slow_run S data x = slow_run S data (x\<lparr>pos := Suc (pos x), ch := data ! Suc (pos x)\<rparr>)"
  using assms by (subst slow_run_continue) (simp add: slow_byte_def continue_def)

lemma slow_skip_token:
  assumes "st x = s_header_field" "header_state (parser x) = h_general" "TOKEN (ch x) \<noteq> 0"
    and "ch x = data ! pos x" "move_the_head k data (pos x) = Some (b, q)"
  shows "slow_run S data x = slow_run S data (x\<lparr>pos := q, ch := data ! q\<rparr>) \<and> (b \<longleftrightarrow> TOKEN (data ! q) = 0)"
  using assms
proof (induction k arbitrary: x)
  case 0
  then have same: "x\<lparr>pos := q, ch := data ! q\<rparr> = x" by simp
  from 0 show ?case by (simp only: same) auto
next
  case (Suc k)
  let ?y = "x\<lparr>pos := Suc (pos x), ch := data ! Suc (pos x)\<rparr>"
  have len: "Suc (pos x) < length data" using Suc.prems(5) by (simp split: if_splits)
  note step = slow_step_token [OF Suc.prems(1-3) len, of S]
  show ?case
  proof (cases "TOKEN (data ! Suc (pos x)) = 0")
    case True
    with Suc.prems(5) len have "b" "q = Suc (pos x)" by simp_all
    with step True show ?thesis by simp
  next
    case False
    with Suc.prems(5) len have "move_the_head k data (Suc (pos x)) = Some (b, q)" by simp
    with Suc.IH [of ?y] Suc.prems(1,2) False step show ?thesis by simp
  qed
qed

lemma slow_step_value:
  assumes "st x = s_header_value" "header_state (parser x) \<in> {h_general, h_general_and_quote}"
    and "plain_value_byte (ch x)" "ch x \<noteq> QT" "ch x \<noteq> BS"
    and "Suc (pos x) < length data"
  shows "slow_run S data x = slow_run S data (x\<lparr>pos := Suc (pos x), ch := data ! Suc (pos x)\<rparr>)"
  using assms
  by (subst slow_run_continue)
    (auto simp: slow_byte_def continue_def exec_byte_def step_header_value_def Let_def value_switch_def
      plain_value_byte_def)

lemma slow_skip_value:
  assumes "st x = s_header_value" "header_state (parser x) \<in> {h_general, h_general_and_quote}"
    and "plain_value_byte (ch x)" "ch x \<noteq> QT" "ch x \<noteq> BS"
    and "ch x = data ! pos x" "move_fast k data (pos x) = Some (b, q)"
  shows "slow_run S data x = slow_run S data (x\<lparr>pos := q, ch := data ! q\<rparr>)
    \<and> (\<not> b \<longrightarrow> plain_value_byte (data ! q) \<and> data ! q \<noteq> QT \<and> data ! q \<noteq> BS)"
  using assms
proof (induction k arbitrary: x)
  case 0
  then have same: "x\<lparr>pos := q, ch := data ! q\<rparr> = x" by simp
  from 0 show ?case by (simp only: same) auto
next
  case (Suc k)
  let ?c = "data ! Suc (pos x)"
  let ?y = "x\<lparr>pos := Suc (pos x), ch := ?c\<rparr>"
  have len: "Suc (pos x) < length data" using Suc.prems(7) by (simp split: if_splits)
  note step = slow_step_value [OF Suc.prems(1-5) len, of S]
  show ?case
  proof (cases "plain_value_byte ?c \<and> ?c \<noteq> QT \<and> ?c \<noteq> BS")
    case False
    with Suc.prems(7) len have "b" "q = Suc (pos x)" by (auto simp: plain_value_byte_def Let_def split: if_splits)
    with step show ?thesis by simp
  next
    case True
    with Suc.prems(7) len have "move_fast k data (Suc (pos x)) = Some (b, q)"
      by (simp add: plain_value_byte_def Let_def)
    with Suc.IH [of ?y] Suc.prems(1,2) True step show ?thesis by simp
  qed
qed

lemma slow_fast_value:
  assumes x: "st x = s_header_value" "header_state (parser x) = h_general" "plain_value_byte (ch x)"
    and c: "ch x = data ! pos x" and m: "move_fast k data (pos x) = Some (b, q)"
  defines "x1 \<equiv> (if ch x = QT then set_hs h_general_and_quote x else x)"
  shows "slow_run S data x = (if b then slow_run S data (x1\<lparr>pos := q, ch := data ! q\<rparr>)
    else continue (slow_run S data) S data (Break (x1\<lparr>pos := q, ch := data ! q\<rparr>)))"
proof -
  have x1: "st x1 = s_header_value" "pos x1 = pos x" "ch x1 = ch x"
    "header_state (parser x1) \<in> {h_general, h_general_and_quote}"
    using x by (simp_all add: x1_def set_hs_def upd_def)
  have first: "slow_run S data x = continue (slow_run S data) S data (Break x1)"
    using x by (subst slow_run_continue) (simp add: slow_byte_def x1_def)
  show ?thesis
  proof (cases k)
    case 0
    with m have q: "q = pos x1" "\<not> b" using x1 by simp_all
    have "x1\<lparr>pos := q, ch := data ! q\<rparr> = x1" using q x1 c by simp
    with first q show ?thesis by (simp only: if_False)
  next
    case (Suc k')
    let ?y = "x1\<lparr>pos := Suc (pos x), ch := data ! Suc (pos x)\<rparr>" and ?c = "data ! Suc (pos x)"
    have len: "Suc (pos x) < length data" using m Suc by (simp split: if_splits)
    have y: "slow_run S data x = slow_run S data ?y"
      using first len x1 by (simp add: continue_def)
    show ?thesis
    proof (cases "plain_value_byte ?c \<and> ?c \<noteq> QT \<and> ?c \<noteq> BS")
      case False
      with m Suc len have "b" "q = Suc (pos x)" by (auto simp: plain_value_byte_def Let_def split: if_splits)
      with y show ?thesis by simp
    next
      case True
      with m Suc len have "move_fast k' data (Suc (pos x)) = Some (b, q)"
        by (simp add: plain_value_byte_def Let_def)
      with slow_skip_value [of ?y data k' b q S] x1 True
      have skip: "slow_run S data ?y = slow_run S data (x1\<lparr>pos := q, ch := data ! q\<rparr>)"
        "\<not> b \<Longrightarrow> plain_value_byte (data ! q) \<and> data ! q \<noteq> QT \<and> data ! q \<noteq> BS" by simp_all
      have "slow_byte S data (x1\<lparr>pos := q, ch := data ! q\<rparr>) = Break (x1\<lparr>pos := q, ch := data ! q\<rparr>)"
        if "\<not> b"
        using skip(2) [OF that] x1
        by (auto simp: slow_byte_def exec_byte_def step_header_value_def Let_def value_switch_def
            plain_value_byte_def)
      then show ?thesis
        using y skip(1) slow_run_continue [of S data "x1\<lparr>pos := q, ch := data ! q\<rparr>"] by simp
    qed
  qed
qed

section \<open>The two machines agree\<close>

lemma result_after_ch:
  assumes "\<And>z c. result_of (k (z\<lparr>ch := c\<rparr>)) = result_of (k z)"
  shows "result_of (after_callback e er res (x\<lparr>ch := c\<rparr>) k) = result_of (after_callback e er res x k)"
proof -
  have swap: "x\<lparr>ch := c, parser := ps, udata := u\<rparr> = x\<lparr>parser := ps, udata := u, ch := c\<rparr>" for ps u
    by simp
  have "result_of (k (x\<lparr>ch := c, parser := ps, udata := u\<rparr>)) = result_of (k (x\<lparr>parser := ps, udata := u\<rparr>))"
    for ps u
    unfolding swap by (rule assms)
  then show ?thesis
    by (auto simp: after_callback_def Let_def result_of_def [of "Return _ _"] split: prod.split)
qed

lemma result_DATA_ch:
  assumes k: "\<And>z c. result_of (k (z\<lparr>ch := c\<rparr>)) = result_of (k z)"
  shows "result_of (CALLBACK_DATA_NOADVANCE S data ev (x\<lparr>ch := c\<rparr>) k)
    = result_of (CALLBACK_DATA_NOADVANCE S data ev x k)"
proof -
  have mark: "get_mark ev (z\<lparr>ch := c\<rparr>) = get_mark ev z"
      "set_mark ev None (z\<lparr>ch := c\<rparr>) = (set_mark ev None z)\<lparr>ch := c\<rparr>" for z :: "'a exec" and c
    by (cases ev; simp)+
  have k': "result_of (k (set_mark ev None (z\<lparr>ch := c\<rparr>))) = result_of (k (set_mark ev None z))" for z c
    unfolding mark by (rule k)
  have parser: "x\<lparr>ch := c, parser := ps\<rparr> = x\<lparr>parser := ps\<rparr>\<lparr>ch := c\<rparr>" for ps by simp
  show ?thesis
    unfolding CALLBACK_DATA_NOADVANCE_def CALLBACK_DATA_ER_def Let_def mark parser
    by (simp add: k result_after_ch k' split: option.split)
qed

lemma result_finish_ch: "result_of (finish S data (x\<lparr>ch := c\<rparr>)) = result_of (finish S data x)"
proof -
  have upd: "upd f (x\<lparr>ch := c\<rparr>) = (upd f x)\<lparr>ch := c\<rparr>" for f by (simp add: upd_def)
  have marks: "marks_set (z\<lparr>ch := c\<rparr>) = marks_set z" for z :: "'a exec" by (simp add: marks_set_def)
  have err: "result_of (fail e (z\<lparr>ch := c\<rparr>)) = result_of (fail e z)" for e and z :: "'a exec"
    by (simp add: fail_def goto_error_def SET_ERRNO_def RETURN_def upd_def result_of_def)
  have ret: "result_of (RETURN n (z\<lparr>ch := c\<rparr>)) = result_of (RETURN n z)" for n and z :: "'a exec" and c
    by (simp add: RETURN_def upd_def result_of_def)
  have pos: "pos (x\<lparr>ch := c\<rparr>) = pos x" "st (x\<lparr>ch := c\<rparr>) = st x"
    "header_data_start (x\<lparr>ch := c\<rparr>) = header_data_start x" "parser (z\<lparr>ch := c\<rparr>) = parser z" for z :: "'a exec"
    by simp_all
  show ?thesis
    unfolding finish_def Let_def pos
    by (simp only: upd if_distrib [of result_of] marks pos err ret result_DATA_ch cong: if_cong split: if_split)
      (simp add: err marks ret result_DATA_ch)
qed

lemma continue_agree:
  assumes "\<And>y. r = Break y \<Longrightarrow> pos y + 1 < length data \<Longrightarrow>
      result_of (f (y\<lparr>pos := pos y + 1, ch := data ! (pos y + 1)\<rparr>))
      = result_of (g (y\<lparr>pos := pos y + 1, ch := data ! (pos y + 1)\<rparr>))"
    and "\<And>y. r = Reexecute y \<Longrightarrow> result_of (f y) = result_of (g y)"
  shows "result_of (continue f S data r) = result_of (continue g S data r)"
  using assms by (cases r) (auto simp: continue_def)

lemma run_slow_run:
  "pos x < length data \<Longrightarrow> (st x \<in> {s_header_field, s_header_value} \<Longrightarrow> ch x = data ! pos x) \<Longrightarrow>
     result_of (run S data x) = result_of (slow_run S data x)"
proof (induction S data x rule: run.induct)
  case (1 S data x)
  have agree: "result_of (continue (run S data) S data (exec_byte S data x))
      = result_of (continue (slow_run S data) S data (exec_byte S data x))"
  proof (rule continue_agree)
    fix y assume "exec_byte S data x = Break y" "pos y + 1 < length data"
    then show "result_of (run S data (y\<lparr>pos := pos y + 1, ch := data ! (pos y + 1)\<rparr>))
        = result_of (slow_run S data (y\<lparr>pos := pos y + 1, ch := data ! (pos y + 1)\<rparr>))"
      using 1(1) by simp
  next
    fix y assume *: "exec_byte S data x = Reexecute y"
    then show "result_of (run S data y) = result_of (slow_run S data y)"
      using 1(2) [OF *] exec_byte_progress [of data x S] 1(3) by auto
  qed
  consider (token) "st x = s_header_field" "header_state (parser x) = h_general" "TOKEN (ch x) \<noteq> 0"
    | (val) "st x = s_header_value" "header_state (parser x) = h_general" "plain_value_byte (ch x)"
    | (other) "slow_byte S data x = exec_byte S data x"
    unfolding slow_byte_def by metis
  then show ?case
  proof cases
    case token
    let ?k = "if length data - pos x \<ge> 9 then 8 else if length data - pos x \<ge> 4 then 3 else 0 :: nat"
    have "pos x + ?k < length data" using 1(3) by auto
    then obtain b q where q: "move_the_head ?k data (pos x) = Some (b, q)" "q < length data"
      using move_the_head_some by blast
    let ?y = "x\<lparr>pos := q, ch := data ! q\<rparr>"
    have slow: "slow_run S data x = slow_run S data ?y" "b \<longleftrightarrow> TOKEN (data ! q) = 0"
      using slow_skip_token [OF token _ q(1), of S] 1(4) token(1) by simp_all
    show ?thesis
    proof (cases b)
      case True
      then have "slow_byte S data ?y = exec_byte S data x"
        using slow(2) token q(1) by (simp add: slow_byte_def exec_byte_def step_header_field_def Let_def)
      with agree show ?thesis
        unfolding slow(1) run_continue [of S data x] slow_run_continue [of S data ?y] by simp
    next
      case False
      then have r: "exec_byte S data x = Break (x\<lparr>pos := q\<rparr>)" "slow_byte S data ?y = Break ?y"
        using slow(2) token q(1) by (simp_all add: slow_byte_def exec_byte_def step_header_field_def Let_def)
      show ?thesis
      proof (cases "Suc q = length data")
        case True
        have swap: "x\<lparr>ch := data ! q, pos := length data\<rparr> = x\<lparr>pos := length data, ch := data ! q\<rparr>" by simp
        show ?thesis
          unfolding slow(1) run_continue [of S data x] slow_run_continue [of S data ?y] r
          using True by (simp add: continue_def) (simp only: swap result_finish_ch)
      next
        case False
        then have "Suc q < length data" using q(2) by simp
        then show ?thesis
          using 1(1) [OF r(1), of "Suc q"] r False
          unfolding slow(1) run_continue [of S data x] slow_run_continue [of S data ?y]
          by (simp add: continue_def)
      qed
    qed
  next
    case val
    let ?k = "if length data - pos x \<ge> 12 then 11 else if length data - pos x \<ge> 5 then 4 else 0 :: nat"
    let ?x1 = "if ch x = QT then set_hs h_general_and_quote x else x"
    have c: "ch x = data ! pos x" using 1(4) val(1) by simp
    have "pos x + ?k < length data" using 1(3) by auto
    then obtain b q where q: "move_fast ?k data (pos x) = Some (b, q)"
      using move_fast_some by blast
    have r: "exec_byte S data x = (if b then Reexecute (?x1\<lparr>pos := q, ch := data ! q\<rparr>)
        else Break (?x1\<lparr>pos := q, ch := data ! q\<rparr>))"
      using val q by (simp add: exec_byte_def step_header_value_def plain_value_byte_def value_switch_def Let_def)
    show ?thesis
      using agree slow_fast_value [OF val c q, of S]
      unfolding run_continue [of S data x] r by (cases b) (simp_all add: continue_def)
  next
    case other
    with agree show ?thesis
      unfolding run_continue [of S data x] slow_run_continue [of S data x] by simp
  qed
qed

definition slow_execute :: "'u http_parser_settings \<Rightarrow> byte list \<Rightarrow> http_parser \<Rightarrow> 'u \<Rightarrow>
    (nat \<times> http_parser \<times> 'u) option" where
  "slow_execute S data ps u =
     (let x = initial_exec data ps u
      in result_of
          (if perrno ps \<noteq> HPE_OK then RETURN 0 x
           else if data = [] then at_eof S x
           else slow_run S data x))"

text \<open>C3. Fast-forwarding is an optimisation only: on every input, in every state of the parser and
  for every set of callbacks, \<^verbatim>\<open>http_parser_execute\<close> returns the same number of bytes, the same parser
  and the same user object as the machine that inspects the header bytes one by one.\<close>

theorem fast_forward_equivalence: "http_parser_execute S data ps u = slow_execute S data ps u"
proof (cases "data = []")
  case True
  then show ?thesis by (simp add: http_parser_execute_def slow_execute_def Let_def)
next
  case False
  have "result_of (run S data (initial_exec data ps u)) = result_of (slow_run S data (initial_exec data ps u))"
    using False by (intro run_slow_run) (auto simp: initial_exec_def)
  then show ?thesis by (simp add: http_parser_execute_def slow_execute_def Let_def)
qed

end
