(* ===== verification/HttpSafe.thy ===== *)
theory HttpSafe
  imports HttpParser
begin

text \<open>
  Memory safety of the HTTP parser: under the documented contract of the callbacks (they do not
  change the parser apart from pausing it), no sequence of \<^verbatim>\<open>http_parser_execute\<close> calls on any input
  fails an assertion, reads outside the input or a table, or overflows a signed integer; and every
  call reports at most as many bytes as it was given.
\<close>

section \<open>The invariant\<close>

definition fields_ok :: "http_state \<Rightarrow> http_parser \<Rightarrow> bool" where
  "fields_ok s ps = (case s of
     s_dead \<Rightarrow> False | s_res_status_start \<Rightarrow> False
   | s_req_server_start \<Rightarrow> False | s_req_server \<Rightarrow> False | s_req_server_with_at \<Rightarrow> False
   | s_req_method \<Rightarrow> pindex ps \<le> length (method_strings (pmethod ps))
   | s_header_field \<Rightarrow> header_state ps \<in> {h_general, h_matching_content_length,
       h_matching_transfer_encoding, h_matching_upgrade, h_content_length, h_transfer_encoding, h_upgrade}
   | s_header_value \<Rightarrow> header_state ps = h_content_length \<longrightarrow> 0 \<le> content_length ps
   | s_header_almost_done \<Rightarrow> header_state ps = h_content_length \<longrightarrow> 0 \<le> content_length ps
   | s_chunk_size_start \<Rightarrow> F_CHUNKED \<in> flags ps
   | s_chunk_size \<Rightarrow> F_CHUNKED \<in> flags ps \<and> 0 \<le> content_length ps
   | s_chunk_parameters \<Rightarrow> F_CHUNKED \<in> flags ps \<and> 0 \<le> content_length ps
   | s_chunk_size_almost_done \<Rightarrow> F_CHUNKED \<in> flags ps \<and> 0 \<le> content_length ps
   | s_chunk_data \<Rightarrow> F_CHUNKED \<in> flags ps \<and> 0 < content_length ps
   | s_chunk_data_almost_done \<Rightarrow> F_CHUNKED \<in> flags ps \<and> content_length ps = 0
   | s_chunk_data_done \<Rightarrow> F_CHUNKED \<in> flags ps
   | s_body_identity \<Rightarrow> 0 < content_length ps
   | _ \<Rightarrow> True)"
  \<comment> \<open>what each state assumes of the parser's other fields\<close>

definition parser_ok :: "http_parser \<Rightarrow> bool" where
  "parser_ok ps \<longleftrightarrow> (perrno ps = HPE_OK \<or> perrno ps = HPE_PAUSED \<longrightarrow> fields_ok (pstate ps) ps)"
  \<comment> \<open>the invariant between calls; a parser in an error state does nothing any more\<close>

definition url_state :: "http_state \<Rightarrow> bool" where
  "url_state s \<longleftrightarrow> s \<in> set [s_req_path, s_req_schema, s_req_schema_slash,
     s_req_schema_slash_slash, s_req_port, s_req_query_string_start, s_req_query_string,
     s_req_host_start, s_req_host, s_req_host_ipv6, s_req_host_done, s_req_fragment_start, s_req_fragment]"

definition body_state :: "http_state \<Rightarrow> bool" where
  "body_state s \<longleftrightarrow> s \<in> set [s_body_identity, s_body_identity_eof, s_chunk_data, s_chunk_data_almost_done]"

definition mark_ok :: "bool \<Rightarrow> nat \<Rightarrow> nat option \<Rightarrow> bool" where
  "mark_ok allowed p m \<longleftrightarrow> (case m of None \<Rightarrow> True | Some i \<Rightarrow> allowed \<and> i \<le> p)"

definition marks_ok :: "'u exec \<Rightarrow> bool" where
  "marks_ok x \<longleftrightarrow>
     mark_ok (st x = s_header_field) (pos x) (header_field_mark x)
   \<and> mark_ok (st x = s_header_value) (pos x) (header_value_mark x)
   \<and> mark_ok (url_state (st x)) (pos x) (url_mark x)
   \<and> mark_ok (st x = s_res_status) (pos x) (reason_mark x)
   \<and> mark_ok (body_state (st x)) (pos x) (body_mark x)
   \<and> (st x = s_header_field \<longrightarrow> header_field_mark x \<noteq> None)"
  \<comment> \<open>a mark is set only in the states of its part of the message, and lies before the position\<close>

definition exec_ok :: "byte list \<Rightarrow> 'u exec \<Rightarrow> bool" where
  "exec_ok data x \<longleftrightarrow> perrno (parser x) = HPE_OK \<and> pos x < length data \<and> header_data_start x \<le> pos x
     \<and> fields_ok (st x) (parser x) \<and> marks_ok x"

definition sound :: "byte list \<Rightarrow> ('u exec \<Rightarrow> bool) \<Rightarrow> ('u exec \<Rightarrow> bool) \<Rightarrow> 'u outcome \<Rightarrow> bool" where
  "sound data B R = ends B R (\<lambda>n x. n \<le> length data \<and> parser_ok (parser x)) False"
  \<comment> \<open>no fault, and a return reports no more bytes than there are and a good parser\<close>

abbreviation safe :: "byte list \<Rightarrow> 'u outcome \<Rightarrow> bool" where
  "safe data \<equiv> sound data (exec_ok data) (exec_ok data)"

abbreviation returned :: "byte list \<Rightarrow> 'u outcome \<Rightarrow> bool" where
  "returned data \<equiv> sound data (\<lambda>_. False) (\<lambda>_. False)"

lemma sound_simps [simp]:
  "sound data B R (Break x) = B x"
  "sound data B R (Reexecute x) = R x"
  "sound data B R (Return n x) \<longleftrightarrow> n \<le> length data \<and> parser_ok (parser x)"
  "sound data B R (RETURN n x) \<longleftrightarrow> n \<le> length data \<and> parser_ok ((parser x)\<lparr>pstate := st x\<rparr>)"
  "\<not> sound data B R Fault"
  by (simp_all add: sound_def RETURN_def upd_def)

lemma safe_error:
  "pos x \<le> length data \<Longrightarrow> perrno (parser x) \<noteq> HPE_PAUSED \<Longrightarrow> sound data B R (goto_error x)"
  "pos x \<le> length data \<Longrightarrow> e \<noteq> HPE_OK \<Longrightarrow> e \<noteq> HPE_PAUSED \<Longrightarrow> sound data B R (fail e x)"
  by (simp_all add: goto_error_def fail_def SET_ERRNO_def upd_def parser_ok_def)

lemma safe_if: "(b \<Longrightarrow> sound data B R r) \<Longrightarrow> (\<not> b \<Longrightarrow> sound data B R q) \<Longrightarrow>
    sound data B R (if b then r else q)"
  by simp

lemma fields_ok_cong:
  "fields_ok s (ps\<lparr>pstate := t\<rparr>) = fields_ok s ps" "fields_ok s (ps\<lparr>perrno := e\<rparr>) = fields_ok s ps"
  "fields_ok s (ps\<lparr>nread := n\<rparr>) = fields_ok s ps"
  by (cases s; simp add: fields_ok_def)+

lemma mark_ok_simps [simp]:
  "mark_ok False p m \<longleftrightarrow> m = None" "mark_ok b p None" "mark_ok True p (Some i) \<longleftrightarrow> i \<le> p"
  by (simp_all add: mark_ok_def split: option.split)

lemma mark_ok_mono: "mark_ok b p m \<Longrightarrow> p \<le> q \<Longrightarrow> mark_ok b q m"
  by (auto simp: mark_ok_def split: option.splits)

definition mark_or :: "nat \<Rightarrow> nat option \<Rightarrow> nat option" where
  "mark_or p m = (case m of None \<Rightarrow> Some p | Some i \<Rightarrow> Some i)"

lemma mark_or_simps [simp]:
  "mark_ok True p (mark_or p m) \<longleftrightarrow> mark_ok True p m" "mark_or p m \<noteq> None"
  "mark_or p (Some i) = Some i" "mark_or p None = Some p"
  by (simp_all add: mark_or_def split: option.split)

lemma MARK_simps [simp]:
  "header_field_mark (MARK ev x) = (if ev = D_header_field then mark_or (pos x) (header_field_mark x) else header_field_mark x)"
  "header_value_mark (MARK ev x) = (if ev = D_header_value then mark_or (pos x) (header_value_mark x) else header_value_mark x)"
  "url_mark (MARK ev x) = (if ev = D_url then mark_or (pos x) (url_mark x) else url_mark x)"
  "reason_mark (MARK ev x) = (if ev = D_reason then mark_or (pos x) (reason_mark x) else reason_mark x)"
  "body_mark (MARK ev x) = (if ev = D_body then mark_or (pos x) (body_mark x) else body_mark x)"
  "header_data_start (MARK ev x) = header_data_start x" "udata (MARK ev x) = udata x"
  by (cases ev; auto simp: MARK_def mark_or_def split: option.splits)+

lemma perrno_same: "perrno ps = e \<Longrightarrow> ps\<lparr>perrno := e\<rparr> = ps"
  by (cases ps) simp

definition flushable :: "byte list \<Rightarrow> 'u exec \<Rightarrow> bool" where
  "flushable data x \<longleftrightarrow> perrno (parser x) = HPE_OK \<and> pos x = length data
     \<and> fields_ok (st x) (parser x) \<and> (\<forall>ev. mark_ok True (pos x) (get_mark ev x))"
  \<comment> \<open>the state in which the bytes since the marks are handed over at the end of the input\<close>

lemma all_data_event: "(\<forall>ev. P ev) \<longleftrightarrow>
    P D_header_field \<and> P D_header_value \<and> P D_url \<and> P D_reason \<and> P D_body"
  by (metis data_event.exhaust)

section \<open>The contract of the callbacks\<close>

definition polite :: "http_parser \<Rightarrow> int \<times> http_parser \<times> 'u \<Rightarrow> bool" where
  "polite ps res \<longleftrightarrow>
     (\<exists>e. (e = HPE_OK \<or> e = HPE_PAUSED) \<and> fst (snd res) = ps\<lparr>perrno := e\<rparr>)"
  \<comment> \<open>the callback leaves the parser alone, or pauses it\<close>

locale http_callbacks =
  fixes S :: "'u http_parser_settings"
  assumes notify_polite: "perrno ps = HPE_OK \<Longrightarrow> polite ps (notify_cb nev S ps u)"
    and data_polite: "perrno ps = HPE_OK \<Longrightarrow> polite ps (data_cb dev S ps d u)"
    and headers_polite: "perrno ps = HPE_OK \<Longrightarrow> polite ps (on_headers_complete S ps n u)"
begin

lemma safe_after:
  assumes "polite ((parser y)\<lparr>pstate := st y\<rparr>) res" and "perrno (parser y) = HPE_OK"
    and "e \<noteq> HPE_OK" "e \<noteq> HPE_PAUSED" and "er \<le> length data" and "fields_ok (st y) (parser y)"
    and k: "\<And>u. sound data B R (k (y\<lparr>parser := (parser y)\<lparr>pstate := st y\<rparr>, udata := u\<rparr>))"
  shows "sound data B R (after_callback e er res y k)"
proof -
  obtain r ps u where res: "res = (r, ps, u)" by (cases res)
  with assms(1) obtain e' where e': "e' = HPE_OK \<or> e' = HPE_PAUSED"
    and ps: "ps = (parser y)\<lparr>pstate := st y\<rparr>\<lparr>perrno := e'\<rparr>"
    unfolding polite_def by auto
  have same: "(parser y)\<lparr>pstate := st y, perrno := HPE_OK\<rparr> = (parser y)\<lparr>pstate := st y\<rparr>"
    by (rule perrno_same) (simp add: assms(2))
  show ?thesis
    using assms(2-6) k [of u] e'
    by (auto simp: after_callback_def res Let_def parser_ok_def ps same fields_ok_cong)
qed

lemma safe_NOTIFY:
  assumes "perrno (parser y) = HPE_OK" and "fields_ok (st y) (parser y)"
    and k: "\<And>u. sound data B R (k (y\<lparr>parser := (parser y)\<lparr>pstate := st y\<rparr>, udata := u\<rparr>))"
  shows "pos y + 1 \<le> length data \<Longrightarrow> sound data B R (CALLBACK_NOTIFY S ev y k)"
    and "pos y \<le> length data \<Longrightarrow> sound data B R (CALLBACK_NOTIFY_NOADVANCE S ev y k)"
proof -
  have "notify_errno ev \<noteq> HPE_OK" "notify_errno ev \<noteq> HPE_PAUSED" by (cases ev; simp)+
  then have "sound data B R (CALLBACK_NOTIFY_ER S ev er y k)" if "er \<le> length data" for er
    using assms that by (simp add: CALLBACK_NOTIFY_ER_def Let_def safe_after notify_polite)
  then show "pos y + 1 \<le> length data \<Longrightarrow> sound data B R (CALLBACK_NOTIFY S ev y k)"
    and "pos y \<le> length data \<Longrightarrow> sound data B R (CALLBACK_NOTIFY_NOADVANCE S ev y k)"
    unfolding CALLBACK_NOTIFY_def CALLBACK_NOTIFY_NOADVANCE_def by blast+
qed

lemma safe_DATA_ER:
  assumes "perrno (parser y) = HPE_OK" and "fields_ok (st y) (parser y)"
    and m: "mark_ok True stop (get_mark ev y)" and "stop \<le> length data" and "er \<le> length data"
    and k: "\<And>u. sound data B R (k (set_mark ev None (y\<lparr>parser := (parser y)\<lparr>pstate := st y\<rparr>, udata := u\<rparr>)))"
  shows "sound data B R (CALLBACK_DATA_ER S data ev stop er y k)"
proof (cases "get_mark ev y")
  case None
  have "set_mark ev None (y\<lparr>parser := (parser y)\<lparr>pstate := st y\<rparr>\<rparr>) = y\<lparr>parser := (parser y)\<lparr>pstate := st y\<rparr>\<rparr>"
    using None by (cases ev) simp_all
  with None assms(1) k [of "udata y"] show ?thesis
    by (simp add: CALLBACK_DATA_ER_def)
next
  case (Some i)
  have "data_errno ev \<noteq> HPE_OK" "data_errno ev \<noteq> HPE_PAUSED" by (cases ev; simp)+
  with Some assms show ?thesis
    by (simp add: CALLBACK_DATA_ER_def Let_def mark_ok_def safe_after data_polite)
qed

lemmas safe_DATA =
  safe_DATA_ER [where stop = "pos y" and er = "pos y + 1" and y = y for y, folded CALLBACK_DATA_def]
  safe_DATA_ER [where stop = "pos y" and er = "pos y" and y = y for y, folded CALLBACK_DATA_NOADVANCE_def]

lemma safe_SPACE:
  assumes "perrno (parser y) = HPE_OK" and "fields_ok (st y) (parser y)" and "pos y \<le> length data"
    and k: "\<And>u. sound data B R (k (y\<lparr>parser := (parser y)\<lparr>pstate := st y\<rparr>, udata := u\<rparr>))"
  shows "sound data B R (CALLBACK_SPACE S y k)"
  using assms data_polite [of "(parser y)\<lparr>pstate := st y\<rparr>" D_header_value]
  by (simp add: CALLBACK_SPACE_def safe_after)

lemmas ok_defs = exec_ok_def fields_ok_def marks_ok_def url_state_def body_state_def upd_def parser_ok_def

lemma safe_start:
  assumes "exec_ok data x" and "st x \<in> set [s_pre_start_req_or_res, s_start_req_or_res,
    s_res_or_resp_H, s_pre_start_res, s_start_res]"
  shows "safe data (step_start S x)"
  using assms
  by (cases "st x"; simp add: step_start_def Let_def ok_defs set_no_body_def safe_NOTIFY safe_error)

lemma safe_res_version:
  assumes "exec_ok data x" and "st x \<in> set [s_res_H, s_res_HT, s_res_HTT, s_res_HTTP,
    s_res_first_http_major, s_res_http_major, s_res_first_http_minor, s_res_http_minor]"
  shows "safe data (step_res_version x)"
  using assms
  by (cases "st x"; simp add: step_res_version_def Let_def ok_defs safe_error
      first_major_def more_major_def first_minor_def more_minor_def)

lemma safe_res_status:
  assumes "exec_ok data x" and "st x \<in> set [s_res_first_status_code, s_res_status_code, s_res_status,
    s_res_line_almost_done]"
  shows "safe data (step_res_status S data x)"
  using assms
  by (cases "st x"; simp add: step_res_status_def Let_def ok_defs safe_error safe_DATA)

lemma safe_req_start:
  assumes "exec_ok data x" and "st x \<in> set [s_pre_start_req, s_start_req]"
  shows "safe data (step_req_start S x)"
proof -
  have "1 \<le> length (method_strings m)" for m by (cases m) simp_all
  with assms show ?thesis
    by (cases "st x"; simp add: step_req_start_def Let_def ok_defs set_no_body_def safe_NOTIFY safe_error
        split: option.split)
qed

lemma c_string_at_hit:
  "c_string_at s i = Some w \<Longrightarrow> w \<noteq> CHR 0x00 \<Longrightarrow> i < length s"
  by (auto simp: c_string_at_def split: if_splits)

lemma safe_req_method:
  assumes x: "exec_ok data x" and "st x = s_req_method"
  shows "safe data (step_req_method x)"
proof -
  let ?m = "pmethod (parser x)" and ?i = "pindex (parser x)"
  have le: "?i \<le> length (method_strings ?m)" using assms by (simp add: ok_defs)
  then obtain w where w: "c_string_at (method_strings ?m) ?i = Some w"
    unfolding c_string_at_def by (cases "?i < length (method_strings ?m)") auto
  have short: "length (method_strings m) \<le> 11" for m by (cases m) simp_all
  have next_ok: "exec_ok data (next_index x)" if "w \<noteq> CHR 0x00"
    using c_string_at_hit [OF w that] assms short [of ?m] by (simp add: next_index_def ok_defs)
  have switch: "safe data (with_method m x)" if "(?i + 1) mod 2 ^ 8 \<le> length (method_strings m)" for m
    using that assms by (simp add: with_method_def next_index_def ok_defs)
  have err: "safe data (goto_error x)" "safe data (fail HPE_INVALID_METHOD x)"
    using x by (simp_all add: exec_ok_def safe_error)
  have blank: "exec_ok data (next_index (x\<lparr>st := s_req_spaces_before_url\<rparr>))"
    using assms by (simp add: next_index_def ok_defs)
  show ?thesis
    unfolding step_req_method_def Let_def w option.case
    by (intro safe_if err) (use next_ok blank in \<open>auto intro!: switch\<close>)
qed

lemma safe_url_host:
  assumes "exec_ok data x" and "st x \<in> set [s_req_spaces_before_url, s_req_schema, s_req_schema_slash,
    s_req_schema_slash_slash, s_req_host_start, s_req_host, s_req_host_ipv6, s_req_host_done, s_req_port]"
  shows "safe data (step_url_host S data x)"
  using assms
  by (cases "st x"; simp add: step_url_host_def Let_def ok_defs safe_error safe_DATA url_done_def)

lemma safe_url_path:
  assumes "exec_ok data x" and "st x \<in> set [s_req_path, s_req_query_string_start, s_req_query_string]"
  shows "safe data (step_url_path S data x)"
  using assms
  by (cases "st x"; simp add: step_url_path_def Let_def ok_defs safe_error safe_DATA url_done_def http_0_9_def)

lemma safe_url_fragment:
  assumes "exec_ok data x" and "st x \<in> set [s_req_fragment_start, s_req_fragment]"
  shows "safe data (step_url_fragment S data x)"
  using assms
  by (cases "st x"; simp add: step_url_fragment_def Let_def ok_defs safe_error safe_DATA url_done_def http_0_9_def)

lemma safe_req_http:
  assumes "exec_ok data x" and "st x \<in> set [s_req_http_start, s_req_http_H, s_req_http_HT, s_req_http_HTT,
    s_req_http_HTTP, s_req_first_http_major, s_req_http_major, s_req_first_http_minor, s_req_http_minor,
    s_req_line_almost_done]"
  shows "safe data (step_req_http x)"
  using assms
  by (cases "st x"; simp add: step_req_http_def Let_def ok_defs safe_error
      first_major_def more_major_def first_minor_def more_minor_def)

lemma safe_header_field_start:
  assumes "exec_ok data x" and "st x = s_header_field_start"
  shows "safe data (step_header_field_start x)"
  using assms by (simp add: step_header_field_start_def Let_def ok_defs safe_error set_hs_def)

lemma safe_notatoken:
  assumes "exec_ok data x" and "st x = s_header_field"
  shows "safe data (notatoken S data x)"
proof -
  obtain m where "header_field_mark x = Some m" using assms by (auto simp: exec_ok_def marks_ok_def)
  then show ?thesis
    using assms by (simp add: notatoken_def Let_def ok_defs safe_error safe_DATA)
qed

lemma exec_ok_pos:
  assumes "exec_ok data x" and "pos x \<le> p" and "p < length data"
  shows "exec_ok data (x\<lparr>pos := p\<rparr>)" "exec_ok data (x\<lparr>pos := p, ch := c\<rparr>)"
  using assms by (auto simp: exec_ok_def marks_ok_def elim!: mark_ok_mono)

lemma exec_ok_same:
  assumes "exec_ok data x" and "perrno (f (parser x)) = HPE_OK" and "fields_ok (st x) (f (parser x))"
  shows "exec_ok data (upd f x)"
  using assms by (simp add: exec_ok_def marks_ok_def upd_def)

lemma match_word_states:
  "perrno (match_word w h c ps) = perrno ps"
  "header_state (match_word w h c ps) \<in> {h_general, h, header_state ps}"
  "content_length (match_word w h c ps) = content_length ps"
  by (simp_all add: match_word_def Let_def)

lemma safe_header_field:
  assumes x: "exec_ok data x" and st: "st x = s_header_field"
  shows "safe data (step_header_field S data x)"
proof (cases "TOKEN (ch x) = 0")
  case True
  then show ?thesis using safe_notatoken [OF assms] by (simp add: step_header_field_def)
next
  case False
  let ?k = "if length data - pos x \<ge> 9 then 8 else if length data - pos x \<ge> 4 then 3 else 0 :: nat"
  have "pos x + ?k < length data" using x by (auto simp: exec_ok_def)
  then obtain b q where q: "move_the_head ?k data (pos x) = Some (b, q)" "pos x \<le> q" "q < length data"
    using move_the_head_some by blast
  have err: "perrno (parser x) = HPE_OK" using x by (simp add: exec_ok_def)
  have words: "exec_ok data (upd (match_word w h c) x)" if "header_state (parser x) \<noteq> h_general_and_quote"
      "h \<in> {h_content_length, h_transfer_encoding, h_upgrade}" for w h c
    using that x st match_word_states [of w h c "parser x"]
    by (intro exec_ok_same) (auto simp: exec_ok_def fields_ok_def)
  have gen: "exec_ok data (set_hs h_general x)"
    using x st by (simp add: set_hs_def ok_defs)
  have hs: "header_state (parser x) \<in> {h_general, h_matching_content_length,
       h_matching_transfer_encoding, h_matching_upgrade, h_content_length, h_transfer_encoding, h_upgrade}"
    using x st by (simp add: ok_defs)
  show ?thesis
    using False hs q(1) words gen x exec_ok_pos [OF x q(2,3)] safe_notatoken [of data "x\<lparr>pos := q, ch := data ! q\<rparr>"] st
    by (auto simp: step_header_field_def Let_def)
qed

lemma safe_header_value_start:
  assumes "exec_ok data x" and "st x = s_header_value_start"
  shows "safe data (step_header_value_start S data x)"
proof -
  have "safe data (step_header_value_start S data x)" if "ch x = CR \<or> ch x = LF"
    using assms that
    by (auto simp: step_header_value_start_def Let_def ok_defs set_hs_def SET_ERRNO_def safe_error safe_DATA)
  moreover have "safe data (step_header_value_start S data x)" if "ch x \<noteq> CR" "ch x \<noteq> LF"
    using assms that
    by (cases "header_state (parser x)")
      (simp_all add: step_header_value_start_def Let_def ok_defs set_hs_def safe_error)
  ultimately show ?thesis by blast
qed

lemma add_digit64_ok:
  "0 \<le> n \<Longrightarrow> n \<le> (INT64_MAX - 10) div 10 \<Longrightarrow> 0 \<le> d \<Longrightarrow> d \<le> 9 \<Longrightarrow>
     \<exists>v. add_digit64 10 n d = Some v \<and> 0 \<le> v"
  "0 \<le> n \<Longrightarrow> 0 \<le> d \<Longrightarrow> n \<le> (INT64_MAX - d) div 16 \<Longrightarrow> \<exists>v. add_digit64 16 n d = Some v \<and> 0 \<le> v"
  by (auto simp: add_digit64_def INT64_MAX_def)

lemma exec_ok_set_hs:
  "exec_ok data x \<Longrightarrow> st x = s_header_value \<Longrightarrow> h \<noteq> h_content_length \<Longrightarrow> exec_ok data (set_hs h x)"
  by (simp add: set_hs_def ok_defs)

lemma safe_content_length:
  assumes x: "exec_ok data x" and st: "st x = s_header_value"
    and h: "header_state (parser x) = h_content_length"
  shows "safe data (value_switch data x)"
proof -
  have err: "safe data (fail e x)" if "e \<noteq> HPE_OK" "e \<noteq> HPE_PAUSED" for e
    using x that by (simp add: safe_error exec_ok_def)
  have cl: "exec_ok data (upd (\<lambda>ps. ps\<lparr>content_length := v\<rparr>) x)" if "0 \<le> v" for v
    using x st that by (simp add: ok_defs)
  have "\<exists>v. add_digit64 10 (content_length (parser x)) (int (digit (ch x))) = Some v \<and> 0 \<le> v"
    if "IS_NUM (ch x)" "content_length (parser x) \<le> (INT64_MAX - 10) div 10"
    using that x st h digit_le by (intro add_digit64_ok(1)) (auto simp: ok_defs)
  then show ?thesis
    using x err cl by (auto simp: value_switch_def Let_def h)
qed

lemma safe_value_switch:
  assumes x: "exec_ok data x" and st: "st x = s_header_value"
  shows "safe data (value_switch data x)"
proof -
  let ?k = "if length data - pos x \<ge> 12 then 11 else if length data - pos x \<ge> 5 then 4 else 0 :: nat"
  let ?y = "if ch x = QT then set_hs h_general_and_quote x else x"
  have "pos x + ?k < length data" using x by (auto simp: exec_ok_def)
  then obtain b q where q: "move_fast ?k data (pos x) = Some (b, q)" "pos x \<le> q" "q < length data"
    using move_fast_some by blast
  have hs: "exec_ok data (set_hs h x)" if "h \<noteq> h_content_length" for h
    using exec_ok_set_hs [OF x st that] .
  have y: "exec_ok data ?y" "pos ?y = pos x" using hs x by (simp_all add: set_hs_def)
  have quote: "exec_ok data (?y\<lparr>pos := q, ch := data ! q\<rparr>)"
    using y q by (intro exec_ok_pos(2)) simp_all
  have word: "exec_ok data (upd (match_word w h c) x)"
    if "h \<noteq> h_content_length" "header_state (parser x) \<noteq> h_content_length" for w h c
    using that x st match_word_states [of w h c "parser x"]
    by (intro exec_ok_same) (auto simp: exec_ok_def fields_ok_def)
  have err: "safe data (fail HPE_INVALID_HEADER_TOKEN x)" using x by (simp add: safe_error exec_ok_def)
  have dflt: "exec_ok data ((set_hs h_general x)\<lparr>st := s_header_value\<rparr>)"
    using hs [of h_general] st by (simp add: exec_ok_def marks_ok_def set_hs_def)
  show ?thesis
    using q(1) quote hs word err dflt x safe_content_length [OF assms]
    by (cases "header_state (parser x)") (auto simp: value_switch_def Let_def)
qed

lemma safe_header_value:
  assumes x: "exec_ok data x" and st: "st x = s_header_value"
  shows "safe data (step_header_value S data x)"
proof -
  have "safe data (fail HPE_INVALID_HEADER_TOKEN x)" using x by (simp add: safe_error exec_ok_def)
  moreover have "safe data (CALLBACK_DATA S data D_header_value (x\<lparr>st := s_header_almost_done\<rparr>) Break)"
    "safe data (CALLBACK_DATA_NOADVANCE S data D_header_value (x\<lparr>st := s_header_almost_done\<rparr>) Reexecute)"
    using x st by (simp_all add: ok_defs safe_DATA)
  ultimately show ?thesis
    unfolding step_header_value_def Let_def by (intro safe_if safe_value_switch assms)
qed

lemma safe_header_end:
  assumes "exec_ok data x" and "st x \<in> set [s_header_almost_done, s_header_value_lws]"
  shows "safe data (step_header_end S x)"
  using assms
  by (cases "st x"; simp add: step_header_end_def Let_def ok_defs safe_SPACE)

lemma safe_headers_almost_done:
  assumes x: "exec_ok data x" and st: "st x = s_headers_almost_done"
  shows "safe data (step_headers_almost_done S x)"
proof -
  let ?x1 = "(upd (\<lambda>ps. ps\<lparr>upgrade := (F_UPGRADE \<in> flags ps \<or> pmethod ps = HTTP_CONNECT)\<rparr>) x)
    \<lparr>st := s_headers_done\<rparr>"
  obtain r ps u where res: "on_headers_complete S (parser ?x1) (pos x + 1) (udata ?x1) = (r, ps, u)"
    by (cases "on_headers_complete S (parser ?x1) (pos x + 1) (udata ?x1)") auto
  have "perrno (parser ?x1) = HPE_OK" using x by (simp add: exec_ok_def upd_def)
  from headers_polite [OF this, of "pos x + 1" "udata ?x1"] res
  obtain e where e: "e = HPE_OK \<or> e = HPE_PAUSED" "ps = (parser ?x1)\<lparr>perrno := e\<rparr>"
    unfolding polite_def by auto
  have "safe data (fail HPE_STRICT x)" using x by (simp add: safe_error exec_ok_def)
  moreover have "safe data (CALLBACK_NOTIFY_NOADVANCE S N_chunk_complete (x\<lparr>st := s_message_done\<rparr>) Reexecute)"
    using x st by (intro safe_NOTIFY) (simp_all add: ok_defs)
  ultimately show ?thesis
    using x st e unfolding step_headers_almost_done_def Let_def res prod.case
    by (intro safe_if) (auto simp: ok_defs SET_ERRNO_def)
qed

lemma safe_headers_done:
  assumes x: "exec_ok data x" and st: "st x = s_headers_done"
  shows "safe data (step_headers_done S x)"
proof -
  let ?x1 = "(upd (\<lambda>ps. ps\<lparr>nread := 0\<rparr>) x)\<lparr>header_data_start := pos x\<rparr>"
  have new: "safe data (new_message S ?x1 k)"
    if "\<And>u. safe data (k (?x1\<lparr>st := start_state (parser ?x1),
          parser := (parser ?x1)\<lparr>pstate := start_state (parser ?x1)\<rparr>, udata := u\<rparr>))" for k
    unfolding new_message_def
    using x st that by (intro safe_NOTIFY) (auto simp: ok_defs start_state_def)
  show ?thesis
    using x st unfolding step_headers_done_def Let_def
    by (intro safe_if new) (auto simp: ok_defs start_state_def)
qed

lemma take_body_ok:
  assumes x: "exec_ok data x" and "0 < content_length (parser x)"
  shows "pos x \<le> pos (take_body data x)" "pos (take_body data x) < length data"
    "0 \<le> content_length (parser (take_body data x))"
  using assms by (auto simp: exec_ok_def pos_take_body content_length_take_body)

lemma take_body_simps:
  "header_field_mark (take_body data x) = header_field_mark x"
  "header_value_mark (take_body data x) = header_value_mark x"
  "url_mark (take_body data x) = url_mark x" "reason_mark (take_body data x) = reason_mark x"
  "body_mark (take_body data x) = mark_or (pos x) (body_mark x)"
  "header_data_start (take_body data x) = header_data_start x"
  "perrno (parser (take_body data x)) = perrno (parser x)"
  "flags (parser (take_body data x)) = flags (parser x)"
  by (simp_all add: take_body_def Let_def upd_def)

lemma mark_or_mono: "mark_ok True p m \<Longrightarrow> p \<le> q \<Longrightarrow> mark_ok True q (mark_or p m)"
  by (cases m) simp_all

lemma safe_body:
  assumes x: "exec_ok data x" and "st x \<in> set [s_body_identity, s_body_identity_eof, s_message_done]"
  shows "safe data (step_body S data x)"
proof -
  consider "st x = s_body_identity" | "st x = s_body_identity_eof" | "st x = s_message_done"
    using assms(2) by auto
  then show ?thesis
  proof cases
    case 1
    then have cl: "0 < content_length (parser x)" using x by (simp add: ok_defs)
    note tb = take_body_ok [OF x cl]
    have m: "mark_ok True (pos (take_body data x)) (mark_or (pos x) (body_mark x))"
      "mark_ok True (Suc (pos (take_body data x))) (mark_or (pos x) (body_mark x))"
      using x 1 tb by (auto simp: ok_defs intro!: mark_or_mono)
    show ?thesis
      using x 1 cl tb m
      by (auto simp: step_body_def Let_def ok_defs pos_take_body(2) take_body_simps intro!: safe_DATA_ER)
  next
    case 2
    then show ?thesis using x
      by (auto simp: step_body_def ok_defs elim: mark_or_mono intro!: mark_or_mono)
  next
    case 3
    then show ?thesis using x
      by (auto simp: step_body_def new_message_def ok_defs start_state_def intro!: safe_NOTIFY)
  qed
qed

lemma safe_chunk_size:
  assumes x: "exec_ok data x" and st: "st x \<in> set [s_chunk_size_start, s_chunk_size, s_chunk_parameters]"
  shows "safe data (step_chunk_size x)"
proof -
  have range: "UNHEX (ch x) \<noteq> -1 \<Longrightarrow> 0 \<le> UNHEX (ch x)" using UNHEX_range [of "ch x"] by linarith
  have num: "\<exists>v. add_digit64 16 (content_length (parser x)) (UNHEX (ch x)) = Some v \<and> 0 \<le> v"
    if "st x = s_chunk_size" "UNHEX (ch x) \<noteq> -1" "content_length (parser x) \<le> (INT64_MAX - UNHEX (ch x)) div 16"
    using that x range by (intro add_digit64_ok(2)) (auto simp: ok_defs)
  then show ?thesis
    using x st range
    by (cases "st x") (auto simp: step_chunk_size_def Let_def ok_defs safe_error)
qed

lemma safe_chunk_data:
  assumes x: "exec_ok data x"
    and "st x \<in> set [s_chunk_size_almost_done, s_chunk_data, s_chunk_data_almost_done, s_chunk_data_done]"
  shows "safe data (step_chunk_data S data x)"
proof (cases "st x = s_chunk_data")
  case True
  then have cl: "0 < content_length (parser x)" using x by (simp add: ok_defs)
  note tb = take_body_ok [OF x cl]
  have m: "mark_ok True (pos (take_body data x)) (mark_or (pos x) (body_mark x))"
    using x True tb by (auto simp: ok_defs intro!: mark_or_mono)
  show ?thesis
    using x True cl tb m
    by (auto simp: step_chunk_data_def Let_def ok_defs pos_take_body(2) take_body_simps)
next
  case False
  then show ?thesis using assms
    by (cases "st x") (auto simp: step_chunk_data_def Let_def ok_defs intro!: safe_NOTIFY safe_DATA)
qed

lemma safe_exec_byte: "exec_ok data x \<Longrightarrow> safe data (exec_byte S data x)"
  by (cases "st x")
    (simp_all add: exec_byte_def safe_start safe_res_version safe_res_status safe_req_start safe_req_method
      safe_url_host safe_url_path safe_url_fragment safe_req_http safe_header_field_start safe_header_field
      safe_header_value_start safe_header_value safe_header_end safe_headers_almost_done safe_headers_done
      safe_body safe_chunk_size safe_chunk_data exec_ok_def [of data x] fields_ok_def)

lemma marks_set_upd: "marks_set (upd f x) = marks_set x"
  by (simp add: marks_set_def upd_def)

lemma marks_exclusive: "marks_ok x \<Longrightarrow> marks_set x \<le> 1"
  by (cases "st x") (simp_all add: marks_ok_def marks_set_def url_state_def body_state_def)

lemma returned_DATA:
  assumes y: "flushable data y" and k: "\<And>z. flushable data z \<Longrightarrow> returned data (k z)"
  shows "returned data (CALLBACK_DATA_NOADVANCE S data ev y k)"
proof -
  have "mark_ok True n (get_mark ev' (set_mark ev None z))" if "mark_ok True n (get_mark ev' z)"
    for ev' n and z :: "'u exec"
    using that by (cases ev; cases ev') simp_all
  then have flush: "flushable data (set_mark ev None (y\<lparr>parser := (parser y)\<lparr>pstate := st y\<rparr>, udata := u\<rparr>))" for u
    using y by (cases ev) (auto simp: flushable_def fields_ok_cong all_data_event)
  show ?thesis
  proof (rule safe_DATA(2))
    show "returned data (k (set_mark ev None (y\<lparr>parser := (parser y)\<lparr>pstate := st y\<rparr>, udata := u\<rparr>)))" for u
      by (rule k) (rule flush)
  qed (use y in \<open>auto simp: flushable_def\<close>)
qed

lemma returned_finish:
  assumes "perrno (parser x) = HPE_OK" "pos x = length data" "fields_ok (st x) (parser x)" "marks_ok x"
  shows "returned data (finish S data x)"
proof -
  let ?x1 = "if PARSING_HEADER (st x)
    then upd (\<lambda>ps. ps\<lparr>nread := (nread ps + (pos x - header_data_start x)) mod 2 ^ 32\<rparr>) x else x"
  have "mark_ok True (pos x) m" if "mark_ok b (pos x) m" for b m
    using that by (cases m; cases b) simp_all
  then have "flushable data ?x1"
    using assms by (auto simp: flushable_def upd_def fields_ok_cong marks_ok_def all_data_event)
  moreover have "\<not> marks_set ?x1 > 1"
    using marks_exclusive [OF assms(4)] by (simp add: marks_set_upd)
  moreover have "returned data (RETURN (length data) z)" if "flushable data z" for z :: "'u exec"
    using that by (simp add: flushable_def parser_ok_def fields_ok_cong)
  ultimately show ?thesis
    unfolding finish_def Let_def using assms
    by (intro safe_if safe_error(2)) (auto intro!: returned_DATA simp: upd_def)
qed

lemma exec_ok_next:
  assumes "exec_ok data y" and "pos y + 1 < length data"
  shows "exec_ok data (y\<lparr>pos := pos y + 1, ch := c\<rparr>)"
  using exec_ok_pos(2) [OF assms(1) _ assms(2)] by simp

lemma returned_run: "S' = S \<Longrightarrow> exec_ok data x \<Longrightarrow> returned data (run S' data x)"
proof (induction S' data x rule: run.induct)
  case (1 S' data x)
  note run.simps [of S data x, simp] and \<open>S' = S\<close> [simp]
  have step: "safe data (exec_byte S data x)" using 1(4) by (rule safe_exec_byte)
  show ?case
  proof (cases "exec_byte S data x")
    case (Break y)
    with step have y: "exec_ok data y" by simp
    then have "pos y + 1 \<le> length data" by (simp add: exec_ok_def)
    moreover have "returned data (finish S data (y\<lparr>pos := length data\<rparr>))" if "pos y + 1 = length data"
      using y that
      by (intro returned_finish) (auto simp: exec_ok_def marks_ok_def elim!: mark_ok_mono)
    moreover have "returned data (run S data (y\<lparr>pos := pos y + 1, ch := data ! (pos y + 1)\<rparr>))"
      if "pos y + 1 < length data"
      using 1(1) [of y "pos y + 1"] Break that exec_ok_next [OF y that] by simp
    ultimately show ?thesis using Break by (auto simp: Let_def)
  next
    case (Reexecute y)
    with step 1(2) [of y] show ?thesis by simp
  next
    case (Return n y)
    with step show ?thesis by simp
  next
    case Fault
    with step show ?thesis by simp
  qed
qed

lemma initial_exec_ok:
  assumes "parser_ok ps" "perrno ps = HPE_OK" "data \<noteq> []"
  shows "exec_ok data (initial_exec data ps u)"
  using assms by (auto simp: initial_exec_def exec_ok_def parser_ok_def marks_ok_def url_state_def)

lemma execute_safe:
  assumes "parser_ok ps"
  shows "\<exists>n ps' u'. http_parser_execute S data ps u = Some (n, ps', u') \<and> parser_ok ps'
     \<and> (n \<le> length data \<or> data = [] \<and> n = 1 \<and> perrno ps' = HPE_INVALID_EOF_STATE)"
proof -
  have ret: "\<exists>n ps' u'. result_of r = Some (n, ps', u') \<and> parser_ok ps' \<and> n \<le> length data"
    if "returned data r" for r :: "'u outcome"
    using that by (cases r) (simp_all add: result_of_def)
  consider "perrno ps \<noteq> HPE_OK" | "perrno ps = HPE_OK" "data = []" | "perrno ps = HPE_OK" "data \<noteq> []"
    by blast
  then show ?thesis
  proof cases
    case 1
    have "returned data (RETURN 0 (initial_exec data ps u))"
      using assms by (simp add: parser_ok_def initial_exec_def)
    from ret [OF this] 1 show ?thesis by (auto simp: http_parser_execute_def Let_def)
  next
    case 2
    let ?x = "initial_exec data ps u"
    have f: "fields_ok (pstate ps) ps" using 2 assms by (simp add: parser_ok_def)
    have run0: "http_parser_execute S data ps u = result_of (at_eof S ?x)"
      using 2 by (simp add: http_parser_execute_def)
    have "returned data (CALLBACK_NOTIFY_NOADVANCE S N_message_complete ?x (RETURN 0))"
      using 2 f by (intro safe_NOTIFY) (simp_all add: initial_exec_def parser_ok_def fields_ok_cong)
    moreover have "returned data (RETURN 0 ?x)" using f by (simp add: parser_ok_def initial_exec_def)
    moreover have "at_eof S ?x \<in> {CALLBACK_NOTIFY_NOADVANCE S N_message_complete ?x (RETURN 0), RETURN 0 ?x,
        RETURN 1 (SET_ERRNO HPE_INVALID_EOF_STATE ?x)}"
      by (simp add: at_eof_def)
    moreover have "\<exists>ps' u'. result_of (RETURN 1 (SET_ERRNO HPE_INVALID_EOF_STATE ?x)) = Some (1, ps', u')
        \<and> perrno ps' = HPE_INVALID_EOF_STATE"
      by (simp add: result_of_def RETURN_def SET_ERRNO_def upd_def)
    ultimately show ?thesis
      using ret run0 2 by (fastforce simp: parser_ok_def)
  next
    case 3
    from ret [OF returned_run [OF refl initial_exec_ok [OF assms 3, of u]]] 3
    show ?thesis by (auto simp: http_parser_execute_def Let_def)
  qed
qed

end

end
