(* ===== verification/HttpKeep.thy ===== *)
theory HttpKeep
  imports HttpSafe
begin

text \<open>
  What the callbacks keep of the user's object, the parser keeps: the parser touches the object
  only through the callbacks. Two predicates are followed through \<^verbatim>\<open>http_parser_execute\<close>: \<open>I\<close>, which
  every callback preserves, and \<open>J\<close>, which \<^verbatim>\<open>on_headers_complete\<close> establishes and which holds from
  then on. In particular \<open>J\<close> holds whenever \<^verbatim>\<open>on_message_complete\<close> is called: no message is
  completed before its headers are.
\<close>

definition after_headers :: "http_state \<Rightarrow> http_flag set \<Rightarrow> bool" where
  "after_headers s fl \<longleftrightarrow> F_TRAILING \<in> fl \<or> s \<in> set [s_headers_done, s_chunk_size_start, s_chunk_size,
     s_chunk_parameters, s_chunk_size_almost_done, s_chunk_data, s_chunk_data_almost_done,
     s_chunk_data_done, s_body_identity, s_body_identity_eof, s_message_done]"
  \<comment> \<open>the states past the header section; the trailing headers of a chunked message are past it too\<close>

definition phase :: "('u \<Rightarrow> bool) \<Rightarrow> ('u \<Rightarrow> bool) \<Rightarrow> 'u exec \<Rightarrow> bool" where
  "phase I J x \<longleftrightarrow> I (udata x) \<and> perrno (parser x) = HPE_OK
     \<and> (after_headers (st x) (flags (parser x)) \<longrightarrow> J (udata x))"

definition at_rest :: "('u \<Rightarrow> bool) \<Rightarrow> ('u \<Rightarrow> bool) \<Rightarrow> http_parser \<Rightarrow> 'u \<Rightarrow> bool" where
  "at_rest I J ps u \<longleftrightarrow> I u \<and> (after_headers (pstate ps) (flags ps) \<longrightarrow> J u)"

definition keeps :: "('u \<Rightarrow> bool) \<Rightarrow> ('u \<Rightarrow> bool) \<Rightarrow> 'u outcome \<Rightarrow> bool" where
  "keeps I J = ends (phase I J) (phase I J) (\<lambda>n x. at_rest I J (parser x) (udata x)) True"

lemma keeps_simps [simp]:
  "keeps I J (Break x) = phase I J x" "keeps I J (Reexecute x) = phase I J x"
  "keeps I J (Return n x) = at_rest I J (parser x) (udata x)" "keeps I J Fault"
  by (simp_all add: keeps_def)

lemma keeps_stop:
  assumes "I (udata x)" and "after_headers (st x) (flags (parser x)) \<Longrightarrow> J (udata x)"
  shows "keeps I J (RETURN n x)" "keeps I J (goto_error x)" "keeps I J (fail e x)"
  using assms by (auto simp: keeps_def RETURN_def goto_error_def fail_def SET_ERRNO_def upd_def at_rest_def)

lemma keeps_if: "(b \<Longrightarrow> keeps I J r) \<Longrightarrow> (\<not> b \<Longrightarrow> keeps I J q) \<Longrightarrow> keeps I J (if b then r else q)"
  by simp

lemma udata_set_mark [simp]: "udata (set_mark ev m x) = udata x" "parser (set_mark ev m x) = parser x"
  by (cases ev; simp)+

lemmas phase_defs = phase_def after_headers_def upd_def

locale http_phases = http_callbacks S for S :: "'u http_parser_settings" +
  fixes I J :: "'u \<Rightarrow> bool"
  assumes notify_keeps: "perrno ps = HPE_OK \<Longrightarrow> I u \<Longrightarrow> nev = N_message_complete \<longrightarrow> J u \<Longrightarrow>
      I (snd (snd (notify_cb nev S ps u)))"
    and notify_after: "perrno ps = HPE_OK \<Longrightarrow> J u \<Longrightarrow> J (snd (snd (notify_cb nev S ps u)))"
    and data_keeps: "I u \<Longrightarrow> I (snd (snd (data_cb dev S ps d u)))"
    and data_after: "J u \<Longrightarrow> J (snd (snd (data_cb dev S ps d u)))"
    and headers_keeps: "I u \<Longrightarrow> I (snd (snd (on_headers_complete S ps n u)))"
    and headers_after: "J (snd (snd (on_headers_complete S ps n u)))"
begin

lemma keeps_after:
  assumes "polite ((parser y)\<lparr>pstate := st y\<rparr>) res" and "perrno (parser y) = HPE_OK"
    and "I (snd (snd res))" and "after_headers (st y) (flags (parser y)) \<longrightarrow> J (snd (snd res))"
    and k: "\<And>z. st z = st y \<Longrightarrow> flags (parser z) = flags (parser y) \<Longrightarrow> perrno (parser z) = HPE_OK \<Longrightarrow>
      udata z = snd (snd res) \<Longrightarrow> keeps I J (k z)"
  shows "keeps I J (after_callback e er res y k)"
proof -
  obtain r ps u where res: "res = (r, ps, u)" by (cases res)
  with assms(1) obtain e' where ps: "ps = (parser y)\<lparr>pstate := st y\<rparr>\<lparr>perrno := e'\<rparr>"
    unfolding polite_def by auto
  show ?thesis
    using assms(2-4) by (auto simp: after_callback_def res Let_def ps at_rest_def intro!: k)
qed

lemma keeps_callback:
  assumes "I (udata y)" and "after_headers (st y) (flags (parser y)) \<longrightarrow> J (udata y)"
    and k: "\<And>z. st z = st y \<Longrightarrow> flags (parser z) = flags (parser y) \<Longrightarrow> perrno (parser z) = HPE_OK \<Longrightarrow>
      I (udata z) \<Longrightarrow> (J (udata y) \<Longrightarrow> J (udata z)) \<Longrightarrow> keeps I J (k z)"
  shows "(ev = N_message_complete \<longrightarrow> J (udata y)) \<Longrightarrow> keeps I J (CALLBACK_NOTIFY_ER S ev er y k)"
    and "keeps I J (CALLBACK_DATA_ER S data dev stop er y k)"
    and "perrno (parser y) = HPE_OK \<Longrightarrow> keeps I J (CALLBACK_SPACE S y k)"
proof -
  show "keeps I J (CALLBACK_NOTIFY_ER S ev er y k)" if "ev = N_message_complete \<longrightarrow> J (udata y)"
    using assms that
    by (auto simp: CALLBACK_NOTIFY_ER_def Let_def intro!: keeps_after notify_polite k notify_keeps notify_after)
  show "keeps I J (CALLBACK_DATA_ER S data dev stop er y k)"
    using assms
    by (auto simp: CALLBACK_DATA_ER_def Let_def intro!: keeps_after data_polite k data_keeps data_after
        split: option.split)
  show "keeps I J (CALLBACK_SPACE S y k)" if "perrno (parser y) = HPE_OK"
    using assms that data_keeps [of _ D_header_value] data_after [of _ D_header_value]
      data_polite [of _ D_header_value]
    by (auto simp: CALLBACK_SPACE_def intro!: keeps_after k)
qed

lemma keeps_start: "phase I J x \<Longrightarrow> keeps I J (step_start S x)"
  by (cases "st x")
    (auto simp: step_start_def Let_def callback_defs phase_defs set_no_body_def intro!: keeps_callback keeps_stop)

lemma keeps_version:
  assumes "phase I J x" and "\<not> after_headers s (flags (parser x)) \<or> J (udata x)"
  shows "keeps I J (first_major s x)" "keeps I J (more_major s x)"
    "keeps I J (first_minor s x)" "keeps I J (more_minor x)"
  using assms by (auto simp: first_major_def more_major_def first_minor_def more_minor_def Let_def
      phase_def upd_def intro!: keeps_stop)

lemma keeps_res:
  assumes "phase I J x"
  shows "st x \<in> set [s_res_H, s_res_HT, s_res_HTT, s_res_HTTP, s_res_first_http_major, s_res_http_major,
      s_res_first_http_minor, s_res_http_minor] \<Longrightarrow> keeps I J (step_res_version x)"
    and "keeps I J (step_res_status S data x)"
proof -
  show "keeps I J (step_res_version x)" if "st x \<in> set [s_res_H, s_res_HT, s_res_HTT, s_res_HTTP,
      s_res_first_http_major, s_res_http_major, s_res_first_http_minor, s_res_http_minor]"
    using assms that
    by (cases "st x"; simp add: step_res_version_def)
      (auto intro!: keeps_version simp: phase_defs)
  show "keeps I J (step_res_status S data x)"
    using assms
    by (cases "st x"; auto simp: step_res_status_def Let_def callback_defs phase_defs
        intro!: keeps_callback keeps_stop)
qed

lemma phase_same:
  assumes "phase I J x" and "flags (f (parser x)) = flags (parser x)" and "perrno (f (parser x)) = perrno (parser x)"
  shows "phase I J (upd f x)"
  using assms by (simp add: phase_def upd_def)

lemma phase_stop:
  assumes "phase I J x"
  shows "keeps I J (RETURN n x)" "keeps I J (goto_error x)" "keeps I J (fail e x)"
  using assms by (auto simp: phase_def intro!: keeps_stop)

lemma keeps_req:
  assumes "phase I J x"
  shows "keeps I J (step_req_start S x)"
    and "st x = s_req_method \<Longrightarrow> keeps I J (step_req_method x)"
proof -
  show "keeps I J (step_req_start S x)"
    using assms
    by (cases "st x") (auto simp: step_req_start_def Let_def callback_defs phase_defs set_no_body_def
        intro!: keeps_callback keeps_stop split: option.split)
next
  assume st: "st x = s_req_method"
  have m: "keeps I J (with_method m x)" for m
    using assms by (auto simp: with_method_def next_index_def intro!: phase_same)
  have b: "phase I J (next_index (x\<lparr>st := s_req_spaces_before_url\<rparr>))" "phase I J (next_index x)"
    using assms st by (auto simp: next_index_def phase_defs)
  show "keeps I J (step_req_method x)"
    unfolding step_req_method_def Let_def
    by (cases "c_string_at (method_strings (pmethod (parser x))) (pindex (parser x))")
      (simp_all only: option.case, (intro keeps_if m phase_stop assms; simp add: b)+)
qed

lemma keeps_url:
  assumes "phase I J x"
  shows "keeps I J (step_url_host S data x)" "keeps I J (step_url_path S data x)"
    "keeps I J (step_url_fragment S data x)"
    "st x \<in> set [s_req_http_start, s_req_http_H, s_req_http_HT, s_req_http_HTT,
      s_req_http_HTTP, s_req_first_http_major, s_req_http_major, s_req_first_http_minor, s_req_http_minor,
      s_req_line_almost_done] \<Longrightarrow> keeps I J (step_req_http x)"
proof -
  show "keeps I J (step_url_host S data x)"
    using assms by (cases "st x"; auto simp: step_url_host_def Let_def callback_defs phase_defs
        intro!: keeps_callback keeps_stop)
  show "keeps I J (step_url_path S data x)"
    using assms by (cases "st x"; auto simp: step_url_path_def Let_def callback_defs phase_defs http_0_9_def
        intro!: keeps_callback keeps_stop)
  show "keeps I J (step_url_fragment S data x)"
    using assms by (cases "st x"; auto simp: step_url_fragment_def Let_def callback_defs phase_defs http_0_9_def
        intro!: keeps_callback keeps_stop)
  show "keeps I J (step_req_http x)" if "st x \<in> set [s_req_http_start, s_req_http_H, s_req_http_HT,
      s_req_http_HTT, s_req_http_HTTP, s_req_first_http_major, s_req_http_major, s_req_first_http_minor,
      s_req_http_minor, s_req_line_almost_done]"
    using assms that
    by (cases "st x"; simp add: step_req_http_def)
      (auto intro!: keeps_version keeps_stop simp: phase_defs)
qed

lemma keeps_notatoken:
  assumes "phase I J x" and "st x = s_header_field"
  shows "keeps I J (notatoken S data x)"
  using assms
  by (auto simp: notatoken_def Let_def callback_defs phase_defs intro!: keeps_callback keeps_stop split: option.split)

lemma phase_pos: "phase I J x \<Longrightarrow> phase I J (x\<lparr>pos := p\<rparr>)" "phase I J x \<Longrightarrow> phase I J (x\<lparr>pos := p, ch := c\<rparr>)"
    "phase I J x \<Longrightarrow> phase I J (x\<lparr>ch := c\<rparr>)"
  by (simp_all add: phase_def)

lemma phase_hs: "phase I J x \<Longrightarrow> phase I J (set_hs h x)" "phase I J x \<Longrightarrow> phase I J (upd (match_word w h c) x)"
  by (simp add: set_hs_def phase_same) (rule phase_same; simp add: match_word_def Let_def)

lemma keeps_header_field:
  assumes "phase I J x"
  shows "st x = s_header_field_start \<Longrightarrow> keeps I J (step_header_field_start x)"
    and "st x = s_header_field \<Longrightarrow> keeps I J (step_header_field S data x)"
proof -
  show "keeps I J (step_header_field_start x)" if "st x = s_header_field_start"
    using assms that
    by (auto simp: step_header_field_start_def Let_def phase_defs set_hs_def intro!: keeps_stop)
  show "keeps I J (step_header_field S data x)" if "st x = s_header_field"
    using assms that
    by (cases "header_state (parser x)"; auto simp: step_header_field_def Let_def
        split: option.split intro!: keeps_notatoken phase_pos phase_hs)
qed

lemma keeps_header_value:
  assumes x: "phase I J x"
  shows "st x = s_header_value_start \<Longrightarrow> keeps I J (step_header_value_start S data x)"
    and "st x = s_header_value \<Longrightarrow> keeps I J (step_header_value S data x)"
proof -
  assume st: "st x = s_header_value_start"
  then show "keeps I J (step_header_value_start S data x)"
    unfolding step_header_value_start_def Let_def
    by (cases "header_state (parser x)"; simp only: header_states.case; intro keeps_if)
      (use x in \<open>auto simp: callback_defs phase_defs set_hs_def SET_ERRNO_def intro!: keeps_callback keeps_stop\<close>)
next
  assume st: "st x = s_header_value"
  have "phase I J ((set_hs h_general x)\<lparr>st := s_header_value\<rparr>)"
    using x st by (simp add: phase_defs set_hs_def)
  then have "keeps I J (value_switch data x)"
    unfolding value_switch_def Let_def
    by (cases "header_state (parser x)"; simp only: header_states.case)
      (use x in \<open>auto intro!: phase_pos phase_hs phase_stop intro: phase_same split: option.split\<close>)
  then show "keeps I J (step_header_value S data x)"
    unfolding step_header_value_def Let_def using x st
    by (auto simp: callback_defs phase_defs intro!: keeps_callback keeps_stop)
qed

lemma keeps_headers_end:
  assumes x: "phase I J x"
  shows "keeps I J (step_header_end S x)"
    and "st x = s_headers_almost_done \<Longrightarrow> keeps I J (step_headers_almost_done S x)"
    and "st x = s_headers_done \<Longrightarrow> keeps I J (step_headers_done S x)"
proof -
  show "keeps I J (step_header_end S x)"
    using x by (cases "st x") (auto simp: step_header_end_def Let_def phase_defs intro!: keeps_callback)
  show "keeps I J (step_headers_done S x)" if "st x = s_headers_done"
    using x that
    by (auto simp: step_headers_done_def Let_def callback_defs phase_defs start_state_def
        intro!: keeps_callback keeps_stop)
  let ?x1 = "(upd (\<lambda>ps. ps\<lparr>upgrade := (F_UPGRADE \<in> flags ps \<or> pmethod ps = HTTP_CONNECT)\<rparr>) x)
    \<lparr>st := s_headers_done\<rparr>"
  obtain r ps u where res: "on_headers_complete S (parser ?x1) (pos x + 1) (udata ?x1) = (r, ps, u)"
    by (cases "on_headers_complete S (parser ?x1) (pos x + 1) (udata ?x1)") auto
  then have u: "I u" "J u"
    using headers_keeps [of "udata ?x1" "parser ?x1" "pos x + 1"] x
      headers_after [of "parser ?x1" "pos x + 1" "udata ?x1"] by (simp_all add: phase_defs)
  assume st: "st x = s_headers_almost_done"
  show "keeps I J (step_headers_almost_done S x)"
    using x st u unfolding step_headers_almost_done_def Let_def res prod.case
    by (intro keeps_if)
      (auto simp: callback_defs phase_defs SET_ERRNO_def intro!: keeps_callback keeps_stop)
qed

lemma keeps_body:
  assumes x: "phase I J x"
  shows "keeps I J (step_body S data x)" and "keeps I J (step_chunk_size x)"
    and "keeps I J (step_chunk_data S data x)"
proof -
  have tb: "udata (take_body data x) = udata x" "flags (parser (take_body data x)) = flags (parser x)"
    "perrno (parser (take_body data x)) = perrno (parser x)" "st (take_body data x) = st x"
    by (simp_all add: take_body_def Let_def upd_def)
  show "keeps I J (step_body S data x)"
    using x tb by (cases "st x"; auto simp: step_body_def Let_def callback_defs phase_defs start_state_def
        intro!: keeps_callback keeps_stop)
  show "keeps I J (step_chunk_size x)"
    using x by (cases "st x"; auto simp: step_chunk_size_def Let_def phase_defs intro!: keeps_stop split: option.split)
  show "keeps I J (step_chunk_data S data x)"
    using x tb by (cases "st x"; auto simp: step_chunk_data_def Let_def callback_defs phase_defs
        intro!: keeps_callback keeps_stop)
qed

lemma keeps_byte: "phase I J x \<Longrightarrow> keeps I J (exec_byte S data x)"
  by (cases "st x")
    (simp_all add: exec_byte_def keeps_start keeps_res keeps_req keeps_url keeps_header_field
      keeps_header_value keeps_headers_end keeps_body)

lemma keeps_flush:
  assumes "phase I J y" and "\<And>z. phase I J z \<Longrightarrow> keeps I J (k z)"
  shows "keeps I J (CALLBACK_DATA_NOADVANCE S data ev y k)"
  unfolding CALLBACK_DATA_NOADVANCE_def using assms
  by (intro keeps_callback) (auto simp: phase_def)

lemma keeps_finish: "phase I J x \<Longrightarrow> keeps I J (finish S data x)"
  unfolding finish_def Let_def
  by (intro keeps_if keeps_flush phase_stop) (auto simp: phase_def upd_def intro!: keeps_stop)

lemma keeps_run: "S' = S \<Longrightarrow> phase I J x \<Longrightarrow> keeps I J (run S' data x)"
proof (induction S' data x rule: run.induct)
  case (1 S' data x)
  note k = keeps_byte [OF "1.prems"(2), of data]
  show ?case
  proof (cases "exec_byte S data x")
    case (Break y)
    then show ?thesis
      using 1 k by (subst run.simps) (auto simp: Let_def intro!: keeps_finish phase_pos)
  next
    case (Reexecute y)
    then show ?thesis using 1 k by (subst run.simps) simp
  qed (use 1 k in \<open>subst run.simps, simp\<close>)+
qed

lemma execute_keeps:
  assumes "at_rest I J ps u" and "http_parser_execute S data ps u = Some (n, ps', u')"
  shows "at_rest I J ps' u'"
proof -
  have res: "at_rest I J ps' u'" if "keeps I J r" "result_of r = Some (n, ps', u')" for r
    using that by (cases r) (auto simp: result_of_def)
  let ?x = "initial_exec data ps u"
  have x: "udata ?x = u" "parser ?x = ps" "st ?x = pstate ps" by (simp_all add: initial_exec_def)
  have "keeps I J (RETURN 0 ?x)" "keeps I J (RETURN 1 (SET_ERRNO e ?x))" for e
    using assms x by (auto simp: at_rest_def SET_ERRNO_def upd_def intro!: keeps_stop)
  moreover have "phase I J ?x" if "perrno ps = HPE_OK" using assms x that by (simp add: phase_def at_rest_def)
  moreover have "keeps I J (CALLBACK_NOTIFY_NOADVANCE S N_message_complete ?x (RETURN 0))"
    if "pstate ps = s_body_identity_eof"
    using assms x that
    by (auto simp: callback_defs at_rest_def after_headers_def intro!: keeps_callback keeps_stop)
  ultimately show ?thesis
    using assms(2) x
    by (auto simp: http_parser_execute_def at_eof_def Let_def simp del: keeps_simps
        intro: res keeps_run split: if_splits)
qed

end

end
