(* ===== verification/HttpUrl.thy ===== *)
theory HttpUrl
  imports HttpTypes
begin

text \<open>
  The URL parser of \<^verbatim>\<open>src/evpp/evpphttp/http_parser_cpp.cc\<close>: \<^verbatim>\<open>parse_url_char\<close>,
  \<^verbatim>\<open>http_parse_host_char\<close>, \<^verbatim>\<open>http_parse_host\<close> and \<^verbatim>\<open>http_parser_parse_url\<close>, with the result structure
  \<^verbatim>\<open>struct http_parser_url\<close>. An entry of \<^verbatim>\<open>field_data\<close> that has not been written yet is \<open>None\<close>, and
  reading it is a fault; offsets and lengths have 16 bits.
\<close>

section \<open>Data\<close>

datatype url_field = UF_SCHEMA | UF_HOST | UF_PORT | UF_PATH | UF_QUERY | UF_FRAGMENT | UF_USERINFO | UF_MAX

record http_parser_url =
  field_set :: "url_field set"
  port :: nat
  field_data :: "url_field \<Rightarrow> (nat \<times> nat) option"

datatype http_host_state =
    s_http_host_dead | s_http_userinfo_start | s_http_userinfo | s_http_host_start
  | s_http_host_v6_start | s_http_host | s_http_host_v6 | s_http_host_v6_end
  | s_http_host_port_start | s_http_host_port

section \<open>One character of a URL\<close>

definition parse_url_char :: "http_state \<Rightarrow> byte \<Rightarrow> http_state" where
  "parse_url_char s c =
     (if c = SP \<or> c = CR \<or> c = LF then s_dead
      else case s of
        s_req_spaces_before_url \<Rightarrow>
          (if c = CHR ''/'' \<or> c = CHR ''*'' then s_req_path
           else if IS_ALPHA c then s_req_schema else s_dead)
      | s_req_schema \<Rightarrow>
          (if IS_ALPHA c then s_req_schema else if c = CHR '':'' then s_req_schema_slash else s_dead)
      | s_req_schema_slash \<Rightarrow> (if c = CHR ''/'' then s_req_schema_slash_slash else s_dead)
      | s_req_schema_slash_slash \<Rightarrow> (if c = CHR ''/'' then s_req_server_start else s_dead)
      | s_req_server_with_at \<Rightarrow>
          (if c = CHR ''@'' then s_dead
           else if c = CHR ''/'' then s_req_path
           else if c = CHR ''?'' then s_req_query_string_start
           else if IS_USERINFO_CHAR c \<or> c = CHR ''['' \<or> c = CHR '']'' then s_req_server else s_dead)
      | s_req_server_start \<Rightarrow>
          (if c = CHR ''/'' then s_req_path
           else if c = CHR ''?'' then s_req_query_string_start
           else if c = CHR ''@'' then s_req_server_with_at
           else if IS_USERINFO_CHAR c \<or> c = CHR ''['' \<or> c = CHR '']'' then s_req_server else s_dead)
      | s_req_server \<Rightarrow>
          (if c = CHR ''/'' then s_req_path
           else if c = CHR ''?'' then s_req_query_string_start
           else if c = CHR ''@'' then s_req_server_with_at
           else if IS_USERINFO_CHAR c \<or> c = CHR ''['' \<or> c = CHR '']'' then s_req_server else s_dead)
      | s_req_path \<Rightarrow>
          (if IS_URL_CHAR c then s_req_path
           else if c = CHR ''?'' then s_req_query_string_start
           else if c = CHR ''#'' then s_req_fragment_start else s_dead)
      | s_req_query_string_start \<Rightarrow>
          (if IS_URL_CHAR c then s_req_query_string
           else if c = CHR ''?'' then s_req_query_string
           else if c = CHR ''#'' then s_req_fragment_start else s_dead)
      | s_req_query_string \<Rightarrow>
          (if IS_URL_CHAR c then s_req_query_string
           else if c = CHR ''?'' then s_req_query_string
           else if c = CHR ''#'' then s_req_fragment_start else s_dead)
      | s_req_fragment_start \<Rightarrow>
          (if IS_URL_CHAR c then s_req_fragment
           else if c = CHR ''?'' then s_req_fragment
           else if c = CHR ''#'' then s_req_fragment_start else s_dead)
      | s_req_fragment \<Rightarrow>
          (if IS_URL_CHAR c then s_req_fragment
           else if c = CHR ''?'' \<or> c = CHR ''#'' then s_req_fragment else s_dead)
      | _ \<Rightarrow> s_dead)"

section \<open>Fields\<close>

definition set_field :: "url_field \<Rightarrow> nat \<Rightarrow> nat \<Rightarrow> http_parser_url \<Rightarrow> http_parser_url" where
  "set_field uf off len u = u\<lparr>field_data := (field_data u)(uf := Some (off mod 2 ^ 16, len mod 2 ^ 16))\<rparr>"

definition inc_len :: "url_field \<Rightarrow> http_parser_url \<Rightarrow> http_parser_url option" where
  "inc_len uf u = do { (off, len) \<leftarrow> field_data u uf; Some (set_field uf off (len + 1) u) }"

definition mark_field :: "url_field \<Rightarrow> http_parser_url \<Rightarrow> http_parser_url" where
  "mark_field uf u = u\<lparr>field_set := insert uf (field_set u)\<rparr>"

definition url_field_of :: "http_state \<Rightarrow> url_field option" where
  "url_field_of s = (case s of
     s_req_schema \<Rightarrow> Some UF_SCHEMA
   | s_req_server_with_at \<Rightarrow> Some UF_HOST
   | s_req_server \<Rightarrow> Some UF_HOST
   | s_req_path \<Rightarrow> Some UF_PATH
   | s_req_query_string \<Rightarrow> Some UF_QUERY
   | s_req_fragment \<Rightarrow> Some UF_FRAGMENT
   | _ \<Rightarrow> None)"

section \<open>The host part\<close>

definition http_parse_host_char :: "http_host_state \<Rightarrow> byte \<Rightarrow> http_host_state" where
  "http_parse_host_char s c = (case s of
     s_http_userinfo \<Rightarrow>
       (if c = CHR ''@'' then s_http_host_start
        else if IS_USERINFO_CHAR c then s_http_userinfo else s_http_host_dead)
   | s_http_userinfo_start \<Rightarrow>
       (if c = CHR ''@'' then s_http_host_start
        else if IS_USERINFO_CHAR c then s_http_userinfo else s_http_host_dead)
   | s_http_host_start \<Rightarrow>
       (if c = CHR ''['' then s_http_host_v6_start
        else if IS_HOST_CHAR c then s_http_host else s_http_host_dead)
   | s_http_host \<Rightarrow>
       (if IS_HOST_CHAR c then s_http_host
        else if c = CHR '':'' then s_http_host_port_start else s_http_host_dead)
   | s_http_host_v6_end \<Rightarrow> (if c = CHR '':'' then s_http_host_port_start else s_http_host_dead)
   | s_http_host_v6 \<Rightarrow>
       (if c = CHR '']'' then s_http_host_v6_end
        else if IS_HEX c \<or> c = CHR '':'' \<or> c = CHR ''.'' then s_http_host_v6 else s_http_host_dead)
   | s_http_host_v6_start \<Rightarrow>
       (if IS_HEX c \<or> c = CHR '':'' \<or> c = CHR ''.'' then s_http_host_v6 else s_http_host_dead)
   | s_http_host_port \<Rightarrow> (if IS_NUM c then s_http_host_port else s_http_host_dead)
   | s_http_host_port_start \<Rightarrow> (if IS_NUM c then s_http_host_port else s_http_host_dead)
   | s_http_host_dead \<Rightarrow> s_http_host_dead)"

definition host_field :: "http_host_state \<Rightarrow> http_host_state \<Rightarrow> nat \<Rightarrow> http_parser_url \<Rightarrow> http_parser_url option" where
  "host_field s new_s p u = (case new_s of
     s_http_host \<Rightarrow> do {
       (off, len) \<leftarrow> field_data u UF_HOST;
       Some (set_field UF_HOST (if s \<noteq> s_http_host then p else off) (len + 1) u) }
   | s_http_host_v6 \<Rightarrow> do {
       (off, len) \<leftarrow> field_data u UF_HOST;
       Some (set_field UF_HOST (if s \<noteq> s_http_host_v6 then p else off) (len + 1) u) }
   | s_http_host_port \<Rightarrow>
       inc_len UF_PORT (if s \<noteq> s_http_host_port then mark_field UF_PORT (set_field UF_PORT p 0 u) else u)
   | s_http_userinfo \<Rightarrow>
       inc_len UF_USERINFO
         (if s \<noteq> s_http_userinfo then mark_field UF_USERINFO (set_field UF_USERINFO p 0 u) else u)
   | _ \<Rightarrow> Some u)"

fun parse_host_loop :: "http_host_state \<Rightarrow> nat \<Rightarrow> byte list \<Rightarrow> http_parser_url \<Rightarrow>
    (http_host_state \<times> http_parser_url) option" where
  "parse_host_loop s p [] u = Some (s, u)"
| "parse_host_loop s p (c # cs) u =
     (let new_s = http_parse_host_char s c
      in if new_s = s_http_host_dead then Some (s_http_host_dead, u)
         else do { u' \<leftarrow> host_field s new_s p u; parse_host_loop new_s (p + 1) cs u' })"

definition http_parse_host :: "byte list \<Rightarrow> http_parser_url \<Rightarrow> bool \<Rightarrow> (int \<times> http_parser_url) option" where
  "http_parse_host buf u found_at = do {
     (off, len) \<leftarrow> field_data u UF_HOST;
     require (off + len \<le> length buf);
     (s, u') \<leftarrow> parse_host_loop (if found_at then s_http_userinfo_start else s_http_host_start) off
                 (take len (drop off buf)) (set_field UF_HOST off 0 u);
     Some (if s \<in> {s_http_host_dead, s_http_host_start, s_http_host_v6_start, s_http_host_v6,
                   s_http_host_port_start, s_http_userinfo, s_http_userinfo_start}
           then 1 else 0, u') }"

section \<open>The URL\<close>

fun url_loop :: "http_state \<Rightarrow> url_field \<Rightarrow> bool \<Rightarrow> nat \<Rightarrow> byte list \<Rightarrow> http_parser_url \<Rightarrow>
    (bool \<times> bool \<times> http_parser_url) option" where
  "url_loop s old_uf found_at p [] u = Some (False, found_at, u)"
| "url_loop s old_uf found_at p (c # cs) u =
     (let s' = parse_url_char s c
      in if s' = s_dead then Some (True, found_at, u)
         else if s' \<in> {s_req_schema_slash, s_req_schema_slash_slash, s_req_server_start,
                       s_req_query_string_start, s_req_fragment_start}
         then url_loop s' old_uf found_at (p + 1) cs u
         else do {
           uf \<leftarrow> url_field_of s';
           let found_at' = (found_at \<or> s' = s_req_server_with_at);
           u' \<leftarrow> (if uf = old_uf then inc_len uf u else Some (mark_field uf (set_field uf p 1 u)));
           url_loop s' uf found_at' (p + 1) cs u' })"
  \<comment> \<open>the first component of the result is whether the loop returned 1\<close>

definition is_space :: "byte \<Rightarrow> bool" where
  "is_space c \<longleftrightarrow> c = SP \<or> (9 \<le> code_of c \<and> code_of c \<le> 13)"

definition digits_value :: "byte list \<Rightarrow> nat" where
  "digits_value s = foldl (\<lambda>n c. n * 10 + digit c) 0 (takeWhile IS_NUM s)"

definition strtoul10 :: "byte list \<Rightarrow> nat" where
  "strtoul10 s =
     (let t = dropWhile is_space s;
          neg = (t \<noteq> [] \<and> hd t = CHR ''-'');
          d = (if t \<noteq> [] \<and> (hd t = CHR ''-'' \<or> hd t = CHR ''+'') then tl t else t);
          v = digits_value d
      in if v \<ge> 2 ^ 64 then 2 ^ 64 - 1 else if neg \<and> v \<noteq> 0 then 2 ^ 64 - v else v)"

definition http_parser_parse_url :: "byte list \<Rightarrow> bool \<Rightarrow> http_parser_url \<Rightarrow> (int \<times> http_parser_url) option" where
  "http_parser_parse_url buf is_connect u0 = do {
     let u = u0\<lparr>port := 0, field_set := {}\<rparr>;
     (dead, found_at, u1) \<leftarrow> url_loop (if is_connect then s_req_server_start else s_req_spaces_before_url)
                              UF_MAX False 0 buf u;
     if dead then Some (1, u1)
     else do {
       (r, u2) \<leftarrow> (if field_set u1 \<inter> {UF_SCHEMA, UF_HOST} \<noteq> {} then http_parse_host buf u1 found_at
                   else Some (0, u1));
       if r \<noteq> 0 then Some (1, u2)
       else if is_connect \<and> field_set u2 \<noteq> {UF_HOST, UF_PORT} then Some (1, u2)
       else if UF_PORT \<in> field_set u2 then do {
         (off, _) \<leftarrow> field_data u2 UF_PORT;
         require (off \<le> length buf);
         let v = strtoul10 (drop off buf);
         if v > 0xffff then Some (1, u2) else Some (0, u2\<lparr>port := v\<rparr>) }
       else Some (0, u2) } }"

definition url_part :: "url_field \<Rightarrow> byte list \<Rightarrow> http_parser_url \<Rightarrow> byte list option" where
  "url_part uf url u =
     (if uf \<in> field_set u then do {
        (off, len) \<leftarrow> field_data u uf;
        require (off \<le> length url);
        Some (take len (drop off url)) }
      else Some [])"
  \<comment> \<open>\<^verbatim>\<open>std::string(url, off, len)\<close> throws when \<^verbatim>\<open>off\<close> is beyond the end\<close>

section \<open>No fault and fields within the URL\<close>

definition field_within :: "http_parser_url \<Rightarrow> nat \<Rightarrow> url_field \<Rightarrow> bool" where
  "field_within u n uf \<longleftrightarrow> (\<exists>off len. field_data u uf = Some (off, len) \<and> off + len \<le> n)"

definition fields_within :: "http_parser_url \<Rightarrow> nat \<Rightarrow> bool" where
  "fields_within u n \<longleftrightarrow> (\<forall>uf \<in> field_set u. field_within u n uf)"

lemma field_within_mono: "field_within u n uf \<Longrightarrow> n \<le> m \<Longrightarrow> field_within u m uf"
  unfolding field_within_def by (meson le_trans)

lemma fields_within_mono: "fields_within u n \<Longrightarrow> n \<le> m \<Longrightarrow> fields_within u m"
  unfolding fields_within_def using field_within_mono by blast

lemma field_data_set_field [simp]:
  "field_data (set_field uf off len u) uf' =
     (if uf' = uf then Some (off mod 2 ^ 16, len mod 2 ^ 16) else field_data u uf')"
  "field_set (set_field uf off len u) = field_set u"
  by (simp_all add: set_field_def)

lemma field_set_mark_field [simp]: "field_set (mark_field uf u) = insert uf (field_set u)"
    "field_data (mark_field uf u) = field_data u"
  by (simp_all add: mark_field_def)

lemma mod16_le: "a mod 2 ^ 16 \<le> (a :: nat)"
  by simp

lemma field_within_set_field:
  "off + len \<le> n \<Longrightarrow> field_within (set_field uf off len u) n uf"
  unfolding field_within_def using mod16_le [of off] mod16_le [of len]
  by (auto intro: order_trans [OF add_le_mono])

definition server_states :: "http_state set" where
  "server_states = {s_req_server_start, s_req_server, s_req_server_with_at, s_req_path,
     s_req_query_string_start, s_req_query_string, s_req_fragment_start, s_req_fragment}"

lemma parse_url_char_server:
  "s \<in> server_states \<Longrightarrow> parse_url_char s c \<in> {s_dead, s_req_server, s_req_server_with_at, s_req_path,
     s_req_query_string_start, s_req_query_string, s_req_fragment_start, s_req_fragment}"
  unfolding server_states_def
  by (elim insertE emptyE; simp only: parse_url_char_def http_state.case split: if_split; simp)

lemma url_loop_step_ok:
  assumes "field_within u p uf" and "fields_within u p"
  shows "\<exists>u'. inc_len uf u = Some u' \<and> fields_within u' (p + 1) \<and> field_set u' = field_set u
    \<and> field_within u' (p + 1) uf"
proof -
  obtain off len where d: "field_data u uf = Some (off, len)" "off + len \<le> p"
    using assms(1) by (auto simp: field_within_def)
  then have "field_within (set_field uf off (len + 1) u) (p + 1) uf"
    by (intro field_within_set_field) simp
  moreover have "field_within (set_field uf off (len + 1) u) (p + 1) uf'"
    if "uf' \<in> field_set u" "uf' \<noteq> uf" for uf'
    using that assms(2) by (fastforce simp: fields_within_def field_within_def)
  ultimately show ?thesis using d by (auto simp: inc_len_def fields_within_def)
qed

lemma url_loop_ok:
  assumes "s \<in> server_states" and "fields_within u p" and "field_set u \<inter> {UF_SCHEMA, UF_PORT, UF_USERINFO} = {}"
    and "old = UF_MAX \<or> old \<in> field_set u"
  shows "\<exists>dead f u'. url_loop s old found p cs u = Some (dead, f, u') \<and> fields_within u' (p + length cs)
    \<and> field_set u' \<inter> {UF_SCHEMA, UF_PORT, UF_USERINFO} = {}"
  using assms
proof (induction cs arbitrary: s old found p u)
  case Nil
  then show ?case by auto
next
  case (Cons c cs)
  define s' where "s' = parse_url_char s c"
  have mono: "fields_within u (p + 1)" "fields_within u (p + length (c # cs))"
    using fields_within_mono [OF Cons.prems(2)] by simp_all
  consider "s' = s_dead" | "s' \<in> {s_req_query_string_start, s_req_fragment_start}"
    | uf where "url_field_of s' = Some uf" "s' \<in> server_states" "uf \<notin> {UF_SCHEMA, UF_PORT, UF_USERINFO}" "uf \<noteq> UF_MAX" "s' \<noteq> s_dead"
        "s' \<notin> {s_req_schema_slash, s_req_schema_slash_slash, s_req_server_start,
               s_req_query_string_start, s_req_fragment_start}"
    using parse_url_char_server [OF Cons.prems(1), of c]
    by (auto simp: s'_def [symmetric] server_states_def url_field_of_def)
  then show ?case
  proof cases
    case 1
    with mono Cons.prems show ?thesis by (auto simp: s'_def [symmetric])
  next
    case 2
    then have "s' \<in> server_states" by (auto simp: server_states_def)
    from Cons.IH [OF this mono(1) Cons.prems(3,4), of found] 2 show ?thesis
      by (auto simp: s'_def [symmetric])
  next
    case 3
    let ?new = "mark_field uf (set_field uf p 1 u)"
    have new: "fields_within ?new (p + 1)"
      using mono(1) field_within_set_field [of p 1 "p + 1" uf u]
      by (fastforce simp: fields_within_def field_within_def)
    have old: "\<exists>u'. inc_len uf u = Some u' \<and> fields_within u' (p + 1) \<and> field_set u' = field_set u"
      if "uf = old"
      using that Cons.prems 3(4) url_loop_step_ok [of u p uf] by (auto simp: fields_within_def)
    obtain u' where u': "(if uf = old then inc_len uf u else Some ?new) = Some u'"
      "fields_within u' (p + 1)" "uf \<in> field_set u'" "field_set u' \<inter> {UF_SCHEMA, UF_PORT, UF_USERINFO} = {}"
      using new old Cons.prems(3,4) 3(3,4) by (cases "uf = old") auto
    from Cons.IH [OF 3(2) u'(2,4), of uf "found \<or> s' = s_req_server_with_at"] u'(1,3) 3
    show ?thesis by (auto simp: s'_def [symmetric])
  qed
qed

definition host_inv :: "http_host_state \<Rightarrow> http_parser_url \<Rightarrow> nat \<Rightarrow> nat \<Rightarrow> bool" where
  "host_inv s u p n \<longleftrightarrow> fields_within u n
     \<and> (\<exists>off len. field_data u UF_HOST = Some (off, len) \<and> off + len \<le> p
          \<and> (s \<in> {s_http_userinfo_start, s_http_userinfo, s_http_host_start, s_http_host_v6_start} \<longrightarrow> len = 0))
     \<and> (s = s_http_host_port \<longrightarrow> UF_PORT \<in> field_set u)
     \<and> (s = s_http_userinfo \<longrightarrow> UF_USERINFO \<in> field_set u)
     \<and> (UF_PORT \<in> field_set u \<longrightarrow> field_within u p UF_PORT)
     \<and> (UF_USERINFO \<in> field_set u \<longrightarrow> field_within u p UF_USERINFO)"

lemma host_inv_same:
  assumes "host_inv s u p n" and "\<not> (new_s = s_http_host_port)" "\<not> (new_s = s_http_userinfo)"
    and "new_s \<in> {s_http_userinfo_start, s_http_host_start, s_http_host_v6_start} \<Longrightarrow>
      s \<in> {s_http_userinfo_start, s_http_userinfo, s_http_host_start, s_http_host_v6_start}"
  shows "host_inv new_s u (p + 1) n"
  using assms unfolding host_inv_def
  by (auto elim!: field_within_mono)

lemma host_inv_host:
  assumes i: "host_inv s u p n" and d: "field_data u UF_HOST = Some (off, len)"
    and off: "off' = off \<or> off' = p \<and> len = 0" and n: "p + 1 \<le> n"
    and new: "new_s = s_http_host \<or> new_s = s_http_host_v6"
  shows "host_inv new_s (set_field UF_HOST off' (len + 1) u) (p + 1) n"
proof -
  let ?u = "set_field UF_HOST off' (len + 1) u"
  have le: "off' + (len + 1) \<le> p + 1" using i d off by (auto simp: host_inv_def)
  then have h: "field_within ?u (p + 1) UF_HOST" by (rule field_within_set_field)
  have other: "field_within ?u m uf" if "field_within u m uf" "uf \<noteq> UF_HOST" for uf m
    using that by (simp add: field_within_def)
  have "field_within ?u n uf" if "uf \<in> field_set u" for uf
    using that i other h field_within_mono [OF h n] by (cases "uf = UF_HOST") (auto simp: host_inv_def fields_within_def)
  then show ?thesis
    using i h new other field_within_mono [OF other]
    by (auto simp: host_inv_def fields_within_def field_within_def [of _ _ UF_HOST] elim!: field_within_mono)
qed

lemma host_inv_mark:
  assumes i: "host_inv s u p n" and n: "p + 1 \<le> n"
    and uf: "uf = UF_PORT \<and> new_s = s_http_host_port
      \<or> uf = UF_USERINFO \<and> new_s = s_http_userinfo \<and> s \<in> {s_http_userinfo_start, s_http_userinfo}"
    and v: "v = (if s \<noteq> new_s then mark_field uf (set_field uf p 0 u) else u)"
  shows "\<exists>u'. inc_len uf v = Some u' \<and> host_inv new_s u' (p + 1) n"
proof -
  have in_set: "uf \<in> field_set v" using i uf v by (auto simp: host_inv_def)
  have w: "field_within v p uf"
    using i uf v by (auto simp: host_inv_def intro: field_within_set_field simp: field_within_def)
  have other: "field_data v uf' = field_data u uf'" "uf' \<in> field_set v \<longleftrightarrow> uf' \<in> field_set u" if "uf' \<noteq> uf" for uf'
    using that v by auto
  obtain off len where d: "field_data v uf = Some (off, len)" "off + len \<le> p"
    using w by (auto simp: field_within_def)
  let ?u' = "set_field uf off (len + 1) v"
  have h: "field_within ?u' (p + 1) uf" using d(2) by (intro field_within_set_field) simp
  have keep: "field_within ?u' m uf'" if "field_within u m uf'" "uf' \<noteq> uf" for uf' m
    using that other(1) by (simp add: field_within_def)
  have "fields_within ?u' n"
    unfolding fields_within_def
  proof
    fix uf' assume "uf' \<in> field_set ?u'"
    then show "field_within ?u' n uf'"
      using field_within_mono [OF h n] keep [of n uf'] i other(2) [of uf']
      by (cases "uf' = uf") (auto simp: host_inv_def fields_within_def)
  qed
  then have "host_inv new_s ?u' (p + 1) n"
    using i uf h in_set other keep [THEN field_within_mono]
    by (auto simp: host_inv_def)
  then show ?thesis using d by (auto simp: inc_len_def)
qed

lemma host_step_ok:
  assumes i: "host_inv s u p n" and n: "p + 1 \<le> n"
    and new: "new_s = http_parse_host_char s c" "new_s \<noteq> s_http_host_dead"
  shows "\<exists>u'. host_field s new_s p u = Some u' \<and> host_inv new_s u' (p + 1) n"
proof -
  obtain off len where d: "field_data u UF_HOST = Some (off, len)"
    using i by (auto simp: host_inv_def)
  have zero: "len = 0" if "s \<in> {s_http_userinfo_start, s_http_userinfo, s_http_host_start, s_http_host_v6_start}"
    using that i d by (auto simp: host_inv_def)
  show ?thesis
  proof (cases new_s)
    case s_http_host
    then have "s = s_http_host_start \<or> s = s_http_host"
      using new(1) by (cases s) (auto simp: http_parse_host_char_def split: if_splits)
    then have "host_inv new_s (set_field UF_HOST (if s \<noteq> s_http_host then p else off) (len + 1) u) (p + 1) n"
      using s_http_host zero by (intro host_inv_host [OF i d _ n]) auto
    with s_http_host d show ?thesis by (simp add: host_field_def)
  next
    case s_http_host_v6
    then have "s = s_http_host_v6_start \<or> s = s_http_host_v6"
      using new(1) by (cases s) (auto simp: http_parse_host_char_def split: if_splits)
    then have "host_inv new_s (set_field UF_HOST (if s \<noteq> s_http_host_v6 then p else off) (len + 1) u) (p + 1) n"
      using s_http_host_v6 zero by (intro host_inv_host [OF i d _ n]) auto
    with s_http_host_v6 d show ?thesis by (simp add: host_field_def)
  next
    case s_http_host_port
    then show ?thesis
      using host_inv_mark [OF i n, of UF_PORT new_s] by (simp add: host_field_def)
  next
    case s_http_userinfo
    then have "s \<in> {s_http_userinfo_start, s_http_userinfo}"
      using new(1) by (cases s) (auto simp: http_parse_host_char_def split: if_splits)
    with s_http_userinfo show ?thesis
      using host_inv_mark [OF i n, of UF_USERINFO new_s] by (simp add: host_field_def)
  next
    case s_http_host_start
    then have "s \<in> {s_http_userinfo_start, s_http_userinfo}"
      using new(1) by (cases s) (auto simp: http_parse_host_char_def split: if_splits)
    then have "host_inv new_s u (p + 1) n"
      using s_http_host_start by (intro host_inv_same [OF i]) auto
    with s_http_host_start show ?thesis by (simp add: host_field_def)
  next
    case s_http_host_v6_start
    then have "s = s_http_host_start"
      using new(1) by (cases s) (auto simp: http_parse_host_char_def split: if_splits)
    then have "host_inv new_s u (p + 1) n"
      using s_http_host_v6_start by (intro host_inv_same [OF i]) auto
    with s_http_host_v6_start show ?thesis by (simp add: host_field_def)
  next
    case s_http_userinfo_start
    then show ?thesis
      using new(1) by (cases s) (auto simp: http_parse_host_char_def split: if_splits)
  next
    case s_http_host_v6_end
    then have "host_inv new_s u (p + 1) n" by (intro host_inv_same [OF i]) auto
    with s_http_host_v6_end show ?thesis by (simp add: host_field_def)
  next
    case s_http_host_port_start
    then have "host_inv new_s u (p + 1) n" by (intro host_inv_same [OF i]) auto
    with s_http_host_port_start show ?thesis by (simp add: host_field_def)
  next
    case s_http_host_dead
    with new(2) show ?thesis by simp
  qed
qed

lemma parse_host_loop_ok:
  assumes "host_inv s u p n" and "p + length cs \<le> n"
  shows "\<exists>s' u'. parse_host_loop s p cs u = Some (s', u') \<and> fields_within u' n"
  using assms
proof (induction cs arbitrary: s p u)
  case Nil
  then show ?case by (simp add: host_inv_def)
next
  case (Cons c cs)
  define new_s where "new_s = http_parse_host_char s c"
  show ?case
  proof (cases "new_s = s_http_host_dead")
    case True
    then show ?thesis using Cons.prems by (simp add: new_s_def [symmetric] host_inv_def)
  next
    case False
    obtain u' where "host_field s new_s p u = Some u'" "host_inv new_s u' (p + 1) n"
      using host_step_ok [OF Cons.prems(1) _ new_s_def False] Cons.prems(2) by auto
    with Cons.IH [of new_s u' "p + 1"] Cons.prems(2) False show ?thesis
      by (simp add: new_s_def [symmetric])
  qed
qed

lemma http_parse_host_ok:
  assumes u: "fields_within u (length buf)" and h: "UF_HOST \<in> field_set u"
    and fresh: "UF_PORT \<notin> field_set u" "UF_USERINFO \<notin> field_set u"
  shows "\<exists>r u'. http_parse_host buf u found = Some (r, u') \<and> (r = 0 \<or> r = 1) \<and> fields_within u' (length buf)"
proof -
  obtain off len where d: "field_data u UF_HOST = Some (off, len)" "off + len \<le> length buf"
    using u h by (auto simp: fields_within_def field_within_def)
  let ?v = "set_field UF_HOST off 0 u" and ?s = "if found then s_http_userinfo_start else s_http_host_start"
  have "fields_within ?v (length buf)"
    using u d(2) field_within_set_field [of off 0 "length buf" UF_HOST u]
    by (fastforce simp: fields_within_def field_within_def)
  then have "host_inv ?s ?v off (length buf)"
    using fresh mod16_le [of off] by (simp add: host_inv_def)
  then obtain s' u' where "parse_host_loop ?s off (take len (drop off buf)) ?v = Some (s', u')"
    "fields_within u' (length buf)"
    using parse_host_loop_ok [of ?s ?v off "length buf" "take len (drop off buf)"] d(2) by auto
  with d show ?thesis by (simp add: http_parse_host_def)
qed

lemma parse_url_ok:
  "\<exists>r u'. http_parser_parse_url buf True u = Some (r, u') \<and> (r = 0 \<or> r = 1) \<and> fields_within u' (length buf)"
proof -
  have "fields_within (u\<lparr>port := 0, field_set := {}\<rparr>) 0" by (simp add: fields_within_def)
  then obtain dead found u1 where u1: "url_loop s_req_server_start UF_MAX False 0 buf (u\<lparr>port := 0, field_set := {}\<rparr>)
      = Some (dead, found, u1)" "fields_within u1 (length buf)"
      "field_set u1 \<inter> {UF_SCHEMA, UF_PORT, UF_USERINFO} = {}"
    using url_loop_ok [of s_req_server_start "u\<lparr>port := 0, field_set := {}\<rparr>" 0 UF_MAX False buf]
    by (auto simp: server_states_def)
  have "\<exists>r u2. (if field_set u1 \<inter> {UF_SCHEMA, UF_HOST} \<noteq> {} then http_parse_host buf u1 found else Some (0, u1))
      = Some (r, u2) \<and> fields_within u2 (length buf)"
  proof (cases "UF_HOST \<in> field_set u1")
    case True
    then show ?thesis using http_parse_host_ok [OF u1(2) True, of found] u1(3) by auto
  next
    case False
    then show ?thesis using u1 by auto
  qed
  then obtain r u2 where u2: "(if field_set u1 \<inter> {UF_SCHEMA, UF_HOST} \<noteq> {} then http_parse_host buf u1 found
      else Some (0, u1)) = Some (r, u2)" "fields_within u2 (length buf)" by blast
  have port: "\<exists>off len. field_data u2 UF_PORT = Some (off, len) \<and> off \<le> length buf" if "UF_PORT \<in> field_set u2"
    using that u2(2) by (auto simp: fields_within_def field_within_def)
  have upd: "fields_within (u2\<lparr>port := v\<rparr>) (length buf)" for v
    using u2(2) by (simp add: fields_within_def field_within_def)
  show ?thesis
    using u1(1,2) u2 port upd
    by (auto simp: http_parser_parse_url_def Let_def simp del: Int_insert_right)
qed

section \<open>Request targets in origin form\<close>

definition plain_state :: "http_state \<Rightarrow> url_field \<Rightarrow> bool" where
  "plain_state s uf \<longleftrightarrow> url_field_of s = Some uf \<and> s \<noteq> s_dead \<and> s \<noteq> s_req_server_with_at
     \<and> s \<notin> {s_req_schema_slash, s_req_schema_slash_slash, s_req_server_start,
            s_req_query_string_start, s_req_fragment_start}"

lemma set_field_again: "set_field uf a m (set_field uf b k u) = set_field uf a m u"
  by (simp add: set_field_def)

lemma url_loop_more:
  assumes "\<forall>c \<in> set w. parse_url_char s c = s" and "plain_state s uf"
    and "field_data u uf = Some (off, len)" and "off < 2 ^ 16" "len + length w < 2 ^ 16"
  shows "url_loop s uf f p (w @ cs) u = url_loop s uf f (p + length w) cs
    (if w = [] then u else set_field uf off (len + length w) u)"
  using assms
proof (induction w arbitrary: p u len)
  case (Cons c w)
  let ?u = "set_field uf off (len + 1) u"
  have "url_loop s uf f p ((c # w) @ cs) u = url_loop s uf f (p + 1) (w @ cs) ?u"
    using Cons.prems by (simp add: plain_state_def inc_len_def)
  also have "\<dots> = url_loop s uf f (p + 1 + length w) cs
      (if w = [] then ?u else set_field uf off (len + 1 + length w) ?u)"
    using Cons.prems by (intro Cons.IH) simp_all
  finally show ?case by (simp add: set_field_again)
qed simp

lemma set_mark_again: "set_field uf a m (mark_field uf (set_field uf b k u)) = mark_field uf (set_field uf a m u)"
  by (simp add: set_field_def mark_field_def)

lemma url_loop_part:
  assumes "\<forall>c \<in> set w. parse_url_char s0 c = s \<and> parse_url_char s c = s" and "plain_state s uf"
    and "uf \<noteq> old" and "w \<noteq> []" and "p < 2 ^ 16" "length w < 2 ^ 16"
  shows "url_loop s0 old f p (w @ cs) u
    = url_loop s uf f (p + length w) cs (mark_field uf (set_field uf p (length w) u))"
proof -
  obtain c v where w: "w = c # v" using assms(4) by (cases w) auto
  have "url_loop s0 old f p (w @ cs) u = url_loop s uf f (p + 1) (v @ cs) (mark_field uf (set_field uf p 1 u))"
    using assms w by (simp add: plain_state_def)
  also have "\<dots> = url_loop s uf f (p + 1 + length v) cs (if v = [] then mark_field uf (set_field uf p 1 u)
      else set_field uf p (1 + length v) (mark_field uf (set_field uf p 1 u)))"
    using assms w by (intro url_loop_more) simp_all
  finally show ?thesis using w by (simp add: set_mark_again)
qed

definition origin_form :: "byte list \<Rightarrow> byte list option \<Rightarrow> byte list option \<Rightarrow> byte list" where
  "origin_form path q f =
     path @ (case q of None \<Rightarrow> [] | Some s \<Rightarrow> CHR ''?'' # s) @ (case f of None \<Rightarrow> [] | Some s \<Rightarrow> CHR ''#'' # s)"

lemma IS_URL_CHAR_iff:
  "IS_URL_CHAR c \<longleftrightarrow> url_code (code_of c) \<noteq> 0 \<or> code_of c AND 128 \<noteq> 0"
  by (simp add: IS_URL_CHAR_def url_code)

lemma not_url_char [simp]:
  "\<not> IS_URL_CHAR SP" "\<not> IS_URL_CHAR CR" "\<not> IS_URL_CHAR LF" "\<not> IS_URL_CHAR CHR ''?''" "\<not> IS_URL_CHAR CHR ''#''"
  by (simp_all add: IS_URL_CHAR_iff url_code_def)

lemma url_char_steps:
  assumes "IS_URL_CHAR c"
  shows "parse_url_char s_req_path c = s_req_path"
    "parse_url_char s_req_query_string_start c = s_req_query_string"
    "parse_url_char s_req_query_string c = s_req_query_string"
    "parse_url_char s_req_fragment_start c = s_req_fragment"
    "parse_url_char s_req_fragment c = s_req_fragment"
  using assms by (auto simp: parse_url_char_def)

definition add_part :: "url_field \<Rightarrow> nat \<Rightarrow> byte list option \<Rightarrow> http_parser_url \<Rightarrow> http_parser_url" where
  "add_part uf p w u = (case w of None \<Rightarrow> u
     | Some s \<Rightarrow> if s = [] then u else mark_field uf (set_field uf (p + 1) (length s) u))"

lemma url_loop_query:
  assumes "\<forall>s. q = Some s \<longrightarrow> (\<forall>c \<in> set s. IS_URL_CHAR c \<or> c = CHR ''?'')"
    and "p + length (case q of None \<Rightarrow> [] | Some s \<Rightarrow> CHR ''?'' # s) < 2 ^ 16"
  shows "\<exists>s old. s \<in> {s_req_path, s_req_query_string_start, s_req_query_string} \<and> old \<noteq> UF_FRAGMENT
    \<and> url_loop s_req_path UF_PATH False p ((case q of None \<Rightarrow> [] | Some s \<Rightarrow> CHR ''?'' # s) @ cs) u
      = url_loop s old False (p + length (case q of None \<Rightarrow> [] | Some s \<Rightarrow> CHR ''?'' # s)) cs
          (add_part UF_QUERY p q u)"
proof (cases q)
  case None
  then show ?thesis by (auto simp: add_part_def)
next
  case (Some w)
  have first: "url_loop s_req_path UF_PATH False p ((CHR ''?'' # w) @ cs) u
      = url_loop s_req_query_string_start UF_PATH False (p + 1) (w @ cs) u"
    by (simp add: parse_url_char_def)
  show ?thesis
  proof (cases "w = []")
    case True
    with Some first show ?thesis
      by (intro exI [of _ s_req_query_string_start] exI [of _ UF_PATH]) (simp add: add_part_def)
  next
    case False
    have "url_loop s_req_query_string_start UF_PATH False (p + 1) (w @ cs) u
        = url_loop s_req_query_string UF_QUERY False (p + 1 + length w) cs
            (mark_field UF_QUERY (set_field UF_QUERY (p + 1) (length w) u))"
    proof (rule url_loop_part)
      show "\<forall>c \<in> set w. parse_url_char s_req_query_string_start c = s_req_query_string
          \<and> parse_url_char s_req_query_string c = s_req_query_string"
        using assms(1) Some url_char_steps(2,3) by (auto simp: parse_url_char_def)
    qed (use False assms(2) Some in \<open>simp_all add: plain_state_def url_field_of_def\<close>)
    with Some first False show ?thesis
      by (intro exI [of _ s_req_query_string] exI [of _ UF_QUERY]) (simp add: add_part_def)
  qed
qed

lemma url_loop_fragment:
  assumes "\<forall>s. f = Some s \<longrightarrow> (\<forall>c \<in> set s. IS_URL_CHAR c \<or> c = CHR ''?'')"
    and "p + length (case f of None \<Rightarrow> [] | Some s \<Rightarrow> CHR ''#'' # s) < 2 ^ 16"
    and "s \<in> {s_req_path, s_req_query_string_start, s_req_query_string}" and "old \<noteq> UF_FRAGMENT"
  shows "url_loop s old False p (case f of None \<Rightarrow> [] | Some s \<Rightarrow> CHR ''#'' # s) u
    = Some (False, False, add_part UF_FRAGMENT p f u)"
proof (cases f)
  case None
  then show ?thesis by (simp add: add_part_def)
next
  case (Some w)
  have first: "url_loop s old False p (CHR ''#'' # w) u
      = url_loop s_req_fragment_start old False (p + 1) w u"
    using assms(3) by (auto simp: parse_url_char_def)
  show ?thesis
  proof (cases "w = []")
    case True
    with Some first show ?thesis by (simp add: add_part_def)
  next
    case False
    have "url_loop s_req_fragment_start old False (p + 1) (w @ []) u
        = url_loop s_req_fragment UF_FRAGMENT False (p + 1 + length w) []
            (mark_field UF_FRAGMENT (set_field UF_FRAGMENT (p + 1) (length w) u))"
    proof (rule url_loop_part)
      show "\<forall>c \<in> set w. parse_url_char s_req_fragment_start c = s_req_fragment
          \<and> parse_url_char s_req_fragment c = s_req_fragment"
        using assms(1) Some url_char_steps(4,5) by (auto simp: parse_url_char_def)
    qed (use False assms(2,4) Some in \<open>simp_all add: plain_state_def url_field_of_def\<close>)
    with Some first False show ?thesis by (simp add: add_part_def)
  qed
qed

definition origin_fields :: "byte list \<Rightarrow> byte list option \<Rightarrow> byte list option \<Rightarrow> http_parser_url \<Rightarrow> http_parser_url" where
  "origin_fields path q f u =
     add_part UF_FRAGMENT (length path + length (case q of None \<Rightarrow> [] | Some s \<Rightarrow> CHR ''?'' # s)) f
      (add_part UF_QUERY (length path) q
        (mark_field UF_PATH (set_field UF_PATH 0 (length path) (u\<lparr>port := 0, field_set := {}\<rparr>))))"

lemma parse_url_origin_form:
  assumes path: "path = CHR ''/'' # pr" "\<forall>c \<in> set pr. IS_URL_CHAR c"
    and q: "\<forall>s. q = Some s \<longrightarrow> (\<forall>c \<in> set s. IS_URL_CHAR c \<or> c = CHR ''?'')"
    and f: "\<forall>s. f = Some s \<longrightarrow> (\<forall>c \<in> set s. IS_URL_CHAR c \<or> c = CHR ''?'')"
    and len: "length (origin_form path q f) < 2 ^ 16"
  defines "url \<equiv> origin_form path q f"
  shows "http_parser_parse_url url True u = Some (1, origin_fields path q f u)"
proof -
  let ?q = "case q of None \<Rightarrow> [] | Some s \<Rightarrow> CHR ''?'' # s" and ?f = "case f of None \<Rightarrow> [] | Some s \<Rightarrow> CHR ''#'' # s"
  let ?u0 = "u\<lparr>port := 0, field_set := {}\<rparr>" and ?u2 = "origin_fields path q f u"
  let ?u1 = "mark_field UF_PATH (set_field UF_PATH 0 (length path) ?u0)"
  have l: "length path + length ?q + length ?f < 2 ^ 16" using len by (simp add: origin_form_def)
  have "url_loop s_req_server_start UF_MAX False 0 (path @ ?q @ ?f) ?u0
      = url_loop s_req_path UF_PATH False 1 (pr @ ?q @ ?f) (mark_field UF_PATH (set_field UF_PATH 0 1 ?u0))"
    using path(1) by (simp add: parse_url_char_def url_field_of_def)
  also have "\<dots> = url_loop s_req_path UF_PATH False (1 + length pr) (?q @ ?f)
      (if pr = [] then mark_field UF_PATH (set_field UF_PATH 0 1 ?u0)
       else set_field UF_PATH 0 (1 + length pr) (mark_field UF_PATH (set_field UF_PATH 0 1 ?u0)))"
    using path url_char_steps(1) l
    by (intro url_loop_more) (simp_all add: plain_state_def url_field_of_def)
  also have "\<dots> = url_loop s_req_path UF_PATH False (length path) (?q @ ?f) ?u1"
    using path(1) by (simp add: set_mark_again)
  finally have loop: "url_loop s_req_server_start UF_MAX False 0 url ?u0
      = url_loop s_req_path UF_PATH False (length path) (?q @ ?f) ?u1"
    by (simp add: url_def origin_form_def)
  obtain s old where "s \<in> {s_req_path, s_req_query_string_start, s_req_query_string}" "old \<noteq> UF_FRAGMENT"
    "url_loop s_req_path UF_PATH False (length path) (?q @ ?f) ?u1
      = url_loop s old False (length path + length ?q) ?f (add_part UF_QUERY (length path) q ?u1)"
    using url_loop_query [OF q, of "length path" ?f ?u1] l by auto
  with url_loop_fragment [OF f, of "length path + length ?q" s old] l loop
  have "url_loop s_req_server_start UF_MAX False 0 url ?u0 = Some (False, False, ?u2)"
    by (simp add: origin_fields_def)
  moreover have "field_set ?u2 \<inter> {UF_SCHEMA, UF_HOST} = {}" "UF_PATH \<in> field_set ?u2"
    by (simp_all add: origin_fields_def add_part_def split: option.split)
  moreover have "field_set ?u2 \<noteq> {UF_HOST, UF_PORT}" using calculation(3) by auto
  ultimately show ?thesis by (simp add: http_parser_parse_url_def)
qed

lemma url_part_origin_form:
  assumes len: "length (origin_form path q f) < 2 ^ 16"
  defines "url \<equiv> origin_form path q f"
  shows "url_part UF_PATH url (origin_fields path q f u) = Some path"
    and "url_part UF_QUERY url (origin_fields path q f u) = Some (case q of None \<Rightarrow> [] | Some s \<Rightarrow> s)"
    and "url_part UF_FRAGMENT url (origin_fields path q f u) = Some (case f of None \<Rightarrow> [] | Some s \<Rightarrow> s)"
  using len
  by (auto simp: origin_fields_def url_def add_part_def url_part_def origin_form_def split: option.splits)

section \<open>Claims\<close>

text \<open>C4. Parsing any string as the server uses it (in \<^verbatim>\<open>is_connect\<close> mode) completes without an assertion
  failure and without reading a field that was never written, returns 0 or 1, and leaves only
  fields that lie within the URL, so that extracting any of them as a substring succeeds.\<close>

theorem parse_url_never_faults:
  "\<exists>r u'. http_parser_parse_url buf True u = Some (r, u') \<and> (r = 0 \<or> r = 1)
     \<and> fields_within u' (length buf) \<and> (\<exists>s. url_part uf buf u' = Some s)"
proof -
  obtain r u' where "http_parser_parse_url buf True u = Some (r, u')" "r = 0 \<or> r = 1"
    and w: "fields_within u' (length buf)"
    using parse_url_ok by blast
  moreover have "\<exists>s. url_part uf buf u' = Some s"
    using w by (fastforce simp: url_part_def fields_within_def field_within_def)
  ultimately show ?thesis by blast
qed

text \<open>A request target in origin form is taken apart correctly: the path, the query after the
  first question mark and the fragment after the number sign are exactly the substrings the
  accessors return. The parser's return value is nevertheless 1, because in \<^verbatim>\<open>is_connect\<close> mode it
  accepts only a host with a port.\<close>

lemma origin_form_parts:
  assumes "path = CHR ''/'' # pr" and "\<forall>c \<in> set pr. IS_URL_CHAR c"
    and "\<forall>s. q = Some s \<longrightarrow> (\<forall>c \<in> set s. IS_URL_CHAR c \<or> c = CHR ''?'')"
    and "\<forall>s. f = Some s \<longrightarrow> (\<forall>c \<in> set s. IS_URL_CHAR c \<or> c = CHR ''?'')"
    and "length (origin_form path q f) < 2 ^ 16"
  shows "\<exists>u'. http_parser_parse_url (origin_form path q f) True u = Some (1, u')
    \<and> url_part UF_PATH (origin_form path q f) u' = Some path
    \<and> url_part UF_QUERY (origin_form path q f) u' = Some (case q of None \<Rightarrow> [] | Some s \<Rightarrow> s)
    \<and> url_part UF_FRAGMENT (origin_form path q f) u' = Some (case f of None \<Rightarrow> [] | Some s \<Rightarrow> s)"
  using parse_url_origin_form [OF assms, of u] url_part_origin_form [OF assms(5), of u] by blast

definition blank_url :: http_parser_url where
  "blank_url = \<lparr>field_set = {}, port = 0, field_data = (\<lambda>_. None)\<rparr>"
  \<comment> \<open>a structure none of whose entries has been written\<close>

lemma origin_form_parts_witness:
  "\<exists>u'. http_parser_parse_url ''/a?b=1'' True blank_url = Some (1, u')
     \<and> url_part UF_PATH ''/a?b=1'' u' = Some ''/a'' \<and> url_part UF_QUERY ''/a?b=1'' u' = Some ''b=1''"
proof -
  have "origin_form ''/a'' (Some ''b=1'') None = ''/a?b=1''" by (simp add: origin_form_def)
  moreover have "\<forall>c \<in> set ''a''. IS_URL_CHAR c" "\<forall>c \<in> set ''b=1''. IS_URL_CHAR c"
    by (simp_all add: IS_URL_CHAR_iff url_code_def)
  ultimately show ?thesis
    using origin_form_parts [of "''/a''" "''a''" "Some ''b=1''" None blank_url] by auto
qed

text \<open>Outside \<^verbatim>\<open>is_connect\<close> mode a URL that is only a scheme makes the parser read the host's
  entry of \<^verbatim>\<open>field_data\<close> although it was never written.\<close>

lemma schema_only_reads_uninitialised:
  assumes "field_data u UF_HOST = None"
  shows "http_parser_parse_url ''http:'' False u = None"
  using assms
  by (simp add: http_parser_parse_url_def parse_url_char_def IS_ALPHA_def LOWER_def url_field_of_def
      inc_len_def http_parse_host_def)

lemma schema_only_reads_uninitialised_witness:
  "http_parser_parse_url ''http:'' False blank_url = None"
  by (rule schema_only_reads_uninitialised) (simp add: blank_url_def)

end
