(* ===== verification/Buffer.thy ===== *)
theory Buffer
  imports Prelude
begin

text \<open>
  The byte buffer of \<^verbatim>\<open>evpp/buffer.h\<close> and \<^verbatim>\<open>evpp/buffer.cc\<close>: one allocated block, a read index, a
  write index and a reserved area in front of the data. Storage is a list of cells, so the
  bytes of a fresh \<^verbatim>\<open>new char[n]\<close> are unwritten (\<open>None\<close>). Every index expression is a
  \<^verbatim>\<open>size_t\<close> and is written with its wrap-around. Allocation is taken to succeed.
\<close>

subsection \<open>State\<close>

record buffer =
  storage :: "cell list"
  capacity :: nat
  read_index :: nat
  write_index :: nat
  reserved_prepend_size :: nat

definition kCheapPrependSize :: nat where
  "kCheapPrependSize = 8"

definition kInitialSize :: nat where
  "kInitialSize = 1024"

definition kCRLF :: "byte list" where
  "kCRLF = [CR, LF]"

subsection \<open>Observers\<close>

definition Buffer_length :: "buffer \<Rightarrow> nat option" where
  "Buffer_length b = do { require (write_index b \<ge> read_index b); Some (write_index b - read_index b) }"

definition Buffer_total :: "buffer \<Rightarrow> nat option" where
  "Buffer_total b = do { require (write_index b \<ge> read_index b); Some (write_index b) }"

definition Buffer_size :: "buffer \<Rightarrow> nat option" where
  "Buffer_size b = Buffer_length b"

definition WritableBytes :: "buffer \<Rightarrow> nat option" where
  "WritableBytes b = do { require (capacity b \<ge> write_index b); Some (capacity b - write_index b) }"

definition PrependableBytes :: "buffer \<Rightarrow> nat" where
  "PrependableBytes b = read_index b"

definition ToSlice :: "buffer \<Rightarrow> cell list option" where
  "ToSlice b = do { n \<leftarrow> Buffer_length b; mem_read (storage b) (read_index b) n }"

definition ToString :: "buffer \<Rightarrow> byte list option" where
  "ToString b = do { s \<leftarrow> ToSlice b; those s }"

subsection \<open>Construction and swapping\<close>

definition Buffer_new :: "nat \<Rightarrow> nat \<Rightarrow> buffer option" where
  "Buffer_new initial_size reserved =
     (let c = size_t (reserved + initial_size);
          b = \<lparr>storage = replicate c None, capacity = c, read_index = reserved,
               write_index = reserved, reserved_prepend_size = reserved\<rparr>
      in do {
        n \<leftarrow> Buffer_length b;
        require (n = 0);
        w \<leftarrow> WritableBytes b;
        require (w = initial_size);
        require (PrependableBytes b = reserved);
        Some b })"

definition Buffer_Swap :: "buffer \<Rightarrow> buffer \<Rightarrow> buffer \<times> buffer" where
  "Buffer_Swap a b = (b, a)"

subsection \<open>Discarding\<close>

definition Truncate :: "nat \<Rightarrow> buffer \<Rightarrow> buffer" where
  "Truncate n b =
     (if n = 0 then b\<lparr>read_index := reserved_prepend_size b, write_index := reserved_prepend_size b\<rparr>
      else if write_index b > size_t (read_index b + n)
      then b\<lparr>write_index := size_t (read_index b + n)\<rparr>
      else b)"

definition Buffer_Reset :: "buffer \<Rightarrow> buffer" where
  "Buffer_Reset b = Truncate 0 b"

definition Skip :: "nat \<Rightarrow> buffer \<Rightarrow> buffer option" where
  "Skip len b = do {
     n \<leftarrow> Buffer_length b;
     if len < n then Some (b\<lparr>read_index := size_t (read_index b + len)\<rparr>) else Some (Buffer_Reset b) }"

definition Retrieve :: "nat \<Rightarrow> buffer \<Rightarrow> buffer option" where
  "Retrieve len b = Skip len b"

subsection \<open>Making room\<close>

definition grow :: "nat \<Rightarrow> buffer \<Rightarrow> buffer option" where
  "grow len b = do {
     w \<leftarrow> WritableBytes b;
     if size_t (w + PrependableBytes b) < size_t (len + reserved_prepend_size b)
     then do {
       let n = size_t (size_t (2 * capacity b) + len);
       m \<leftarrow> Buffer_length b;
       src \<leftarrow> mem_read (storage b) (read_index b) m;
       d \<leftarrow> mem_write (replicate n None) (reserved_prepend_size b) src;
       Some (b\<lparr>write_index := size_t (m + reserved_prepend_size b),
               read_index := reserved_prepend_size b,
               capacity := n, storage := d\<rparr>) }
     else do {
       require (reserved_prepend_size b < read_index b);
       m \<leftarrow> Buffer_length b;
       src \<leftarrow> mem_read (storage b) (read_index b) m;
       d \<leftarrow> mem_write (storage b) (reserved_prepend_size b) src;
       let b' = b\<lparr>storage := d, read_index := reserved_prepend_size b,
                  write_index := size_t (reserved_prepend_size b + m)\<rparr>;
       l \<leftarrow> Buffer_length b';
       require (m = l);
       w' \<leftarrow> WritableBytes b';
       require (w' \<ge> len);
       Some b' } }"

definition Reserve :: "nat \<Rightarrow> buffer \<Rightarrow> buffer option" where
  "Reserve len b =
     (if capacity b \<ge> size_t (len + reserved_prepend_size b) then Some b
      else grow (size_t (len + reserved_prepend_size b)) b)"

definition EnsureWritableBytes :: "nat \<Rightarrow> buffer \<Rightarrow> buffer option" where
  "EnsureWritableBytes len b = do {
     w \<leftarrow> WritableBytes b;
     b' \<leftarrow> (if w < len then grow len b else Some b);
     w' \<leftarrow> WritableBytes b';
     require (w' \<ge> len);
     Some b' }"

subsection \<open>Writing\<close>

definition Write_cells :: "cell list \<Rightarrow> buffer \<Rightarrow> buffer option" where
  "Write_cells d b = do {
     b1 \<leftarrow> EnsureWritableBytes (length d) b;
     m \<leftarrow> mem_write (storage b1) (write_index b1) d;
     require (size_t (write_index b1 + length d) \<le> capacity b1);
     Some (b1\<lparr>storage := m, write_index := size_t (write_index b1 + length d)\<rparr>) }"

definition Write :: "byte list \<Rightarrow> buffer \<Rightarrow> buffer option" where
  "Write d b = Write_cells (map Some d) b"

definition Append :: "byte list \<Rightarrow> buffer \<Rightarrow> buffer option" where
  "Append d b = Write d b"

definition UnwriteBytes :: "nat \<Rightarrow> buffer \<Rightarrow> buffer option" where
  "UnwriteBytes n b = do {
     l \<leftarrow> Buffer_length b;
     require (n \<le> l);
     Some (b\<lparr>write_index := write_index b - n\<rparr>) }"

definition WriteBytes :: "nat \<Rightarrow> buffer \<Rightarrow> buffer option" where
  "WriteBytes n b = do {
     w \<leftarrow> WritableBytes b;
     require (n \<le> w);
     Some (b\<lparr>write_index := size_t (write_index b + n)\<rparr>) }"

definition Prepend :: "byte list \<Rightarrow> buffer \<Rightarrow> buffer option" where
  "Prepend d b = do {
     require (length d \<le> PrependableBytes b);
     m \<leftarrow> mem_write (storage b) (read_index b - length d) (map Some d);
     Some (b\<lparr>read_index := read_index b - length d, storage := m\<rparr>) }"

definition Shrink :: "nat \<Rightarrow> buffer \<Rightarrow> buffer option" where
  "Shrink reserve b = do {
     n \<leftarrow> Buffer_length b;
     other \<leftarrow> Buffer_new (size_t (n + reserve)) kCheapPrependSize;
     s \<leftarrow> ToSlice b;
     other' \<leftarrow> Write_cells s other;
     Some (fst (Buffer_Swap b other')) }"

subsection \<open>Reading\<close>

definition SetReadIndex :: "nat \<Rightarrow> buffer \<Rightarrow> buffer" where
  "SetReadIndex index b = (if index > write_index b then b else b\<lparr>read_index := index\<rparr>)"

definition ResetData :: "buffer \<Rightarrow> buffer" where
  "ResetData b = b\<lparr>read_index := reserved_prepend_size b\<rparr>"

definition ResetBegin :: "buffer \<Rightarrow> buffer" where
  "ResetBegin b = b\<lparr>read_index := 0\<rparr>"

definition NextAll :: "buffer \<Rightarrow> (cell list \<times> buffer) option" where
  "NextAll b = do {
     n \<leftarrow> Buffer_length b;
     result \<leftarrow> mem_read (storage b) (read_index b) n;
     Some (result, Buffer_Reset b) }"

definition Next :: "nat \<Rightarrow> buffer \<Rightarrow> (cell list \<times> buffer) option" where
  "Next len b = do {
     n \<leftarrow> Buffer_length b;
     if len < n then do {
       result \<leftarrow> mem_read (storage b) (read_index b) len;
       Some (result, b\<lparr>read_index := size_t (read_index b + len)\<rparr>) }
     else NextAll b }"

definition NextString :: "nat \<Rightarrow> buffer \<Rightarrow> (byte list \<times> buffer) option" where
  "NextString len b = do { (s, b') \<leftarrow> Next len b; t \<leftarrow> those s; Some (t, b') }"

definition NextAllString :: "buffer \<Rightarrow> (byte list \<times> buffer) option" where
  "NextAllString b = do { (s, b') \<leftarrow> NextAll b; t \<leftarrow> those s; Some (t, b') }"

definition ReadByte :: "buffer \<Rightarrow> (byte \<times> buffer) option" where
  "ReadByte b = do {
     n \<leftarrow> Buffer_length b;
     require (n \<ge> 1);
     c \<leftarrow> mem_read (storage b) (read_index b) 1;
     t \<leftarrow> those c;
     Some (hd t, b\<lparr>read_index := size_t (read_index b + 1)\<rparr>) }"

definition UnreadBytes :: "nat \<Rightarrow> buffer \<Rightarrow> buffer option" where
  "UnreadBytes n b = do {
     require (n < read_index b);
     Some (b\<lparr>read_index := read_index b - n\<rparr>) }"

subsection \<open>Integers in network byte order\<close>

datatype endian = LittleEndian | BigEndian
  \<comment> \<open>the byte order of the machine, which decides how a word lies in memory\<close>

fun bytes_le :: "nat \<Rightarrow> nat \<Rightarrow> byte list" where
  "bytes_le 0 x = []"
| "bytes_le (Suc n) x = char_of (x mod 256) # bytes_le n (x div 256)"

fun value_le :: "byte list \<Rightarrow> nat" where
  "value_le [] = 0"
| "value_le (c # cs) = of_char c + 256 * value_le cs"

definition mem_repr :: "endian \<Rightarrow> nat \<Rightarrow> nat \<Rightarrow> byte list" where
  "mem_repr e n x = (case e of LittleEndian \<Rightarrow> bytes_le n x | BigEndian \<Rightarrow> rev (bytes_le n x))"
  \<comment> \<open>the \<open>n\<close> bytes in memory of an \<open>n\<close>-byte object with value \<open>x\<close>\<close>

definition mem_value :: "endian \<Rightarrow> byte list \<Rightarrow> nat" where
  "mem_value e bs = (case e of LittleEndian \<Rightarrow> value_le bs | BigEndian \<Rightarrow> value_le (rev bs))"

definition evppbswap_64 :: "64 word \<Rightarrow> 64 word" where
  "evppbswap_64 x =
     (drop_bit 56 (x AND 0xff00000000000000)
      OR drop_bit 40 (x AND 0x00ff000000000000)
      OR drop_bit 24 (x AND 0x0000ff0000000000)
      OR drop_bit 8 (x AND 0x000000ff00000000)
      OR push_bit 8 (x AND 0x00000000ff000000)
      OR push_bit 24 (x AND 0x0000000000ff0000)
      OR push_bit 40 (x AND 0x000000000000ff00)
      OR push_bit 56 (x AND 0x00000000000000ff))"

definition be :: "nat \<Rightarrow> nat \<Rightarrow> byte list" where
  "be k n = rev (bytes_le k n)"
  \<comment> \<open>\<^verbatim>\<open>AppendInt32\<close> and its kin; the value is reduced to the width\<close>

definition be_value :: "byte list \<Rightarrow> nat" where
  "be_value bs = value_le (rev bs)"

definition hton :: "endian \<Rightarrow> nat \<Rightarrow> nat \<Rightarrow> nat" where
  "hton e n x = (case e of LittleEndian \<Rightarrow> value_le (rev (bytes_le n x)) | BigEndian \<Rightarrow> x)"
  \<comment> \<open>\<^verbatim>\<open>htonl\<close>, \<^verbatim>\<open>htons\<close>, \<^verbatim>\<open>ntohl\<close> and \<^verbatim>\<open>ntohs\<close> of the C library\<close>

definition AppendInt64 :: "endian \<Rightarrow> 64 word \<Rightarrow> buffer \<Rightarrow> buffer option" where
  "AppendInt64 e x b = Write (mem_repr e 8 (unat (evppbswap_64 x))) b"

definition AppendInt32 :: "endian \<Rightarrow> 32 word \<Rightarrow> buffer \<Rightarrow> buffer option" where
  "AppendInt32 e x b = Write (mem_repr e 4 (hton e 4 (unat x))) b"

definition AppendInt16 :: "endian \<Rightarrow> 16 word \<Rightarrow> buffer \<Rightarrow> buffer option" where
  "AppendInt16 e x b = Write (mem_repr e 2 (hton e 2 (unat x))) b"

definition AppendInt8 :: "8 word \<Rightarrow> buffer \<Rightarrow> buffer option" where
  "AppendInt8 x b = Write [char_of (unat x)] b"

definition PrependInt64 :: "endian \<Rightarrow> 64 word \<Rightarrow> buffer \<Rightarrow> buffer option" where
  "PrependInt64 e x b = Prepend (mem_repr e 8 (unat (evppbswap_64 x))) b"

definition PrependInt32 :: "endian \<Rightarrow> 32 word \<Rightarrow> buffer \<Rightarrow> buffer option" where
  "PrependInt32 e x b = Prepend (mem_repr e 4 (hton e 4 (unat x))) b"

definition PrependInt16 :: "endian \<Rightarrow> 16 word \<Rightarrow> buffer \<Rightarrow> buffer option" where
  "PrependInt16 e x b = Prepend (mem_repr e 2 (hton e 2 (unat x))) b"

definition PrependInt8 :: "8 word \<Rightarrow> buffer \<Rightarrow> buffer option" where
  "PrependInt8 x b = Prepend [char_of (unat x)] b"

definition peek_bytes :: "nat \<Rightarrow> buffer \<Rightarrow> byte list option" where
  "peek_bytes n b = do {
     l \<leftarrow> Buffer_length b;
     require (l \<ge> n);
     c \<leftarrow> mem_read (storage b) (read_index b) n;
     those c }"

definition PeekInt64 :: "endian \<Rightarrow> buffer \<Rightarrow> 64 word option" where
  "PeekInt64 e b = do { s \<leftarrow> peek_bytes 8 b; Some (evppbswap_64 (of_nat (mem_value e s))) }"

definition PeekInt32 :: "endian \<Rightarrow> buffer \<Rightarrow> 32 word option" where
  "PeekInt32 e b = do { s \<leftarrow> peek_bytes 4 b; Some (of_nat (hton e 4 (mem_value e s))) }"

definition PeekInt16 :: "endian \<Rightarrow> buffer \<Rightarrow> 16 word option" where
  "PeekInt16 e b = do { s \<leftarrow> peek_bytes 2 b; Some (of_nat (hton e 2 (mem_value e s))) }"

definition PeekInt8 :: "buffer \<Rightarrow> 8 word option" where
  "PeekInt8 b = do { s \<leftarrow> peek_bytes 1 b; Some (of_nat (of_char (hd s))) }"

definition ReadInt64 :: "endian \<Rightarrow> buffer \<Rightarrow> (64 word \<times> buffer) option" where
  "ReadInt64 e b = do { result \<leftarrow> PeekInt64 e b; b' \<leftarrow> Skip 8 b; Some (result, b') }"

definition ReadInt32 :: "endian \<Rightarrow> buffer \<Rightarrow> (32 word \<times> buffer) option" where
  "ReadInt32 e b = do { result \<leftarrow> PeekInt32 e b; b' \<leftarrow> Skip 4 b; Some (result, b') }"

definition ReadInt16 :: "endian \<Rightarrow> buffer \<Rightarrow> (16 word \<times> buffer) option" where
  "ReadInt16 e b = do { result \<leftarrow> PeekInt16 e b; b' \<leftarrow> Skip 2 b; Some (result, b') }"

definition ReadInt8 :: "buffer \<Rightarrow> (8 word \<times> buffer) option" where
  "ReadInt8 b = do { result \<leftarrow> PeekInt8 b; b' \<leftarrow> Skip 1 b; Some (result, b') }"

definition ToText :: "buffer \<Rightarrow> buffer option" where
  "ToText b = do { b' \<leftarrow> AppendInt8 0 b; UnwriteBytes 1 b' }"

subsection \<open>Searching\<close>

definition FindCRLF_from :: "nat \<Rightarrow> buffer \<Rightarrow> nat option option" where
  "FindCRLF_from start b = do {
     require (read_index b \<le> start);
     require (start \<le> write_index b);
     c \<leftarrow> mem_read (storage b) start (write_index b - start);
     s \<leftarrow> those c;
     let i = search_seq s kCRLF;
     Some (if start + i = write_index b then None else Some (start + i)) }"
  \<comment> \<open>pointers into the block are offsets from \<^verbatim>\<open>begin()\<close>; the inner \<open>None\<close> is \<^verbatim>\<open>nullptr\<close>\<close>

definition FindCRLF :: "buffer \<Rightarrow> nat option option" where
  "FindCRLF b = FindCRLF_from (read_index b) b"

definition FindEOL_from :: "nat \<Rightarrow> buffer \<Rightarrow> nat option option" where
  "FindEOL_from start b = do {
     require (read_index b \<le> start);
     require (start \<le> write_index b);
     c \<leftarrow> mem_read (storage b) start (write_index b - start);
     s \<leftarrow> those c;
     let i = find_if_idx (\<lambda>x. x = LF) s;
     Some (if i < length s then Some (start + i) else None) }"

definition FindEOL :: "buffer \<Rightarrow> nat option option" where
  "FindEOL b = FindEOL_from (read_index b) b"

subsection \<open>Reading from a socket\<close>

datatype readv_result = Readv_error int | Readv_ok "byte list"
  \<comment> \<open>what \<^verbatim>\<open>readv\<close> does: it fails with an \<^verbatim>\<open>errno\<close>, or delivers bytes into the vectors in order\<close>

definition extrabuf_size :: nat where
  "extrabuf_size = 65536"

definition readv_capacity :: "buffer \<Rightarrow> nat" where
  "readv_capacity b =
     (let writable = capacity b - write_index b
      in if writable < extrabuf_size then writable + extrabuf_size else writable)"
  \<comment> \<open>the room of the one or two vectors passed to \<^verbatim>\<open>readv\<close>\<close>

definition ReadFromFD :: "readv_result \<Rightarrow> buffer \<Rightarrow> (int \<times> int option \<times> buffer) option" where
  "ReadFromFD res b = do {
     writable \<leftarrow> WritableBytes b;
     (case res of
        Readv_error e \<Rightarrow> Some (-1, Some e, b)
      | Readv_ok bs \<Rightarrow> do {
          require (length bs \<le> readv_capacity b);
          let n = length bs;
          m \<leftarrow> mem_write (storage b) (write_index b) (map Some (take writable bs));
          let b1 = b\<lparr>storage := m\<rparr>;
          if n \<le> writable then Some (int n, None, b1\<lparr>write_index := size_t (write_index b1 + n)\<rparr>)
          else do {
            b2 \<leftarrow> Append (drop writable bs) (b1\<lparr>write_index := capacity b1\<rparr>);
            Some (int n, None, b2) } }) }"

section \<open>Properties\<close>

subsection \<open>Well-formedness and the readable bytes\<close>

definition buf_wf :: "buffer \<Rightarrow> bool" where
  "buf_wf b \<longleftrightarrow> length (storage b) = capacity b \<and> read_index b \<le> write_index b
     \<and> write_index b \<le> capacity b \<and> reserved_prepend_size b \<le> capacity b
     \<and> capacity b < 2 ^ 64"

definition readable :: "buffer \<Rightarrow> cell list" where
  "readable b = take (write_index b - read_index b) (drop (read_index b) (storage b))"

definition room_for :: "buffer \<Rightarrow> nat \<Rightarrow> bool" where
  "room_for b n \<longleftrightarrow> 2 * capacity b + n < 2 ^ 64"
  \<comment> \<open>growing the block for \<open>n\<close> more bytes does not overflow its size\<close>

lemma length_readable:
  "buf_wf b \<Longrightarrow> length (readable b) = write_index b - read_index b"
  by (auto simp: buf_wf_def readable_def)

lemma Buffer_length_wf [checked]: "buf_wf b \<Longrightarrow> Buffer_length b = Some (length (readable b))"
  by (auto simp: Buffer_length_def buf_wf_def readable_def)

lemma WritableBytes_wf [checked]: "buf_wf b \<Longrightarrow> WritableBytes b = Some (capacity b - write_index b)"
  by (simp add: WritableBytes_def buf_wf_def)

lemma mem_read_readable [checked]:
  "buf_wf b \<Longrightarrow> n \<le> length (readable b) \<Longrightarrow>
     mem_read (storage b) (read_index b) n = Some (take n (readable b))"
  by (auto simp: mem_read_def readable_def buf_wf_def)

lemma ToSlice_wf [checked]: "buf_wf b \<Longrightarrow> ToSlice b = Some (readable b)"
  by (simp add: ToSlice_def checked)

lemma Buffer_new_wf:
  assumes "reserved + n < 2 ^ 64"
  obtains b where "Buffer_new n reserved = Some b" "buf_wf b" "readable b = []"
    "capacity b = reserved + n" "reserved_prepend_size b = reserved" "read_index b = reserved"
proof
  define b where "b = \<lparr>storage = replicate (reserved + n) None, capacity = reserved + n,
    read_index = reserved, write_index = reserved, reserved_prepend_size = reserved\<rparr>"
  show wf: "buf_wf b" and "readable b = []" and "capacity b = reserved + n"
    and "reserved_prepend_size b = reserved" and "read_index b = reserved"
    using assms by (simp_all add: b_def buf_wf_def readable_def)
  show "Buffer_new n reserved = Some b"
    using assms by (simp add: Buffer_new_def b_def Buffer_length_def WritableBytes_def PrependableBytes_def Let_def)
qed

lemma readable_window:
  "storage b = p @ s @ q \<Longrightarrow> read_index b = length p \<Longrightarrow> write_index b = length p + length s \<Longrightarrow>
     readable b = s"
  by (simp add: readable_def)

subsection \<open>Growing\<close>

lemma grow_wf:
  assumes wf: "buf_wf b" and room: "room_for b len" and full: "capacity b - write_index b < len"
  obtains b' where "grow len b = Some b'" "buf_wf b'" "readable b' = readable b"
    "len \<le> capacity b' - write_index b'" "capacity b' \<le> max (capacity b) (3 * (length (readable b) + reserved_prepend_size b + len))"
    "reserved_prepend_size b' = reserved_prepend_size b"
proof -
  let ?r = "reserved_prepend_size b" and ?m = "length (readable b)"
  have bounds: "?m \<le> capacity b" "?r \<le> capacity b" "read_index b + ?m \<le> capacity b"
    "capacity b - write_index b + read_index b < 2 ^ 64" "len + ?r < 2 ^ 64"
    "2 * capacity b + len < 2 ^ 64" "2 * capacity b < 2 ^ 64" "?m + ?r < 2 ^ 64"
    using wf room length_readable [OF wf] unfolding buf_wf_def room_for_def by linarith+
  show thesis
  proof (cases "capacity b - write_index b + read_index b < len + ?r")
    case True
    define d where "d = replicate ?r None @ readable b
      @ drop (?r + ?m) (replicate (2 * capacity b + len) (None :: cell))"
    define b' where "b' = b\<lparr>write_index := ?m + ?r, read_index := ?r,
      capacity := 2 * capacity b + len, storage := d\<rparr>"
    have "mem_write (replicate (2 * capacity b + len) None) ?r (readable b) = Some d"
      using bounds by (simp add: mem_write_def d_def min_absorb2)
    then have "grow len b = Some b'"
      using wf True bounds by (simp add: grow_def b'_def checked PrependableBytes_def Let_def)
    moreover have "readable b' = readable b"
      by (rule readable_window [where p = "replicate ?r None"
            and q = "drop (?r + ?m) (replicate (2 * capacity b + len) None)"])
        (simp_all add: b'_def d_def)
    moreover have "buf_wf b'"
      using bounds by (simp add: buf_wf_def b'_def d_def)
    moreover have "capacity b < len + ?r + ?m"
      using True wf unfolding length_readable [OF wf] buf_wf_def by linarith
    ultimately show thesis
      using that bounds by (simp add: b'_def)
  next
    case False
    have gap: "?r < read_index b" using False full by simp
    have fit: "?r + ?m \<le> length (storage b)"
      using wf bounds gap unfolding buf_wf_def by linarith
    define d where "d = take ?r (storage b) @ readable b @ drop (?r + ?m) (storage b)"
    define b' where "b' = b\<lparr>storage := d, read_index := ?r, write_index := ?r + ?m\<rparr>"
    have len_d: "length d = capacity b"
      using wf bounds gap by (simp add: d_def buf_wf_def readable_def)
    have wf': "buf_wf b'"
      using wf gap len_d by (auto simp: buf_wf_def b'_def readable_def)
    have rd': "readable b' = readable b"
      using bounds wf
      by (intro readable_window [where p = "take ?r (storage b)" and q = "drop (?r + ?m) (storage b)"])
        (simp_all add: b'_def d_def buf_wf_def)
    have "mem_write (storage b) ?r (readable b) = Some d"
      using fit by (simp only: mem_write_ok d_def)
    moreover have "len \<le> capacity b' - write_index b'"
      using False wf gap length_readable [OF wf] by (simp add: b'_def buf_wf_def)
    ultimately have "grow len b = Some b'"
      using wf wf' rd' gap False bounds
      by (simp add: grow_def checked PrependableBytes_def Let_def b'_def [symmetric] add.commute)
    then show thesis
      using that wf' rd' \<open>len \<le> capacity b' - write_index b'\<close> by (simp add: b'_def)
  qed
qed

lemma EnsureWritableBytes_wf:
  assumes wf: "buf_wf b" and room: "room_for b len"
  obtains b' where "EnsureWritableBytes len b = Some b'" "buf_wf b'" "readable b' = readable b"
    "write_index b' + len \<le> capacity b'" "capacity b' \<le> max (capacity b) (3 * (length (readable b) + reserved_prepend_size b + len))"
    "reserved_prepend_size b' = reserved_prepend_size b"
proof (cases "capacity b - write_index b < len")
  case True
  with wf room obtain b' where b': "grow len b = Some b'" "buf_wf b'" "readable b' = readable b"
    "len \<le> capacity b' - write_index b'" "capacity b' \<le> max (capacity b) (3 * (length (readable b) + reserved_prepend_size b + len))"
    "reserved_prepend_size b' = reserved_prepend_size b"
    by (rule grow_wf)
  have "EnsureWritableBytes len b = Some b'"
    using wf b' True by (simp add: EnsureWritableBytes_def checked)
  moreover have "write_index b' + len \<le> capacity b'"
    using b'(2,4) unfolding buf_wf_def by linarith
  ultimately show thesis using that b' by blast
next
  case False
  then have "EnsureWritableBytes len b = Some b"
    using wf by (simp add: EnsureWritableBytes_def checked)
  moreover have "write_index b + len \<le> capacity b"
    using False wf unfolding buf_wf_def by linarith
  ultimately show thesis using that [of b] wf max.cobounded1 by blast
qed

subsection \<open>Writing and prepending\<close>

lemma storage_write:
  assumes wf: "buf_wf b" and d: "write_index b + length d \<le> capacity b"
  defines "b' \<equiv> b\<lparr>storage := take (write_index b) (storage b) @ d
      @ drop (write_index b + length d) (storage b), write_index := write_index b + length d\<rparr>"
  shows "buf_wf b'" and "readable b' = readable b @ d"
proof -
  have idx: "read_index b \<le> write_index b" "write_index b + length d \<le> length (storage b)"
    "write_index b \<le> length (storage b)"
    using wf d unfolding buf_wf_def by linarith+
  show "buf_wf b'" using wf d by (simp add: buf_wf_def b'_def)
  show "readable b' = readable b @ d"
  proof (rule readable_window [where p = "take (read_index b) (storage b)"
        and q = "drop (write_index b + length d) (storage b)"])
    have "take (write_index b) (storage b) = take (read_index b) (storage b) @ readable b"
      using idx(1) by (simp add: readable_def take_add [symmetric])
    then show "storage b' = take (read_index b) (storage b) @ (readable b @ d)
        @ drop (write_index b + length d) (storage b)"
      by (simp add: b'_def)
    show "read_index b' = length (take (read_index b) (storage b))"
      and "write_index b' = length (take (read_index b) (storage b)) + length (readable b @ d)"
      using idx length_readable [OF wf] by (simp_all add: b'_def)
  qed
qed

lemma Write_cells_wf:
  assumes wf: "buf_wf b" and room: "room_for b (length d)"
  obtains b' where "Write_cells d b = Some b'" "buf_wf b'" "readable b' = readable b @ d"
    "capacity b' \<le> max (capacity b) (3 * (length (readable b) + reserved_prepend_size b + length d))"
    "reserved_prepend_size b' = reserved_prepend_size b"
proof -
  from assms obtain b1 where b1: "EnsureWritableBytes (length d) b = Some b1" "buf_wf b1"
    "readable b1 = readable b" "write_index b1 + length d \<le> capacity b1"
    "capacity b1 \<le> max (capacity b) (3 * (length (readable b) + reserved_prepend_size b + length d))"
    "reserved_prepend_size b1 = reserved_prepend_size b"
    by (rule EnsureWritableBytes_wf)
  have "write_index b1 + length d \<le> length (storage b1)" "write_index b1 + length d < 2 ^ 64"
    using b1(2,4) unfolding buf_wf_def by linarith+
  then show thesis
    using that storage_write [OF b1(2,4)] b1 by (simp add: Write_cells_def mem_write_ok)
qed

lemma Write_wf:
  assumes "buf_wf b" and "room_for b (length d)"
  obtains b' where "Write d b = Some b'" "buf_wf b'" "readable b' = readable b @ map Some d"
    "capacity b' \<le> max (capacity b) (3 * (length (readable b) + reserved_prepend_size b + length d))" "reserved_prepend_size b' = reserved_prepend_size b"
  using Write_cells_wf [of b "map Some d"] assms by (auto simp: Write_def)

lemma Prepend_wf:
  assumes wf: "buf_wf b" and len: "length d \<le> read_index b"
  obtains b' where "Prepend d b = Some b'" "buf_wf b'" "readable b' = map Some d @ readable b"
    "capacity b' = capacity b"
proof -
  let ?r = "read_index b"
  define m where "m = take (?r - length d) (storage b) @ map Some d @ drop ?r (storage b)"
  define b' where "b' = b\<lparr>read_index := ?r - length d, storage := m\<rparr>"
  have idx: "?r \<le> write_index b" "write_index b \<le> length (storage b)"
    using wf unfolding buf_wf_def by linarith+
  have "Prepend d b = Some b'"
    using len idx by (simp add: Prepend_def PrependableBytes_def b'_def m_def mem_write_def)
  moreover have "buf_wf b'"
    using wf len by (auto simp: buf_wf_def b'_def m_def min_def)
  moreover have "readable b' = map Some d @ readable b"
  proof (rule readable_window [where p = "take (?r - length d) (storage b)"
        and q = "drop (write_index b) (storage b)"])
    have "drop ?r (storage b) = readable b @ drop (write_index b) (storage b)"
    proof -
      have "drop ?r (storage b)
          = take (write_index b - ?r) (drop ?r (storage b)) @ drop (write_index b - ?r) (drop ?r (storage b))"
        by (rule append_take_drop_id [symmetric])
      then show ?thesis using idx by (simp add: readable_def)
    qed
    then show "storage b' = take (?r - length d) (storage b) @ (map Some d @ readable b)
        @ drop (write_index b) (storage b)"
      by (simp add: b'_def m_def)
    show "read_index b' = length (take (?r - length d) (storage b))"
      and "write_index b' = length (take (?r - length d) (storage b)) + length (map Some d @ readable b)"
      using idx len length_readable [OF wf] by (simp_all add: b'_def)
  qed
  ultimately show thesis using that by (simp add: b'_def)
qed

subsection \<open>Consuming\<close>

lemma Reset_wf: "buf_wf b \<Longrightarrow> buf_wf (Buffer_Reset b) \<and> readable (Buffer_Reset b) = []"
  by (simp add: Buffer_Reset_def Truncate_def buf_wf_def readable_def)

lemma advance_wf:
  assumes wf: "buf_wf b" and n: "n \<le> length (readable b)"
  shows "buf_wf (b\<lparr>read_index := size_t (read_index b + n)\<rparr>)"
    and "readable (b\<lparr>read_index := size_t (read_index b + n)\<rparr>) = drop n (readable b)"
proof -
  have idx: "read_index b + n \<le> write_index b" "read_index b + n < 2 ^ 64"
    using wf n length_readable [OF wf] unfolding buf_wf_def by linarith+
  then have e: "size_t (read_index b + n) = read_index b + n" by simp
  show "buf_wf (b\<lparr>read_index := size_t (read_index b + n)\<rparr>)"
    unfolding e using wf idx by (simp add: buf_wf_def)
  show "readable (b\<lparr>read_index := size_t (read_index b + n)\<rparr>) = drop n (readable b)"
    unfolding e by (simp add: readable_def drop_take add.commute)
qed

lemma Skip_wf:
  assumes "buf_wf b"
  obtains b' where "Skip n b = Some b'" "buf_wf b'" "readable b' = drop n (readable b)"
    "capacity b' = capacity b" "reserved_prepend_size b' = reserved_prepend_size b"
proof (cases "n < length (readable b)")
  case True
  with assms advance_wf [of b n] that show thesis
    by (simp add: Skip_def checked)
next
  case False
  with assms Reset_wf [of b] that show thesis
    by (simp add: Skip_def checked Buffer_Reset_def Truncate_def)
qed

lemma NextAll_wf:
  assumes "buf_wf b"
  shows "NextAll b = Some (readable b, Buffer_Reset b)"
  using assms by (simp add: NextAll_def checked)

lemma Next_wf:
  assumes "buf_wf b"
  obtains b' where "Next n b = Some (take n (readable b), b')" "buf_wf b'"
    "readable b' = drop n (readable b)" "capacity b' = capacity b"
    "reserved_prepend_size b' = reserved_prepend_size b"
proof (cases "n < length (readable b)")
  case True
  with assms advance_wf [of b n] that show thesis
    by (simp add: Next_def checked)
next
  case False
  with assms Reset_wf [of b] that show thesis
    by (simp add: Next_def NextAll_wf checked Buffer_Reset_def Truncate_def)
qed

subsection \<open>Byte order\<close>

lemma length_bytes_le [simp]: "length (bytes_le n x) = n"
  by (induction n arbitrary: x) simp_all

lemma value_bytes_le: "value_le (bytes_le n x) = x mod 256 ^ n"
proof (induction n arbitrary: x)
  case 0
  show ?case by simp
next
  case (Suc n)
  have "value_le (bytes_le (Suc n) x) = x mod 256 + 256 * (x div 256 mod 256 ^ n)"
    by (simp add: Suc)
  also have "\<dots> = x mod (256 * 256 ^ n)"
    by (simp add: mod_mult2_eq)
  finally show ?case by simp
qed

lemma bytes_value_le: "bytes_le (length bs) (value_le bs) = bs"
  by (induction bs) (simp_all add: of_char_mod_256)

lemma value_le_less: "value_le bs < 256 ^ length bs"
proof (induction bs)
  case Nil
  show ?case by simp
next
  case (Cons c cs)
  have "of_char c < (256 :: nat)" by (rule nat_of_char_less_256)
  with Cons show ?case
    unfolding value_le.simps length_Cons power_Suc by linarith
qed

lemma bytes_le_nth: "k < n \<Longrightarrow> bytes_le n x ! k = char_of (x div 256 ^ k mod 256)"
proof (induction n arbitrary: x k)
  case 0
  then show ?case by simp
next
  case (Suc n)
  then show ?case by (cases k) (simp_all add: div_mult2_eq)
qed

lemma length_be [simp]: "length (be k n) = k"
  by (simp add: be_def)

lemma be_value_be: "be_value (be k n) = n mod 256 ^ k"
  by (simp add: be_value_def be_def value_bytes_le)

lemma mem_repr_hton [simp]: "mem_repr e n (hton e n x) = rev (bytes_le n x)"
  using bytes_value_le [of "rev (bytes_le n x)"] by (cases e) (simp_all add: mem_repr_def hton_def)

lemma hton_mem_value [simp]:
  "length bs = n \<Longrightarrow> hton e n (mem_value e bs) = value_le (rev bs)"
  using bytes_value_le [of bs] by (cases e) (auto simp: mem_value_def hton_def)

lemma mask_byte:
  "(0xff :: 64 word) = mask 8" "(0xff00 :: 64 word) = push_bit 8 (mask 8)"
  "(0xff0000 :: 64 word) = push_bit 16 (mask 8)" "(0xff000000 :: 64 word) = push_bit 24 (mask 8)"
  "(0xff00000000 :: 64 word) = push_bit 32 (mask 8)"
  "(0xff0000000000 :: 64 word) = push_bit 40 (mask 8)"
  "(0xff000000000000 :: 64 word) = push_bit 48 (mask 8)"
  "(0xff00000000000000 :: 64 word) = push_bit 56 (mask 8)"
  by (simp_all add: mask_eq_exp_minus_1 push_bit_eq_mult)

lemma bit_evppbswap_64:
  "\<forall>k \<in> set [0..<8]. \<forall>n \<in> set [0..<8].
     bit (evppbswap_64 x) (8 * k + n) = bit x (8 * (7 - k) + n)"
  unfolding evppbswap_64_def mask_byte
  by (simp add: upt_rec bit_simps) (simp add: numeral_eq_Suc)

lemma byte_evppbswap_64:
  assumes "k < 8"
  shows "take_bit 8 (drop_bit (8 * k) (evppbswap_64 x)) = take_bit 8 (drop_bit (8 * (7 - k)) x)"
proof (rule bit_word_eqI)
  fix n assume "n < LENGTH(64)"
  have "n < 8 \<Longrightarrow> bit (evppbswap_64 x) (8 * k + n) = bit x (8 * (7 - k) + n)"
    using bit_evppbswap_64 [of x] assms by simp
  then show "bit (take_bit 8 (drop_bit (8 * k) (evppbswap_64 x))) n
      = bit (take_bit 8 (drop_bit (8 * (7 - k)) x)) n"
    by (auto simp: bit_simps)
qed

lemma unat_byte: "unat (take_bit 8 (drop_bit (8 * k) (x :: 64 word))) = unat x div 256 ^ k mod 256"
proof -
  have "unat (take_bit 8 (drop_bit (8 * k) x)) = take_bit 8 (drop_bit (8 * k) (unat x))"
    by (simp add: unsigned_take_bit_eq unat_drop_bit_eq)
  also have "\<dots> = unat x div 2 ^ (8 * k) mod 2 ^ 8"
    by (simp only: take_bit_eq_mod drop_bit_eq_div)
  finally show ?thesis by (simp add: power_mult)
qed

lemma bytes_evppbswap_64: "bytes_le 8 (unat (evppbswap_64 x)) = rev (bytes_le 8 (unat x))"
proof (rule nth_equalityI)
  show "length (bytes_le 8 (unat (evppbswap_64 x))) = length (rev (bytes_le 8 (unat x)))" by simp
next
  fix k assume "k < length (bytes_le 8 (unat (evppbswap_64 x)))"
  then have k: "k < 8" by simp
  have "unat (evppbswap_64 x) div 256 ^ k mod 256 = unat x div 256 ^ (7 - k) mod 256"
    unfolding unat_byte [symmetric] byte_evppbswap_64 [OF k] ..
  with k show "bytes_le 8 (unat (evppbswap_64 x)) ! k = rev (bytes_le 8 (unat x)) ! k"
    by (simp add: bytes_le_nth rev_nth)
qed

lemma evppbswap_64_value:
  assumes "length bs = 8"
  shows "evppbswap_64 (of_nat (value_le bs)) = of_nat (value_le (rev bs))"
proof -
  have less: "value_le bs < 2 ^ 64" "value_le (rev bs) < 2 ^ 64"
    using value_le_less [of bs] value_le_less [of "rev bs"] assms by simp_all
  let ?x = "of_nat (value_le bs) :: 64 word"
  have "bytes_le 8 (unat (evppbswap_64 ?x)) = rev bs"
    using less(1) bytes_value_le [of bs] assms
    by (simp add: bytes_evppbswap_64 unat_of_nat)
  then have "value_le (bytes_le 8 (unat (evppbswap_64 ?x))) = value_le (rev bs)" by simp
  then have "unat (evppbswap_64 ?x) = value_le (rev bs)"
    using unsigned_less [of "evppbswap_64 ?x", where ?'a = nat] by (simp add: value_bytes_le)
  then show ?thesis by (metis of_nat_unat ucast_id)
qed

lemma peek_bytes_wf [checked]:
  assumes "buf_wf b" and "readable b = map Some (s @ t)" and "length s = n"
  shows "peek_bytes n b = Some s"
  using assms by (simp add: peek_bytes_def checked take_map)

lemma mem_value_repr: "mem_value e (mem_repr e n x) = x mod 256 ^ n"
  by (cases e) (simp_all add: mem_value_def mem_repr_def value_bytes_le)

lemma value_unat:
  "of_nat (value_le (bytes_le 8 (unat x))) = (x :: 64 word)"
  "of_nat (value_le (bytes_le 4 (unat y))) = (y :: 32 word)"
  "of_nat (value_le (bytes_le 2 (unat z))) = (z :: 16 word)"
  using unsigned_less [of x, where ?'a = nat] unsigned_less [of y, where ?'a = nat]
    unsigned_less [of z, where ?'a = nat]
  by (simp_all add: value_bytes_le)

lemma evppbswap_64_invol [simp]: "evppbswap_64 (evppbswap_64 x) = x"
  using evppbswap_64_value [of "bytes_le 8 (unat x)"]
    evppbswap_64_value [of "rev (bytes_le 8 (unat x))"]
  by (simp add: value_unat)

lemma ReadInt64_wire:
  assumes "buf_wf b" and "readable b = map Some (mem_repr e 8 (unat (evppbswap_64 x))) @ t"
  obtains b' where "ReadInt64 e b = Some (x, b')" "buf_wf b'" "readable b' = t"
proof -
  let ?s = "mem_repr e 8 (unat (evppbswap_64 x))"
  have len: "length ?s = 8" by (cases e) (simp_all add: mem_repr_def)
  have val: "mem_value e ?s = unat (evppbswap_64 x)"
    using unsigned_less [of "evppbswap_64 x", where ?'a = nat] by (simp add: mem_value_repr)
  have "peek_bytes 8 b = Some ?s"
    using assms len by (simp add: peek_bytes_def checked)
  then have "PeekInt64 e b = Some x" by (simp add: PeekInt64_def val)
  moreover obtain b' where "Skip 8 b = Some b'" "buf_wf b'" "readable b' = drop 8 (readable b)"
    using Skip_wf assms(1) by blast
  ultimately show thesis using that assms(2) len by (simp add: ReadInt64_def)
qed

lemma ReadInt_wire:
  assumes "buf_wf b" and "readable b = map Some (rev (bytes_le n v)) @ t" and "Skip n b = Some b'"
  shows "n = 4 \<Longrightarrow> v = unat x \<Longrightarrow> ReadInt32 e b = Some (x, b')"
    and "n = 2 \<Longrightarrow> v = unat y \<Longrightarrow> ReadInt16 e b = Some (y, b')"
    and "n = 1 \<Longrightarrow> v = unat z \<Longrightarrow> ReadInt8 b = Some (z, b')"
proof -
  have peek: "peek_bytes n b = Some (rev (bytes_le n v))"
    using assms by (simp add: peek_bytes_def checked)
  show "n = 4 \<Longrightarrow> v = unat x \<Longrightarrow> ReadInt32 e b = Some (x, b')"
    using peek assms(3) by (simp add: ReadInt32_def PeekInt32_def value_unat)
  show "n = 2 \<Longrightarrow> v = unat y \<Longrightarrow> ReadInt16 e b = Some (y, b')"
    using peek assms(3) by (simp add: ReadInt16_def PeekInt16_def value_unat)
  show "n = 1 \<Longrightarrow> v = unat z \<Longrightarrow> ReadInt8 b = Some (z, b')"
    using peek assms(3) unsigned_less [of z, where ?'a = nat]
    by (simp add: ReadInt8_def PeekInt8_def)
qed

subsection \<open>The interface the connection and HTTP code use\<close>

text \<open>
  A byte stream accepts bytes at one end and hands them out at the other. The laws are what
  the clients of \<^verbatim>\<open>Buffer\<close> rely on; the lemma below is the client's view of any sequence of
  calls.
\<close>

datatype stream_op = Put "byte list" | Get nat

fun run_ops :: "(byte list \<Rightarrow> 'b \<Rightarrow> 'b option) \<Rightarrow> (nat \<Rightarrow> 'b \<Rightarrow> (cell list \<times> 'b) option) \<Rightarrow>
    stream_op list \<Rightarrow> 'b \<Rightarrow> (cell list list \<times> 'b) option" where
  "run_ops put get [] b = Some ([], b)"
| "run_ops put get (Put d # ops) b = do { b' \<leftarrow> put d b; run_ops put get ops b' }"
| "run_ops put get (Get n # ops) b =
     do { (s, b') \<leftarrow> get n b; (t, b'') \<leftarrow> run_ops put get ops b'; Some (s # t, b'') }"

fun spec_ops :: "stream_op list \<Rightarrow> cell list \<Rightarrow> cell list list \<times> cell list" where
  "spec_ops [] xs = ([], xs)"
| "spec_ops (Put d # ops) xs = spec_ops ops (xs @ map Some d)"
| "spec_ops (Get n # ops) xs =
     (let (t, ys) = spec_ops ops (drop n xs) in (take n xs # t, ys))"
  \<comment> \<open>the abstract queue: its state is the list of bytes written and not yet read\<close>

fun put_bytes :: "stream_op list \<Rightarrow> byte list" where
  "put_bytes [] = []"
| "put_bytes (Put d # ops) = d @ put_bytes ops"
| "put_bytes (Get n # ops) = put_bytes ops"

lemma spec_ops_fifo:
  "spec_ops ops xs = (out, ys) \<Longrightarrow> concat out @ ys = xs @ map Some (put_bytes ops)"
proof (induction ops xs arbitrary: out rule: spec_ops.induct)
  case (3 n ops xs)
  then obtain t where "spec_ops ops (drop n xs) = (t, ys)" "out = take n xs # t"
    by (auto split: prod.splits)
  with 3(1) have "concat t @ ys = drop n xs @ map Some (put_bytes ops)" by blast
  with \<open>out = take n xs # t\<close> show ?case by simp
qed simp_all

locale byte_stream =
  fixes inv :: "'b \<Rightarrow> bool"
    and contents :: "'b \<Rightarrow> cell list"
    and limit :: nat
    and put :: "byte list \<Rightarrow> 'b \<Rightarrow> 'b option"
    and get :: "nat \<Rightarrow> 'b \<Rightarrow> (cell list \<times> 'b) option"
  assumes put_law: "inv b \<Longrightarrow> length (contents b) + length d \<le> limit \<Longrightarrow>
      \<exists>b'. put d b = Some b' \<and> inv b' \<and> contents b' = contents b @ map Some d"
    and get_law: "inv b \<Longrightarrow>
      \<exists>b'. get n b = Some (take n (contents b), b') \<and> inv b' \<and> contents b' = drop n (contents b)"
begin

lemma run_ops_refines:
  "inv b \<Longrightarrow> length (contents b) + length (put_bytes ops) \<le> limit \<Longrightarrow>
     \<exists>b'. run_ops put get ops b = Some (fst (spec_ops ops (contents b)), b') \<and> inv b'
          \<and> contents b' = snd (spec_ops ops (contents b))"
proof (induction ops arbitrary: b)
  case Nil
  then show ?case by simp
next
  case (Cons op ops)
  show ?case
  proof (cases op)
    case (Put d)
    then obtain b1 where b1: "put d b = Some b1" "inv b1" "contents b1 = contents b @ map Some d"
      using put_law [OF Cons.prems(1), of d] Cons.prems(2) by auto
    with Put Cons.prems(2) show ?thesis using Cons.IH [OF b1(2)] by auto
  next
    case (Get n)
    obtain b1 where b1: "get n b = Some (take n (contents b), b1)" "inv b1"
      "contents b1 = drop n (contents b)"
      using get_law [OF Cons.prems(1)] by blast
    have "length (contents b1) + length (put_bytes ops) \<le> limit"
      using Get Cons.prems(2) b1(3) by simp
    from Cons.IH [OF b1(2) this] obtain b' where
      "run_ops put get ops b1 = Some (fst (spec_ops ops (contents b1)), b')" "inv b'"
      "contents b' = snd (spec_ops ops (contents b1))" by blast
    then show ?thesis using Get b1 by (simp add: split_beta)
  qed
qed

end

definition buf_ok :: "buffer \<Rightarrow> bool" where
  "buf_ok b \<longleftrightarrow> buf_wf b \<and> capacity b \<le> 2 ^ 62 \<and> reserved_prepend_size b \<le> 2 ^ 32"
  \<comment> \<open>well-formed, and far enough from the end of the address space for growing\<close>

definition stream_limit :: nat where
  "stream_limit = 2 ^ 60"
  \<comment> \<open>more bytes than any machine holds; below it the block's size never wraps around\<close>

lemma Write_ok:
  assumes "buf_ok b" and "length (readable b) + length d \<le> stream_limit"
  obtains b' where "Write d b = Some b'" "buf_ok b'" "readable b' = readable b @ map Some d"
proof -
  have "room_for b (length d)" and wf: "buf_wf b"
    using assms unfolding room_for_def buf_ok_def stream_limit_def by (simp_all)
  then obtain b' where b': "Write d b = Some b'" "buf_wf b'" "readable b' = readable b @ map Some d"
    "capacity b' \<le> max (capacity b) (3 * (length (readable b) + reserved_prepend_size b + length d))"
    "reserved_prepend_size b' = reserved_prepend_size b"
    using Write_wf by blast
  then have "capacity b' \<le> 2 ^ 62"
    using assms unfolding buf_ok_def stream_limit_def by (auto simp: max_def split: if_splits)
  with b' assms that show thesis by (simp add: buf_ok_def)
qed

interpretation buf: byte_stream buf_ok readable stream_limit Write Next
proof (unfold_locales, goal_cases)
  case (1 b d)
  then obtain b' where "Write d b = Some b'" "buf_ok b'" "readable b' = readable b @ map Some d"
    by (rule Write_ok)
  then show ?case by blast
next
  case (2 b n)
  then have "buf_wf b" by (simp add: buf_ok_def)
  then obtain b' where "Next n b = Some (take n (readable b), b')" "buf_wf b'"
    "readable b' = drop n (readable b)" "capacity b' = capacity b"
    "reserved_prepend_size b' = reserved_prepend_size b"
    by (rule Next_wf)
  with 2 show ?case by (simp add: buf_ok_def)
qed

subsection \<open>Truncating, shrinking and reserving\<close>

lemma Truncate_wf:
  assumes wf: "buf_wf b" and n: "read_index b + n < 2 ^ 64"
  shows "buf_wf (Truncate n b) \<and> readable (Truncate n b) = take n (readable b)"
proof (cases "n = 0")
  case True
  then show ?thesis using wf by (simp add: Truncate_def buf_wf_def readable_def)
next
  case False
  have "take n (readable b) = readable b" if "\<not> read_index b + n < write_index b"
    using that length_readable [OF wf] by simp
  then show ?thesis using False wf n
    by (cases "read_index b + n < write_index b")
      (simp_all add: Truncate_def, simp_all add: buf_wf_def readable_def min_def)
qed

lemma Shrink_wf:
  assumes wf: "buf_wf b" and room: "3 * (kCheapPrependSize + length (readable b) + reserve) < 2 ^ 64"
  obtains b' where "Shrink reserve b = Some b'" "buf_wf b'" "readable b' = readable b"
    "reserved_prepend_size b' = kCheapPrependSize" "read_index b' = kCheapPrependSize"
    "capacity b' = kCheapPrependSize + length (readable b) + reserve"
proof -
  let ?n = "length (readable b) + reserve"
  have "kCheapPrependSize + ?n < 2 ^ 64" and sz: "size_t ?n = ?n" using room by simp_all
  then obtain c where c: "Buffer_new ?n kCheapPrependSize = Some c" "buf_wf c" "readable c = []"
    "capacity c = kCheapPrependSize + ?n" "reserved_prepend_size c = kCheapPrependSize"
    "read_index c = kCheapPrependSize"
    using Buffer_new_wf by blast
  have w: "write_index c = kCheapPrependSize"
    using c(2,3,6) length_readable [OF c(2)] by (simp add: buf_wf_def)
  have len: "length (storage c) = capacity c" using c(2) by (simp add: buf_wf_def)
  define m where "m = take (write_index c) (storage c) @ readable b
    @ drop (write_index c + length (readable b)) (storage c)"
  define b' where "b' = c\<lparr>storage := m, write_index := write_index c + length (readable b)\<rparr>"
  have "Write_cells (readable b) c = Some b'"
    using c w len room
    by (simp add: Write_cells_def EnsureWritableBytes_def checked b'_def m_def mem_write_ok)
  then have "Shrink reserve b = Some b'"
    using wf c(1) sz by (simp add: Shrink_def checked Buffer_Swap_def)
  moreover have "readable b' = readable b"
    using w c len by (intro readable_window [where p = "take (write_index c) (storage c)"
      and q = "drop (write_index c + length (readable b)) (storage c)"]) (simp_all add: b'_def m_def)
  moreover have "buf_wf b'"
    using c w len room by (simp add: buf_wf_def b'_def m_def)
  ultimately show thesis using that c by (simp add: b'_def)
qed

subsection \<open>Searching and reading from a socket\<close>

lemma ReadFromFD_wf:
  assumes ok: "buf_ok b" and n: "length bs \<le> readv_capacity b"
    and lim: "length (readable b) + length bs \<le> stream_limit"
  obtains b' where "ReadFromFD (Readv_ok bs) b = Some (int (length bs), None, b')" "buf_ok b'"
    "readable b' = readable b @ map Some bs"
proof -
  have wf: "buf_wf b" using ok by (simp add: buf_ok_def)
  let ?w = "capacity b - write_index b" and ?i = "write_index b"
  let ?d = "map Some (take ?w bs)"
  have idx: "?i + length ?d \<le> capacity b" "?i + length ?d \<le> length (storage b)"
    using wf unfolding buf_wf_def by (auto simp: min_def)
  define b1 where "b1 = b\<lparr>storage := take ?i (storage b) @ ?d @ drop (?i + length ?d) (storage b),
    write_index := ?i + length ?d\<rparr>"
  have b1: "buf_wf b1" "readable b1 = readable b @ ?d" "buf_ok b1"
    using storage_write [OF wf idx(1)] ok by (simp_all add: b1_def buf_ok_def)
  show thesis
  proof (cases "length bs \<le> ?w")
    case True
    then have "size_t (?i + length bs) = ?i + length bs"
      using wf unfolding buf_wf_def by (intro size_t_id) linarith
    then have "ReadFromFD (Readv_ok bs) b = Some (int (length bs), None, b1)"
      using True wf n idx by (simp add: ReadFromFD_def checked b1_def Let_def)
    then show thesis using that b1 True by simp
  next
    case False
    then have full: "b1 = b\<lparr>storage := take ?i (storage b) @ ?d @ drop (?i + length ?d) (storage b),
        write_index := capacity b\<rparr>"
      using wf by (simp add: b1_def buf_wf_def)
    have "length (readable b1) + length (drop ?w bs) \<le> stream_limit"
      using b1(2) lim False by simp
    then obtain b2 where b2: "Write (drop ?w bs) b1 = Some b2" "buf_ok b2"
      "readable b2 = readable b1 @ map Some (drop ?w bs)"
      using Write_ok b1(3) by blast
    then have "ReadFromFD (Readv_ok bs) b = Some (int (length bs), None, b2)"
      using False wf n idx by (simp add: ReadFromFD_def checked Append_def full Let_def)
    moreover have "readable b2 = readable b @ map Some bs"
      using b1(2) b2(3) by (simp flip: map_append)
    ultimately show thesis using that b2(2) by blast
  qed
qed

lemma FindCRLF_wf:
  assumes "buf_wf b" and "readable b = map Some s"
  shows "FindCRLF b = Some (if search_seq s kCRLF = length s then None
                            else Some (read_index b + search_seq s kCRLF))"
    and "FindEOL b = Some (if find_if_idx (\<lambda>x. x = LF) s < length s
                           then Some (read_index b + find_if_idx (\<lambda>x. x = LF) s) else None)"
proof -
  have len: "write_index b = read_index b + length s"
    using assms length_readable [OF assms(1)] by (simp add: buf_wf_def)
  have "mem_read (storage b) (read_index b) (write_index b - read_index b) = Some (map Some s)"
    using assms mem_read_readable [OF assms(1), of "length s"] by (simp add: len)
  then show "FindCRLF b = Some (if search_seq s kCRLF = length s then None
                            else Some (read_index b + search_seq s kCRLF))"
    and "FindEOL b = Some (if find_if_idx (\<lambda>x. x = LF) s < length s
                           then Some (read_index b + find_if_idx (\<lambda>x. x = LF) s) else None)"
    by (simp_all add: FindCRLF_def FindCRLF_from_def FindEOL_def FindEOL_from_def len Let_def)
qed

lemma Prepend_Skip:
  assumes "buf_wf b" and "length d \<le> read_index b"
  shows "\<exists>b1 b2. Prepend d b = Some b1 \<and> buf_wf b1 \<and> readable b1 = map Some d @ readable b
      \<and> Skip (length d) b1 = Some b2 \<and> readable b2 = readable b"
proof -
  obtain b1 where b1: "Prepend d b = Some b1" "buf_wf b1" "readable b1 = map Some d @ readable b"
    using Prepend_wf [OF assms] by blast
  obtain b2 where "Skip (length d) b1 = Some b2" "readable b2 = drop (length d) (readable b1)"
    using Skip_wf [OF b1(2)] by blast
  with b1 show ?thesis by simp
qed

lemma Write_short:
  assumes "buf_ok b" and "length (readable b) + 8 \<le> stream_limit" and "length d \<le> 8"
  shows "\<exists>b'. Write d b = Some b' \<and> buf_ok b' \<and> readable b' = readable b @ map Some d"
proof -
  have "length (readable b) + length d \<le> stream_limit" using assms by linarith
  then show ?thesis using Write_ok assms(1) by blast
qed

lemma length_mem_repr [simp]: "length (mem_repr e n x) = n"
  by (cases e) (simp_all add: mem_repr_def)

section \<open>Claims\<close>

text \<open>C1. A \<^verbatim>\<open>Buffer\<close> is a FIFO queue of bytes: any sequence of \<^verbatim>\<open>Write\<close> and \<^verbatim>\<open>Next\<close> calls
  completes without an assertion failure or an access outside the block, each \<^verbatim>\<open>Next\<close> returns
  what the list queue returns, the invariant is kept, and what was read followed by what is left
  is what was there followed by what was written, whatever growing and moving took place.\<close>

theorem buffer_refines_queue:
  assumes "buf_ok b" and "length (readable b) + length (put_bytes ops) \<le> stream_limit"
  shows "\<exists>out b'. run_ops Write Next ops b = Some (out, b') \<and> buf_ok b'
           \<and> (out, readable b') = spec_ops ops (readable b)
           \<and> concat out @ readable b' = readable b @ map Some (put_bytes ops)"
proof -
  obtain b' where "run_ops Write Next ops b = Some (fst (spec_ops ops (readable b)), b')"
    "buf_ok b'" "readable b' = snd (spec_ops ops (readable b))"
    using buf.run_ops_refines [OF assms] by blast
  then show ?thesis using spec_ops_fifo [of ops "readable b"] by (cases "spec_ops ops (readable b)") auto
qed

definition small_buffer :: buffer where
  "small_buffer = \<lparr>storage = replicate 10 None, capacity = 10, read_index = 8, write_index = 8,
     reserved_prepend_size = 8\<rparr>"
  \<comment> \<open>the result of \<^verbatim>\<open>Buffer(2, 8)\<close>\<close>

lemma small_buffer_ok: "Buffer_new 2 8 = Some small_buffer" "buf_ok small_buffer"
    "buf_wf small_buffer" "readable small_buffer = []"
    "read_index small_buffer = 8" "write_index small_buffer = 8" "capacity small_buffer = 10"
  by (simp_all add: small_buffer_def Buffer_new_def Buffer_length_def WritableBytes_def
      PrependableBytes_def buf_ok_def buf_wf_def readable_def)

theorem buffer_refines_queue_witness:
  "\<exists>out b'. run_ops Write Next [Put ''hello'', Get 2, Put ''!'', Get 9] small_buffer = Some (out, b')
     \<and> buf_ok b' \<and> out = [map Some ''he'', map Some ''llo!''] \<and> readable b' = []"
proof -
  have "length (readable small_buffer) + length (put_bytes [Put ''hello'', Get 2, Put ''!'', Get 9])
      \<le> stream_limit" by (simp add: small_buffer_ok stream_limit_def)
  from buffer_refines_queue [OF small_buffer_ok(2) this] show ?thesis
    by (auto simp: small_buffer_ok)
qed

text \<open>C2. Integers survive a round trip through a buffer on either kind of machine: what
  \<^verbatim>\<open>PrependInt64/32/16/8\<close> puts in front of the contents, \<^verbatim>\<open>ReadInt64/32/16/8\<close> takes off again with
  the same value, leaving the contents as they were.\<close>

theorem int_roundtrip:
  assumes wf: "buf_wf b" and r: "8 \<le> read_index b"
  shows "(\<exists>b1 b2. PrependInt64 e x b = Some b1 \<and> ReadInt64 e b1 = Some (x, b2) \<and> readable b2 = readable b)
    \<and> (\<exists>b1 b2. PrependInt32 e y b = Some b1 \<and> ReadInt32 e b1 = Some (y, b2) \<and> readable b2 = readable b)
    \<and> (\<exists>b1 b2. PrependInt16 e z b = Some b1 \<and> ReadInt16 e b1 = Some (z, b2) \<and> readable b2 = readable b)
    \<and> (\<exists>b1 b2. PrependInt8 u b = Some b1 \<and> ReadInt8 b1 = Some (u, b2) \<and> readable b2 = readable b)"
proof (intro conjI)
  obtain b1 where b1: "PrependInt64 e x b = Some b1" "buf_wf b1"
    "readable b1 = map Some (mem_repr e 8 (unat (evppbswap_64 x))) @ readable b"
    using Prepend_Skip [OF wf, of "mem_repr e 8 (unat (evppbswap_64 x))"] r
    by (auto simp: PrependInt64_def)
  from ReadInt64_wire [OF b1(2,3)] b1(1)
  show "\<exists>b1 b2. PrependInt64 e x b = Some b1 \<and> ReadInt64 e b1 = Some (x, b2) \<and> readable b2 = readable b"
    by metis
  show "\<exists>b1 b2. PrependInt32 e y b = Some b1 \<and> ReadInt32 e b1 = Some (y, b2) \<and> readable b2 = readable b"
    using Prepend_Skip [OF wf, of "rev (bytes_le 4 (unat y))"] r
      ReadInt_wire(1) [where n = 4 and v = "unat y" and x = y and e = e]
    by (fastforce simp: PrependInt32_def)
  show "\<exists>b1 b2. PrependInt16 e z b = Some b1 \<and> ReadInt16 e b1 = Some (z, b2) \<and> readable b2 = readable b"
    using Prepend_Skip [OF wf, of "rev (bytes_le 2 (unat z))"] r
      ReadInt_wire(2) [where n = 2 and v = "unat z" and y = z and e = e]
    by (fastforce simp: PrependInt16_def)
  show "\<exists>b1 b2. PrependInt8 u b = Some b1 \<and> ReadInt8 b1 = Some (u, b2) \<and> readable b2 = readable b"
    using Prepend_Skip [OF wf, of "rev (bytes_le 1 (unat u))"] r
      ReadInt_wire(3) [where n = 1 and v = "unat u" and z = u]
    by (fastforce simp: PrependInt8_def char_of_mod_256)
qed

theorem int_roundtrip_witness:
  "\<exists>b1 b2. PrependInt64 LittleEndian 0x0102030405060708 small_buffer = Some b1
     \<and> ReadInt64 LittleEndian b1 = Some (0x0102030405060708, b2) \<and> readable b2 = []"
  using int_roundtrip [of small_buffer LittleEndian "0x0102030405060708"]
  by (simp add: small_buffer_ok)

text \<open>Integers are appended in network byte order: \<^verbatim>\<open>AppendInt32\<close> and \<^verbatim>\<open>AppendInt16\<close> write the most
  significant byte first on every machine, \<^verbatim>\<open>AppendInt64\<close> does so on a little-endian one. On a
  big-endian machine \<^verbatim>\<open>AppendInt64\<close> writes the least significant byte first, because it swaps
  the bytes unconditionally.\<close>

lemma AppendInt_wire_order:
  assumes "buf_ok b" and "length (readable b) + 8 \<le> stream_limit"
  shows "(\<exists>b'. AppendInt64 LittleEndian x b = Some b' \<and> buf_ok b'
          \<and> readable b' = readable b @ map Some (rev (bytes_le 8 (unat x))))
    \<and> (\<exists>b'. AppendInt64 BigEndian x b = Some b' \<and> buf_ok b'
          \<and> readable b' = readable b @ map Some (bytes_le 8 (unat x)))
    \<and> (\<exists>b'. AppendInt32 e y b = Some b' \<and> buf_ok b'
          \<and> readable b' = readable b @ map Some (rev (bytes_le 4 (unat y))))
    \<and> (\<exists>b'. AppendInt16 e z b = Some b' \<and> buf_ok b'
          \<and> readable b' = readable b @ map Some (rev (bytes_le 2 (unat z))))"
  using Write_short [OF assms, of "rev (bytes_le 8 (unat x))"]
    Write_short [OF assms, of "bytes_le 8 (unat x)"]
    Write_short [OF assms, of "rev (bytes_le 4 (unat y))"]
    Write_short [OF assms, of "rev (bytes_le 2 (unat z))"]
  by (simp add: AppendInt64_def AppendInt32_def AppendInt16_def mem_repr_def [of _ 8] bytes_evppbswap_64)

lemma AppendInt_wire_order_witness:
  "\<exists>b'. AppendInt16 LittleEndian 0x0102 small_buffer = Some b'
     \<and> readable b' = [Some (char_of (1 :: nat)), Some (char_of (2 :: nat))]"
proof -
  have "length (readable small_buffer) + 8 \<le> stream_limit"
    by (simp add: small_buffer_ok stream_limit_def)
  from AppendInt_wire_order [OF small_buffer_ok(2) this, where e = LittleEndian and z = "0x0102"]
  have "\<exists>b'. AppendInt16 LittleEndian 0x0102 small_buffer = Some b'
      \<and> readable b' = map Some (rev (bytes_le 2 258))"
    by (auto simp: small_buffer_ok)
  then show ?thesis by (simp add: numeral_2_eq_2)
qed

text \<open>\<^verbatim>\<open>ReadFromFD\<close> appends exactly the bytes that \<^verbatim>\<open>readv\<close> delivered, in order, whether they
  fitted into the block or spilled into the 64 KiB stack buffer, and returns their number; when
  \<^verbatim>\<open>readv\<close> fails it returns -1 with the \<^verbatim>\<open>errno\<close> and leaves the buffer as it was.\<close>

lemma ReadFromFD_appends:
  assumes "buf_ok b" and "length bs \<le> readv_capacity b"
    and "length (readable b) + length bs \<le> stream_limit"
  shows "(\<exists>b'. ReadFromFD (Readv_ok bs) b = Some (int (length bs), None, b') \<and> buf_ok b'
           \<and> readable b' = readable b @ map Some bs)
    \<and> ReadFromFD (Readv_error e) b = Some (-1, Some e, b)"
proof -
  have "ReadFromFD (Readv_error e) b = Some (-1, Some e, b)"
    using assms(1) by (simp add: ReadFromFD_def buf_ok_def checked)
  then show ?thesis using ReadFromFD_wf [OF assms] by metis
qed

lemma ReadFromFD_appends_witness:
  "\<exists>b'. ReadFromFD (Readv_ok ''spill'') small_buffer = Some (5, None, b')
     \<and> readable b' = map Some ''spill''"
proof -
  have "length ''spill'' \<le> readv_capacity small_buffer"
      "length (readable small_buffer) + length ''spill'' \<le> stream_limit"
    by (simp_all add: small_buffer_ok stream_limit_def readv_capacity_def extrabuf_size_def)
  from ReadFromFD_appends [OF small_buffer_ok(2) this] show ?thesis
    by (auto simp: small_buffer_ok)
qed

text \<open>\<^verbatim>\<open>FindCRLF\<close> and \<^verbatim>\<open>FindEOL\<close> find the first line end in the readable bytes: a result points
  at a CR LF (at a LF) with none before it, and \<^verbatim>\<open>nullptr\<close> means that there is none. Neither reads
  outside the readable bytes.\<close>

lemma Find_line_end:
  assumes wf: "buf_wf b" and rd: "readable b = map Some s"
  shows "(\<exists>r. FindCRLF b = Some r \<and>
      (case r of None \<Rightarrow> \<nexists>p q. s = p @ kCRLF @ q
       | Some i \<Rightarrow> \<exists>p q. s = p @ kCRLF @ q \<and> i = read_index b + length p
           \<and> (\<nexists>p' q'. s = p' @ kCRLF @ q' \<and> length p' < length p)))
    \<and> (\<exists>r. FindEOL b = Some r \<and>
      (case r of None \<Rightarrow> LF \<notin> set s
       | Some i \<Rightarrow> \<exists>p q. s = p @ [LF] @ q \<and> i = read_index b + length p \<and> LF \<notin> set p))"
proof (intro conjI exI)
  show "FindCRLF b = Some (if search_seq s kCRLF = length s then None
      else Some (read_index b + search_seq s kCRLF))"
    and "FindEOL b = Some (if find_if_idx (\<lambda>x. x = LF) s < length s
      then Some (read_index b + find_if_idx (\<lambda>x. x = LF) s) else None)"
    using FindCRLF_wf [OF assms] .
  show "case if search_seq s kCRLF = length s then None else Some (read_index b + search_seq s kCRLF) of
      None \<Rightarrow> \<nexists>p q. s = p @ kCRLF @ q
    | Some i \<Rightarrow> \<exists>p q. s = p @ kCRLF @ q \<and> i = read_index b + length p
        \<and> (\<nexists>p' q'. s = p' @ kCRLF @ q' \<and> length p' < length p)"
  proof (cases "search_seq s kCRLF = length s")
    case True
    then show ?thesis using search_seq_none [of s kCRLF] by (simp add: kCRLF_def)
  next
    case False
    then obtain p q where "s = p @ kCRLF @ q" "length p = search_seq s kCRLF"
      "\<forall>p' q'. s = p' @ kCRLF @ q' \<longrightarrow> length p \<le> length p'"
      by (rule search_seq_some)
    with False have "s = p @ kCRLF @ q \<and> read_index b + search_seq s kCRLF = read_index b + length p
        \<and> (\<nexists>p' q'. s = p' @ kCRLF @ q' \<and> length p' < length p)" by (auto simp: not_less)
    with False show ?thesis by (simp only: if_False option.case) blast
  qed
  show "case if find_if_idx (\<lambda>x. x = LF) s < length s
      then Some (read_index b + find_if_idx (\<lambda>x. x = LF) s) else None of
      None \<Rightarrow> LF \<notin> set s
    | Some i \<Rightarrow> \<exists>p q. s = p @ [LF] @ q \<and> i = read_index b + length p \<and> LF \<notin> set p"
  proof (cases "find_if_idx (\<lambda>x. x = LF) s < length s")
    case True
    then obtain p x q where "s = p @ x # q" "x = LF" "length p = find_if_idx (\<lambda>x. x = LF) s"
      "\<forall>y \<in> set p. y \<noteq> LF"
      by (rule find_if_idx_some)
    then have "s = p @ [LF] @ q \<and> read_index b + find_if_idx (\<lambda>x. x = LF) s = read_index b + length p
        \<and> LF \<notin> set p" by auto
    with True show ?thesis by (simp only: if_True option.case) blast
  next
    case False
    then show ?thesis using find_if_idx_none [OF False] by auto
  qed
qed

definition line_buffer :: buffer where
  "line_buffer = \<lparr>storage = map Some (''ok'' @ kCRLF), capacity = 4, read_index = 0, write_index = 4,
     reserved_prepend_size = 0\<rparr>"

lemma Find_line_end_witness:
  "buf_wf line_buffer \<and> (\<exists>i. FindCRLF line_buffer = Some (Some i))
     \<and> (\<exists>i. FindEOL line_buffer = Some (Some i))"
proof -
  have wf: "buf_wf line_buffer" "readable line_buffer = map Some (''ok'' @ kCRLF)"
    by (simp_all add: line_buffer_def buf_wf_def readable_def kCRLF_def)
  from Find_line_end [OF this] wf(1) show ?thesis
    by (auto simp: kCRLF_def split: option.splits) (metis append.assoc append_Cons append_Nil)
qed

text \<open>\<^verbatim>\<open>Truncate(n)\<close> keeps the first \<open>n\<close> readable bytes, and does nothing when there are fewer,
  as long as the read index plus \<open>n\<close> stays below \<open>2^64\<close>.\<close>

lemma Truncate_keeps_prefix:
  assumes "buf_wf b" and "read_index b + n < 2 ^ 64"
  shows "buf_wf (Truncate n b) \<and> readable (Truncate n b) = take n (readable b)
     \<and> (length (readable b) \<le> n \<longrightarrow> n \<noteq> 0 \<longrightarrow> Truncate n b = b)"
proof -
  have "Truncate n b = b" if "length (readable b) \<le> n" "n \<noteq> 0"
    using that assms length_readable [OF assms(1)] by (simp add: Truncate_def)
  then show ?thesis using Truncate_wf [OF assms] by blast
qed

lemma Truncate_keeps_prefix_witness:
  "readable (Truncate 2 line_buffer) = map Some ''ok'' \<and> Truncate 9 line_buffer = line_buffer"
proof -
  have wf: "buf_wf line_buffer" "readable line_buffer = map Some (''ok'' @ kCRLF)"
      "read_index line_buffer = 0"
    by (simp_all add: line_buffer_def buf_wf_def readable_def kCRLF_def)
  show ?thesis
    using Truncate_keeps_prefix [OF wf(1), of 2] Truncate_keeps_prefix [OF wf(1), of 9] wf
    by (simp add: kCRLF_def)
qed

text \<open>Beyond that bound the sum in \<^verbatim>\<open>Truncate\<close> wraps around: on a buffer made by the constructor
  and holding one byte, \<^verbatim>\<open>Truncate(SIZE_MAX)\<close> does not "do nothing" as documented but moves the
  write index below the read index, after which \<^verbatim>\<open>length()\<close> fails its assertion.\<close>

lemma Truncate_wraps_around:
  "\<exists>b0 b. Buffer_new 2 8 = Some b0 \<and> Write ''x'' b0 = Some b \<and> buf_ok b
     \<and> \<not> buf_wf (Truncate (2 ^ 64 - 1) b) \<and> Buffer_length (Truncate (2 ^ 64 - 1) b) = None"
proof -
  let ?b = "small_buffer\<lparr>storage := replicate 8 None @ [Some CHR ''x''] @ replicate 1 None,
      write_index := 9\<rparr>"
  have "Write ''x'' small_buffer = Some ?b"
    by (simp add: small_buffer_def Write_def Write_cells_def EnsureWritableBytes_def WritableBytes_def
        mem_write_def)
  moreover have "buf_ok ?b" "\<not> buf_wf (Truncate (2 ^ 64 - 1) ?b)"
      "Buffer_length (Truncate (2 ^ 64 - 1) ?b) = None"
    by (simp_all add: small_buffer_def buf_ok_def buf_wf_def Truncate_def Buffer_length_def size_t_def)
  ultimately show ?thesis using small_buffer_ok(1) by blast
qed

end
