(* ===== verification/HttpRequest.thy ===== *)
theory HttpRequest
  imports HttpSafe HttpKeep HttpUrl Buffer
begin

text \<open>
  \<^verbatim>\<open>HttpRequest\<close> (\<^verbatim>\<open>src/evpp/evpphttp/http_request.h\<close> and \<^verbatim>\<open>http_request.cc\<close>): the callbacks that collect the
  URL, the header fields and the body of a request while the parser runs, and \<^verbatim>\<open>Parse\<close>, which feeds
  the parser from a connection's input buffer.

  The parser member is passed to the callbacks as their first argument, so the record holds the
  other members; the body buffer is represented by its readable bytes. The member \<open>aborted\<close>
  records that an assertion failed inside a callback.
\<close>

section \<open>The request object\<close>

record http_request =
  req_body :: "byte list"
  field_value :: "byte list \<rightharpoonup> byte list"
  remote_ip :: "byte list"
  req_field :: "byte list"
  req_value :: "byte list"
  req_url :: "byte list"
  pre_state :: nat
  is_completed :: bool
  send_continue :: bool
  url_u :: http_parser_url
  aborted :: bool

definition OnMessageBegin :: "http_request http_cb" where
  "OnMessageBegin p req = (0, p, req)"

definition OnMessageEnd :: "http_request http_cb" where
  "OnMessageEnd p req =
     (case http_parser_pause True p of
        Some p' \<Rightarrow> (0, p', req\<lparr>is_completed := True\<rparr>)
      | None \<Rightarrow> (0, p, req\<lparr>is_completed := True, aborted := True\<rparr>))"

definition OnUrl :: "http_request http_data_cb" where
  "OnUrl p d req = (0, p, req\<lparr>req_url := req_url req @ d\<rparr>)"

definition OnField :: "http_request http_data_cb" where
  "OnField p d req =
     (0, p, req\<lparr>req_field := (if pre_state req = 51 then req_field req @ d else d),
                pre_state := state_code (pstate p)\<rparr>)"

definition OnValue :: "http_request http_data_cb" where
  "OnValue p d req =
     (let v = (if pre_state req = 53 then req_value req @ d else d);
          s = state_code (pstate p);
          req1 = req\<lparr>req_value := v\<rparr>;
          req2 = (if s = 55
                  then req1\<lparr>field_value := (field_value req1)(req_field req1 \<mapsto> v),
                            req_value := [], req_field := []\<rparr>
                  else req1)
      in (0, p, req2\<lparr>pre_state := s\<rparr>))"
  \<comment> \<open>a moved-from string is left empty\<close>

definition OnBody :: "http_request http_data_cb" where
  "OnBody p d req = (0, p, req\<lparr>req_body := req_body req @ d\<rparr>)"

definition OnHeaderComplete :: "http_parser \<Rightarrow> nat \<Rightarrow> http_request \<Rightarrow> int \<times> http_parser \<times> http_request" where
  "OnHeaderComplete p n req =
     (case http_parser_parse_url (req_url req) True (url_u req) of
        Some (r, u) \<Rightarrow> (0, p, req\<lparr>url_u := u\<rparr>)
      | None \<Rightarrow> (0, p, req\<lparr>aborted := True\<rparr>))"
  \<comment> \<open>the result of \<^verbatim>\<open>http_parser_parse_url\<close> is ignored\<close>

definition EmptyCB :: "http_request http_cb" where
  "EmptyCB p req = (0, p, req)"

definition EmptyDataCB :: "http_request http_data_cb" where
  "EmptyDataCB p d req = (0, p, req)"

definition request_settings :: "http_request http_parser_settings" where
  "request_settings =
     \<lparr>on_message_begin = OnMessageBegin, on_url = OnUrl, on_header_field = OnField,
      on_header_value = OnValue, on_headers_complete = OnHeaderComplete, on_body = OnBody,
      on_message_complete = OnMessageEnd, on_reason = EmptyDataCB,
      on_chunk_header = EmptyCB, on_chunk_complete = EmptyCB\<rparr>"

definition HttpRequest_new :: "http_parser \<Rightarrow> http_parser_url \<Rightarrow> http_parser \<times> http_request" where
  "HttpRequest_new ps u =
     (http_parser_init HTTP_REQUEST ps,
      \<lparr>req_body = [], field_value = Map.empty, remote_ip = [], req_field = [], req_value = [],
       req_url = [], pre_state = 0, is_completed = False, send_continue = False, url_u = u,
       aborted = False\<rparr>)"
  \<comment> \<open>\<open>ps\<close> and \<open>u\<close> are the indeterminate contents of the members without initialisers\<close>

definition completed :: "http_request \<Rightarrow> bool" where
  "completed req = is_completed req"

definition url_path :: "http_request \<Rightarrow> byte list option" where
  "url_path req = url_part UF_PATH (req_url req) (url_u req)"

definition url_query :: "http_request \<Rightarrow> byte list option" where
  "url_query req = url_part UF_QUERY (req_url req) (url_u req)"

definition url_fragment :: "http_request \<Rightarrow> byte list option" where
  "url_fragment req = url_part UF_FRAGMENT (req_url req) (url_u req)"

definition url_userinfo :: "http_request \<Rightarrow> byte list option" where
  "url_userinfo req = url_part UF_USERINFO (req_url req) (url_u req)"

definition Parse :: "buffer \<Rightarrow> http_parser \<Rightarrow> http_request \<Rightarrow>
    (http_errno \<times> buffer \<times> http_parser \<times> http_request) option" where
  "Parse buf ps req = do {
     c \<leftarrow> ToSlice buf;
     d \<leftarrow> those c;
     (parsed, ps', req') \<leftarrow> http_parser_execute request_settings d ps req;
     require (\<not> aborted req');
     let err = perrno ps';
     if err \<noteq> HPE_OK \<and> err \<noteq> HPE_PAUSED then Some (err, buf, ps', req')
     else do { buf' \<leftarrow> Retrieve parsed buf; Some (HPE_OK, buf', ps', req') } }"
  \<comment> \<open>the returned number is the error code; 0 is \<^verbatim>\<open>HPE_OK\<close>\<close>

section \<open>The callbacks keep the parser's contract\<close>

lemma polite_same: "perrno ps = HPE_OK \<Longrightarrow> polite ps (r, ps, u)"
  unfolding polite_def by (rule exI [of _ HPE_OK]) (simp add: perrno_same)

interpretation req: http_callbacks request_settings
proof
  fix ps :: http_parser and nev u
  assume "perrno ps = HPE_OK"
  then show "polite ps (notify_cb nev request_settings ps u)"
    by (cases nev) (auto simp: request_settings_def OnMessageBegin_def OnMessageEnd_def EmptyCB_def
        http_parser_pause_def polite_same, auto simp: polite_def)
next
  fix ps :: http_parser and dev d u
  assume "perrno ps = HPE_OK"
  then show "polite ps (data_cb dev request_settings ps d u)"
    by (cases dev) (simp_all add: request_settings_def OnUrl_def OnField_def OnValue_def OnBody_def
        EmptyDataCB_def Let_def polite_same)
next
  fix ps :: http_parser and n u
  assume "perrno ps = HPE_OK"
  then show "polite ps (on_headers_complete request_settings ps n u)"
    using parse_url_ok [of "req_url u" "url_u u"]
    by (auto simp: request_settings_def OnHeaderComplete_def polite_same)
qed

definition url_known :: "http_request \<Rightarrow> bool" where
  "url_known req \<longleftrightarrow> fields_within (url_u req) (length (req_url req))"

definition request_ok :: "http_request \<Rightarrow> bool" where
  "request_ok req \<longleftrightarrow> \<not> aborted req \<and> (is_completed req \<longrightarrow> url_known req)"
  \<comment> \<open>no assertion has failed, and a completed request has its URL taken apart\<close>

interpretation requ: http_phases request_settings request_ok url_known
proof
  fix ps :: http_parser and nev and u :: http_request
  assume "perrno ps = HPE_OK"
  then show "request_ok u \<Longrightarrow> nev = N_message_complete \<longrightarrow> url_known u \<Longrightarrow>
      request_ok (snd (snd (notify_cb nev request_settings ps u)))"
    and "url_known u \<Longrightarrow> url_known (snd (snd (notify_cb nev request_settings ps u)))"
    by (cases nev; simp add: request_settings_def OnMessageBegin_def OnMessageEnd_def EmptyCB_def
        http_parser_pause_def request_ok_def url_known_def)+
next
  fix u :: http_request and dev ps d
  have k: "url_known (snd (snd (data_cb dev request_settings ps d u)))" if "url_known u"
    using that by (cases dev) (auto simp: request_settings_def OnUrl_def OnField_def OnValue_def OnBody_def
        EmptyDataCB_def Let_def url_known_def elim: fields_within_mono)
  then show "url_known u \<Longrightarrow> url_known (snd (snd (data_cb dev request_settings ps d u)))" .
  have "aborted (snd (snd (data_cb dev request_settings ps d u))) = aborted u"
    "is_completed (snd (snd (data_cb dev request_settings ps d u))) = is_completed u"
    by (cases dev; simp add: request_settings_def OnUrl_def OnField_def OnValue_def OnBody_def
        EmptyDataCB_def Let_def)+
  with k show "request_ok u \<Longrightarrow> request_ok (snd (snd (data_cb dev request_settings ps d u)))"
    by (auto simp: request_ok_def)
next
  fix u :: http_request and ps n
  show "request_ok u \<Longrightarrow> request_ok (snd (snd (on_headers_complete request_settings ps n u)))"
    and "url_known (snd (snd (on_headers_complete request_settings ps n u)))"
    using parse_url_ok [of "req_url u" "url_u u"]
    by (auto simp: request_settings_def OnHeaderComplete_def request_ok_def url_known_def)
qed

abbreviation request_rest :: "http_parser \<Rightarrow> http_request \<Rightarrow> bool" where
  "request_rest \<equiv> at_rest request_ok url_known"

lemma init_ok: "parser_ok (http_parser_init t ps)"
  by (cases t) (simp_all add: parser_ok_def http_parser_init_def fields_ok_def)

lemma HttpRequest_new_ok:
  assumes "HttpRequest_new ps u = (p, r)"
  shows "parser_ok p" "request_rest p r" "pstate p = s_pre_start_req" "perrno p = HPE_OK"
  using assms init_ok [of HTTP_REQUEST ps]
  by (auto simp: HttpRequest_new_def at_rest_def request_ok_def after_headers_def http_parser_init_def)

primrec feed :: "'u http_parser_settings \<Rightarrow> byte list list \<Rightarrow> http_parser \<Rightarrow> 'u \<Rightarrow> (http_parser \<times> 'u) option" where
  "feed S [] ps u = Some (ps, u)"
| "feed S (d # ds) ps u =
     (case http_parser_execute S d ps u of None \<Rightarrow> None | Some (n, ps', u') \<Rightarrow> feed S ds ps' u')"

lemma feed_ok:
  "parser_ok ps \<Longrightarrow> request_rest ps u \<Longrightarrow>
     \<exists>ps' u'. feed request_settings ds ps u = Some (ps', u') \<and> parser_ok ps' \<and> request_rest ps' u'"
proof (induction ds arbitrary: ps u)
  case (Cons d ds)
  obtain n ps1 u1 where x: "http_parser_execute request_settings d ps u = Some (n, ps1, u1)" "parser_ok ps1"
    using req.execute_safe [OF Cons.prems(1), of d u] by blast
  then show ?case
    using Cons.IH [OF x(2) requ.execute_keeps [OF Cons.prems(2) x(1)]] by simp
qed simp

text \<open>C5. The HTTP parser is memory safe on every input: whatever bytes arrive and however they are
  cut into pieces, a new \<^verbatim>\<open>HttpRequest\<close> that is fed with them never fails an assertion, never reads
  outside its input or a table, and never overflows a signed integer, in the parser, its callbacks
  and the URL splitter together.\<close>

theorem request_parsing_never_faults:
  "\<exists>ps' req'. feed request_settings inputs (fst (HttpRequest_new ps u)) (snd (HttpRequest_new ps u))
     = Some (ps', req') \<and> \<not> aborted req'"
proof -
  obtain p r where new: "HttpRequest_new ps u = (p, r)" by fastforce
  from feed_ok [OF HttpRequest_new_ok(1,2) [OF new], of inputs] show ?thesis
    by (auto simp: new at_rest_def request_ok_def)
qed

lemma run_break:
  assumes "exec_byte S d x = Break z" and "run S d x = Return n y" and "pos z + 1 \<le> length d"
  shows "pos z + 1 \<le> n"
proof (cases "pos z + 1 = length d")
  case True
  then have "finish S d (z\<lparr>pos := length d\<rparr>) = Return n y"
    using assms by (simp add: run.simps [of S d x] Let_def)
  moreover have "returns_at (length d) (finish S d (z\<lparr>pos := length d\<rparr>))"
    by (rule finish_returns_at) simp
  ultimately show ?thesis using True by (simp add: returns_at_def)
next
  case False
  then have "run S d (z\<lparr>pos := pos z + 1, ch := d ! (pos z + 1)\<rparr>) = Return n y"
    using assms by (simp add: run.simps [of S d x] Let_def)
  from run_returns_from [OF this] assms(3) show ?thesis by auto
qed

lemma start_progress:
  assumes "st x = s_start_req" and "pos x = 0" and "d \<noteq> []"
    and "run S d x = Return n y" and "perrno (parser y) \<in> {HPE_OK, HPE_PAUSED}"
  shows "1 \<le> n"
proof -
  have "\<exists>z. exec_byte S d x = Break z \<and> pos z = 0"
  proof (rule ccontr)
    assume no: "\<nexists>z. exec_byte S d x = Break z \<and> pos z = 0"
    then have "\<exists>z. exec_byte S d x = fail HPE_INVALID_METHOD z"
      using assms(1,2)
      by (auto simp: exec_byte_def step_req_start_def Let_def set_no_body_def split: option.splits)
    then show False
      using assms(4,5) by (auto simp: run.simps [of S d x] fail_def goto_error_def RETURN_def SET_ERRNO_def upd_def)
  qed
  then obtain z where "exec_byte S d x = Break z" "pos z = 0" by blast
  with run_break [OF _ assms(4)] assms(3) show ?thesis by (cases d) auto
qed

lemma first_call_progress:
  assumes ps: "pstate ps = s_pre_start_req" "perrno ps = HPE_OK" and d: "d \<noteq> []"
    and ex: "http_parser_execute request_settings d ps r = Some (n, ps', r')"
    and ok: "perrno ps' \<in> {HPE_OK, HPE_PAUSED}"
  shows "1 \<le> n"
proof -
  let ?x = "initial_exec d ps r"
  obtain y where y: "run request_settings d ?x = Return n y" "parser y = ps'"
    using ex ps d by (auto simp: http_parser_execute_def result_of_def Let_def split: outcome.splits)
  have x: "st ?x = s_pre_start_req" "pos ?x = 0" "perrno (parser ?x) = HPE_OK"
    using ps by (simp_all add: initial_exec_def)
  show ?thesis
  proof (cases "ch ?x = CR \<or> ch ?x = LF")
    case True
    then have "exec_byte request_settings d ?x = Break ?x"
      using x by (simp add: exec_byte_def step_req_start_def)
    from run_break [OF this y(1)] x d show ?thesis by (cases d) auto
  next
    case False
    then have "\<exists>z. exec_byte request_settings d ?x = Reexecute z \<and> st z = s_start_req \<and> pos z = 0"
      using x by (auto simp: exec_byte_def step_req_start_def callback_defs CALLBACK_NOTIFY_ER_def
          after_callback_def Let_def request_settings_def OnMessageBegin_def)
    then obtain z where z: "exec_byte request_settings d ?x = Reexecute z" "st z = s_start_req" "pos z = 0"
      by blast
    then have "run request_settings d z = Return n y" using y(1) by (simp add: run.simps [of _ d ?x])
    from start_progress [OF z(2,3) d this] y(2) ok show ?thesis by simp
  qed
qed

lemma Parse_ok:
  assumes "buf_wf buf" and "readable buf = map Some d" and "parser_ok ps" and "request_rest ps req"
  obtains err buf' ps' req' n where "Parse buf ps req = Some (err, buf', ps', req')"
    "buf_wf buf'" "readable buf' = map Some (drop n d)" "n \<le> length d"
    "err = HPE_OK \<or> buf' = buf" "parser_ok ps'" "request_rest ps' req'"
    "pstate ps = s_pre_start_req \<and> perrno ps = HPE_OK \<and> d \<noteq> [] \<and> err = HPE_OK \<longrightarrow> 1 \<le> n"
proof -
  obtain n ps' req' where x: "http_parser_execute request_settings d ps req = Some (n, ps', req')"
      "parser_ok ps'" "n \<le> length d \<or> d = [] \<and> n = 1 \<and> perrno ps' = HPE_INVALID_EOF_STATE"
    using req.execute_safe [OF assms(3)] by blast
  have r: "request_rest ps' req'" using requ.execute_keeps [OF assms(4) x(1)] .
  then have a: "\<not> aborted req'" by (simp add: at_rest_def request_ok_def)
  note p = Parse_def ToSlice_wf [OF assms(1)] assms(2) those_map_Some x(1) a Retrieve_def
  show thesis
  proof (cases "perrno ps' = HPE_OK \<or> perrno ps' = HPE_PAUSED")
    case True
    with x(3) have n: "n \<le> length d" by auto
    obtain buf' where b: "Skip n buf = Some buf'" "buf_wf buf'" "readable buf' = drop n (readable buf)"
      using Skip_wf [OF assms(1), of n] by blast
    have 1: "Parse buf ps req = Some (HPE_OK, buf', ps', req')"
      using True b by (auto simp: p Let_def)
    have 2: "readable buf' = map Some (drop n d)" using b(3) assms(2) by (simp add: drop_map)
    show thesis
      by (rule that [OF 1 b(2) 2 n _ x(2) r]) (use first_call_progress [OF _ _ _ x(1)] True in auto)
  next
    case False
    then have 1: "Parse buf ps req = Some (perrno ps', buf, ps', req')"
      by (simp add: p Let_def)
    show thesis by (rule that [OF 1 assms(1) _ _ _ x(2) r, of 0]) (use assms False in auto)
  qed
qed


definition some_bytes :: buffer where
  "some_bytes = \<lparr>storage = map Some ''GET'', capacity = 3, read_index = 0, write_index = 3,
     reserved_prepend_size = 0\<rparr>"

definition some_request :: http_request where
  "some_request = \<lparr>req_body = [], field_value = Map.empty, remote_ip = [], req_field = [],
     req_value = [], req_url = [], pre_state = 0, is_completed = False, send_continue = False,
     url_u = blank_url, aborted = False\<rparr>"


end
