(* ===== verification/HttpResponse.thy ===== *)
theory HttpResponse
  imports HttpRequest
begin

text \<open>
  \<^verbatim>\<open>HttpResponse\<close> (\<^verbatim>\<open>src/evpp/evpphttp/http_response.h\<close> and \<^verbatim>\<open>http_response.cc\<close>): the status line, the
  headers and the framing of a reply. A connection is what the response code sees of it: the byte
  strings handed to \<^verbatim>\<open>Send\<close>, in order, whether it is connected, and the request kept as its context.
  A \<^verbatim>\<open>std::map\<close> of header fields is the list of its entries in iteration order; the text that
  \<^verbatim>\<open>strftime\<close> produces for the date is a parameter.
\<close>

section \<open>Number formatting\<close>

definition print_x :: "nat \<Rightarrow> byte list" where
  "print_x n = digits 16 (n mod 2 ^ 32)"
  \<comment> \<open>\<^verbatim>\<open>%x\<close> of an \<^verbatim>\<open>int\<close> made from a size\<close>

definition snprintf :: "nat \<Rightarrow> byte list \<Rightarrow> byte list" where
  "snprintf n s = take (n - 1) s"
  \<comment> \<open>what a character array of the given size holds up to its NUL\<close>

definition CRLF :: "byte list" where
  "CRLF = [CR, LF]"

section \<open>The connection as the service sees it\<close>

type_synonym header_map = "(byte list \<times> byte list) list"

record http_conn =
  sent :: "byte list list"
  connected :: bool
  conn_context :: "(http_parser \<times> http_request) option"
  remote_addr :: "byte list"

definition conn_send :: "byte list \<Rightarrow> http_conn \<Rightarrow> http_conn" where
  "conn_send d c = (if connected c then c\<lparr>sent := sent c @ [d]\<rparr> else c)"

definition conn_close :: "http_conn \<Rightarrow> http_conn" where
  "conn_close c = c\<lparr>connected := False\<rparr>"

section \<open>Responses\<close>

definition http_status_code :: "(int \<times> byte list) list" where
  "http_status_code = [
     (100, ''Continue''), (101, ''Switching Protocols''), (200, ''OK''), (201, ''Created''),
     (202, ''Accepted''), (203, ''Non-Authoritative Information''), (204, ''No Content''),
     (205, ''Reset Content''), (206, ''Partial Content''), (300, ''Multiple Choices''),
     (301, ''Moved Permanently''), (302, ''Found''), (303, ''See Other''), (304, ''Not Modified''),
     (305, ''Use Proxy''), (307, ''Temporary Redirect''), (400, ''Bad Request''),
     (401, ''Unauthorized''), (402, ''Payment Required''), (403, ''Forbidden''), (404, ''Not Found''),
     (405, ''Method Not Allowed''), (406, ''Not Acceptable''), (407, ''Proxy Authentication Required''),
     (408, ''Request Time-out''), (409, ''Conflict''), (410, ''Gone''), (411, ''Length Required''),
     (412, ''Precondition Failed''), (413, ''Request Entity Too Large''), (414, ''Request-URI Too Large''),
     (415, ''Unsupported Media Type''), (416, ''Requested range not satisfiable''),
     (417, ''Expectation Failed''), (500, ''Internal Server Error''), (501, ''Not Implemented''),
     (502, ''Bad Gateway''), (503, ''Service Unavailable''), (504, ''Gateway Time-out''),
     (505, ''HTTP Version not supported''), (808, ''UnKnown'')]"

record http_response =
  resp_close :: bool
  resp_keep_alive :: bool
  resp_chunked :: bool
  hp :: http_parser

definition tolower :: "byte \<Rightarrow> byte" where
  "tolower c = (if code_of CHR ''A'' \<le> code_of c \<and> code_of c \<le> code_of CHR ''Z''
     then char_of (code_of c + 32) else c)"

definition is_connection :: "byte list \<Rightarrow> (byte list \<rightharpoonup> byte list) \<Rightarrow> bool" where
  "is_connection key fv =
     (case fv ''Connection'' of Some v \<Rightarrow> map tolower v = key | None \<Rightarrow> False)"

definition HttpResponse_new :: "http_parser \<Rightarrow> http_request \<Rightarrow> http_response" where
  "HttpResponse_new ps req =
     \<lparr>resp_close = is_connection ''close'' (field_value req),
      resp_keep_alive = is_connection ''keep-alive'' (field_value req), resp_chunked = False,
      hp = (if http_major ps > 9 \<or> http_minor ps > 9 then ps\<lparr>http_major := 1, http_minor := 1\<rparr> else ps)\<rparr>"

definition need_body :: "int \<Rightarrow> bool" where
  "need_body code \<longleftrightarrow> code \<noteq> 204 \<and> code \<noteq> 304 \<and> (code < 100 \<or> code \<ge> 200)"

definition add_content_len :: "int \<Rightarrow> byte list" where
  "add_content_len n = snprintf 42 (''Content-Length:'' @ print_d n @ CRLF)"

definition status_entry :: "int \<Rightarrow> int \<times> byte list" where
  "status_entry code = (case map_of http_status_code code of
     Some text \<Rightarrow> (code, text) | None \<Rightarrow> (808, the (map_of http_status_code 808)))"

definition status_line :: "http_parser \<Rightarrow> int \<Rightarrow> byte list" where
  "status_line p code = snprintf 16 (''HTTP/'' @ print_d (int (http_major p)) @ ''.'' @
     print_d (int (http_minor p)) @ '' '' @ print_d code @ '' '')"

definition header_line :: "byte list \<times> byte list \<Rightarrow> byte list" where
  "header_line f = fst f @ '':'' @ snd f @ CRLF"

definition MakeHttpResponse :: "byte list \<Rightarrow> int \<Rightarrow> int \<Rightarrow> header_map \<Rightarrow> http_response \<Rightarrow> http_response \<times> byte list" where
  "MakeHttpResponse date code body_size hdrs r =
     (let (c, text) = status_entry code;
          start = status_line (hp r) c @ text @ CRLF
      in if code = 400 then (r\<lparr>resp_close := True\<rparr>, start @ CRLF)
         else
           let one = (http_major (hp r) = 1);
               dated = (if one \<and> http_minor (hp r) \<ge> 1 \<and> map_of hdrs ''Date'' = None then date else []);
               r1 = (if one \<and> map_of hdrs ''Transfer-Encoding'' = Some ''chunked''
                     then r\<lparr>resp_chunked := True\<rparr> else r);
               closing = (one \<and> (resp_close r1 \<or> http_minor (hp r) = 0 \<and> \<not> resp_keep_alive r1));
               framing = (if closing then ''Connection:close'' @ CRLF
                          else if one \<and> \<not> resp_chunked r1 then add_content_len body_size else []);
               r2 = (if closing then r1\<lparr>resp_close := True\<rparr> else r1);
               ctype = (if need_body code \<and> map_of hdrs ''Content-Type'' = None
                        then ''Content-Type:text/html; charset=ISO-8859-1'' @ CRLF else [])
           in (r2, start @ dated @ framing @ ctype @ concat (map header_line hdrs) @ CRLF))"

definition SendContinue :: "http_response \<Rightarrow> http_conn \<Rightarrow> http_conn" where
  "SendContinue r c = conn_send (status_line (hp r) 100 @ snd (status_entry 100) @ CRLF @ CRLF) c"

definition SendReply :: "byte list \<Rightarrow> int \<Rightarrow> header_map \<Rightarrow> byte list \<Rightarrow> http_response \<times> http_conn \<Rightarrow>
    http_response \<times> http_conn" where
  "SendReply date code hdrs body rc =
     (let (r, c) = rc
      in if \<not> connected c then (r, c)
         else if code = 100 then (r, SendContinue r c)
         else
           let (r1, head) = MakeHttpResponse date code (int (length body)) hdrs r;
               c1 = conn_send head c;
               c2 = (if body = [] then c1
                     else if resp_chunked r1
                     then conn_send CRLF (conn_send body (conn_send (snprintf 32 (print_x (length body) @ CRLF)) c1))
                     else conn_send body c1);
               c3 = (if resp_chunked r1 then conn_send (''0'' @ CRLF @ CRLF) c2 else c2)
           in (r1, if resp_close r1 then conn_close c3 else c3))"

section \<open>Chunked bodies are read back by the parser\<close>

lemma run_next:
  assumes "exec_byte S data x = Break y" and "data = pre @ c # post" and "pos y + 1 = length pre"
  shows "run S data x = run S data (y\<lparr>pos := length pre, ch := c\<rparr>)"
proof -
  have "data ! length pre = c" "length pre < length data" using assms(2) by simp_all
  then show ?thesis using assms(1,3) by (simp add: run.simps [of S data x] Let_def)
qed

definition idle :: "http_parser \<Rightarrow> http_state \<Rightarrow> nat \<Rightarrow> byte \<Rightarrow> nat \<Rightarrow> 'u \<Rightarrow> 'u exec" where
  "idle ps s p c h u = \<lparr>parser = ps, st = s, pos = p, ch = c, header_field_mark = None,
     header_value_mark = None, url_mark = None, reason_mark = None, body_mark = None,
     header_data_start = h, udata = u\<rparr>"
  \<comment> \<open>a state of the loop in which no mark is set\<close>

definition hexval :: "int \<Rightarrow> byte list \<Rightarrow> int" where
  "hexval acc ds = foldl (\<lambda>a c. a * 16 + UNHEX c) acc ds"

lemma hexval_simps [simp]:
  "hexval acc [] = acc" "hexval acc (c # ds) = hexval (acc * 16 + UNHEX c) ds"
  "hexval acc (ds @ ds') = hexval (hexval acc ds) ds'"
  by (simp_all add: hexval_def)

lemma hexval_mono: "0 \<le> acc \<Longrightarrow> \<forall>c \<in> set ds. 0 \<le> UNHEX c \<Longrightarrow> acc \<le> hexval acc ds"
proof (induction ds arbitrary: acc)
  case (Cons d ds)
  then have "acc * 16 + UNHEX d \<le> hexval (acc * 16 + UNHEX d) ds" by simp
  with Cons.prems show ?case by simp
qed simp

lemma UNHEX_digit_char: "d < 16 \<Longrightarrow> UNHEX (digit_char d) = int d"
  by (auto simp: UNHEX_code digit_char_def unhex_code_def)

lemma hexval_digits: "hexval 0 (digits 16 n) = int n"
proof (induction "16 :: nat" n rule: digits.induct)
  case (1 n)
  show ?case
  proof (cases "n < 16")
    case True
    then show ?thesis by (simp add: digits.simps [of 16 n] UNHEX_digit_char)
  next
    case False
    then have "hexval 0 (digits 16 (n div 16)) = int (n div 16)" using 1 by simp
    then show ?thesis using False
      by (simp add: digits.simps [of 16 n] UNHEX_digit_char zdiv_int zmod_int mult.commute)
  qed
qed

lemma hex_digits: "\<forall>c \<in> set (digits 16 n). 0 \<le> UNHEX c"
proof (induction "16 :: nat" n rule: digits.induct)
  case (1 n)
  then show ?case by (simp add: digits.simps [of 16 n] UNHEX_digit_char)
qed

lemma digits_nonempty [simp]: "digits b n \<noteq> []"
  by (subst digits.simps) simp

lemma digits_length: "2 \<le> b \<Longrightarrow> n < b ^ Suc k \<Longrightarrow> length (digits b n) \<le> Suc k"
proof (induction k arbitrary: n)
  case 0
  then show ?case by (simp add: digits.simps [of b n])
next
  case (Suc k)
  then have "n div b < b ^ Suc k" by (simp add: less_mult_imp_div_less mult.commute)
  with Suc show ?case by (simp add: digits.simps [of b n])
qed

lemma run_hex_digits:
  assumes "F_CHUNKED \<in> flags ps" and "data = pre @ ds @ c # post" and "0 \<le> acc"
    and "\<forall>d \<in> set ds. 0 \<le> UNHEX d \<and> d \<noteq> CR" and "hexval acc ds \<le> INT64_MAX"
  shows "run S data (idle (ps\<lparr>content_length := acc\<rparr>) s_chunk_size (length pre) (hd (ds @ [c])) h u)
     = run S data (idle (ps\<lparr>content_length := hexval acc ds\<rparr>) s_chunk_size (length pre + length ds) c h u)"
  using assms
proof (induction ds arbitrary: pre acc)
  case (Cons d ds)
  let ?v = "UNHEX d" and ?x = "idle (ps\<lparr>content_length := acc\<rparr>) s_chunk_size (length pre) d h u"
  have v: "0 \<le> ?v" "0 \<le> acc * 16 + ?v" using Cons.prems by auto
  then have le: "acc * 16 + ?v \<le> INT64_MAX"
    using hexval_mono [of "acc * 16 + ?v" ds] Cons.prems by auto
  then have "acc \<le> (INT64_MAX - ?v) div 16" by linarith
  moreover have "add_digit64 16 acc ?v = Some (acc * 16 + ?v)"
    using le v Cons.prems(3) by (simp add: add_digit64_def INT64_MAX_def)
  ultimately have "exec_byte S data ?x
      = Break (idle (ps\<lparr>content_length := acc * 16 + ?v\<rparr>) s_chunk_size (length pre) d h u)"
    using Cons.prems v by (auto simp: exec_byte_def step_chunk_size_def Let_def idle_def upd_def)
  then have "run S data ?x = run S data (idle (ps\<lparr>content_length := acc * 16 + ?v\<rparr>) s_chunk_size
      (length pre) d h u\<lparr>pos := length (pre @ [d]), ch := hd (ds @ [c])\<rparr>)"
    using Cons.prems by (intro run_next [where post = "tl (ds @ c # post)"]) (cases ds; simp add: idle_def)+
  then show ?case
    using Cons.IH [of "pre @ [d]" "acc * 16 + ?v"] Cons.prems v by (simp add: idle_def)
qed (simp add: idle_def)

lemma UNHEX_CR: "UNHEX CR = -1" "UNHEX CHR ''0'' = 0"
  by (simp_all add: UNHEX_code unhex_code_def)

lemma hex_not_CR: "0 \<le> UNHEX d \<Longrightarrow> d \<noteq> CR"
  using UNHEX_CR by auto

lemma run_chunk_size:
  assumes "F_CHUNKED \<in> flags ps" and "data = pre @ digits 16 n @ CR # LF # post" and "int n \<le> INT64_MAX"
  shows "run S data (idle ps s_chunk_size_start (length pre) (hd (digits 16 n)) h u)
     = run S data (idle (ps\<lparr>content_length := int n\<rparr>) s_chunk_size_almost_done
         (length pre + length (digits 16 n) + 1) LF h u)"
proof -
  obtain d ds where d: "digits 16 n = d # ds" by (cases "digits 16 n") auto
  have hex: "\<forall>c \<in> set (d # ds). 0 \<le> UNHEX c" using hex_digits [of n] d by simp
  have val: "hexval (UNHEX d) ds = int n" using hexval_digits [of n] d by simp
  have "exec_byte S data (idle ps s_chunk_size_start (length pre) d h u)
      = Break (idle (ps\<lparr>content_length := UNHEX d\<rparr>) s_chunk_size (length pre) d h u)"
    using assms(1) hex by (auto simp: exec_byte_def step_chunk_size_def Let_def idle_def upd_def)
  then have "run S data (idle ps s_chunk_size_start (length pre) d h u)
      = run S data (idle (ps\<lparr>content_length := UNHEX d\<rparr>) s_chunk_size (length pre) d h u
          \<lparr>pos := length (pre @ [d]), ch := hd (ds @ [CR])\<rparr>)"
    using assms(2) d
    by (intro run_next [where post = "tl (ds @ CR # LF # post)"]) (cases ds; simp add: idle_def)+
  also have "\<dots> = run S data (idle (ps\<lparr>content_length := int n\<rparr>) s_chunk_size
      (length (pre @ [d]) + length ds) CR h u)"
    using run_hex_digits [OF assms(1), of data "pre @ [d]" ds CR "LF # post" "UNHEX d" S h u]
      assms d hex val hex_not_CR by (auto simp: idle_def)
  also have "exec_byte S data (idle (ps\<lparr>content_length := int n\<rparr>) s_chunk_size
      (length (pre @ [d]) + length ds) CR h u) = Break (idle (ps\<lparr>content_length := int n\<rparr>)
        s_chunk_size_almost_done (length (pre @ [d]) + length ds) CR h u)"
    using assms(1) by (simp add: exec_byte_def step_chunk_size_def Let_def idle_def upd_def)
  from run_next [OF this, of "pre @ d # ds @ [CR]" LF post]
  have "run S data (idle (ps\<lparr>content_length := int n\<rparr>) s_chunk_size
      (length (pre @ [d]) + length ds) CR h u) = run S data (idle (ps\<lparr>content_length := int n\<rparr>)
        s_chunk_size_almost_done (length (pre @ d # ds @ [CR])) LF h u)"
    using assms(2) d by (simp add: idle_def)
  finally show ?thesis by (simp add: d)
qed

lemma request_notify:
  assumes "nev = N_chunk_header \<or> nev = N_chunk_complete" and "perrno (parser x) = HPE_OK"
  shows "CALLBACK_NOTIFY_ER request_settings nev er x k = k (x\<lparr>parser := (parser x)\<lparr>pstate := st x\<rparr>\<rparr>)"
  using assms
  by (auto simp: CALLBACK_NOTIFY_ER_def after_callback_def request_settings_def EmptyCB_def Let_def)

lemma run_chunk_data:
  assumes "F_CHUNKED \<in> flags ps" and "perrno ps = HPE_OK"
    and "data = pre @ LF # body @ CR # LF # c # post" and "body \<noteq> []" and "content_length ps = int (length body)"
  shows "run request_settings data (idle ps s_chunk_size_almost_done (length pre) LF h u)
     = run request_settings data (idle (ps\<lparr>content_length := 0, pstate := s_chunk_size_start, nread := 0\<rparr>)
         s_chunk_size_start (length pre + length body + 3) c (length pre + length body + 2)
         (u\<lparr>req_body := req_body u @ body\<rparr>))"
proof -
  let ?S = request_settings and ?p = "length pre" and ?n = "length body"
  let ?x1 = "idle (ps\<lparr>pstate := s_chunk_data\<rparr>) s_chunk_data (?p + 1) (hd body) h u"
  let ?x2 = "idle (ps\<lparr>pstate := s_chunk_data, content_length := 0\<rparr>) s_chunk_data_almost_done (?p + 1 + ?n) CR h u
      \<lparr>body_mark := Some (?p + 1)\<rparr>"
  let ?u = "u\<lparr>req_body := req_body u @ body\<rparr>"
  let ?x3 = "idle (ps\<lparr>pstate := s_chunk_data_done, content_length := 0\<rparr>) s_chunk_data_done (?p + ?n + 2) LF h ?u"
  have "exec_byte ?S data (idle ps s_chunk_size_almost_done ?p LF h u)
      = Break (idle (ps\<lparr>pstate := s_chunk_data\<rparr>) s_chunk_data ?p LF h u)"
    using assms
    by (simp add: exec_byte_def step_chunk_data_def callback_defs request_notify idle_def)
  then have "run ?S data (idle ps s_chunk_size_almost_done ?p LF h u) = run ?S data ?x1"
    using assms(3,4) run_next [of ?S data _ _ "pre @ [LF]" "hd body" "tl body @ CR # LF # c # post"]
    by (cases body) (simp_all add: idle_def)
  also have "take_body data ?x1 = idle (ps\<lparr>pstate := s_chunk_data, content_length := 0\<rparr>) s_chunk_data
      (?p + ?n) (hd body) h u\<lparr>body_mark := Some (?p + 1)\<rparr>"
    using assms(3-5) by (cases body) (simp_all add: take_body_def Let_def idle_def upd_def MARK_def)
  then have "exec_byte ?S data ?x1 = Break (?x2\<lparr>pos := ?p + ?n, ch := hd body\<rparr>)"
    using assms by (simp add: exec_byte_def step_chunk_data_def idle_def)
  then have "run ?S data ?x1 = run ?S data ?x2"
    using assms(3) run_next [of ?S data _ _ "pre @ LF # body" CR "LF # c # post"]
    by (simp add: idle_def)
  also have "exec_byte ?S data ?x2 = Break (?x3\<lparr>pos := ?p + 1 + ?n, ch := CR\<rparr>)"
    using assms
    by (simp add: exec_byte_def step_chunk_data_def callback_defs idle_def CALLBACK_DATA_ER_def
        after_callback_def request_settings_def OnBody_def Let_def)
  then have "run ?S data ?x2 = run ?S data ?x3"
    using assms(3) run_next [of ?S data _ _ "pre @ LF # body @ [CR]" LF "c # post"]
    by (simp add: idle_def)
  also have "exec_byte ?S data ?x3 = Break (idle (ps\<lparr>content_length := 0, pstate := s_chunk_size_start, nread := 0\<rparr>)
      s_chunk_size_start (?p + ?n + 2) LF (?p + ?n + 2) ?u)"
    using assms
    by (simp add: exec_byte_def step_chunk_data_def callback_defs request_notify idle_def upd_def)
  then have "run ?S data ?x3 = run ?S data (idle (ps\<lparr>content_length := 0, pstate := s_chunk_size_start, nread := 0\<rparr>)
         s_chunk_size_start (?p + ?n + 3) c (?p + ?n + 2) ?u)"
    using assms(3) run_next [of ?S data _ _ "pre @ LF # body @ [CR, LF]" c post]
    by (simp add: idle_def eval_nat_numeral)
  finally show ?thesis .
qed

lemma run_last_chunk:
  assumes "F_CHUNKED \<in> flags ps" and "perrno ps = HPE_OK" and data: "data = pre @ ''0'' @ CRLF @ CRLF"
  shows "\<exists>y. run request_settings data (idle ps s_chunk_size_start (length pre) CHR ''0'' h u) = Return (length data) y
     \<and> udata y = u\<lparr>is_completed := True\<rparr>"
proof -
  let ?S = request_settings and ?p = "length pre" and ?ps = "ps\<lparr>content_length := 0\<rparr>"
  let ?ps1 = "?ps\<lparr>flags := insert F_TRAILING (flags ps), pstate := s_header_field_start\<rparr>"
  have d0: "digits 16 0 = ''0''" by code_simp
  have "run ?S data (idle ps s_chunk_size_start ?p CHR ''0'' h u)
      = run ?S data (idle ?ps s_chunk_size_almost_done (?p + 2) LF h u)"
    using run_chunk_size [OF assms(1), of data pre 0 CRLF ?S h u] data
    by (simp add: d0 CRLF_def INT64_MAX_def)
  also have "exec_byte ?S data (idle ?ps s_chunk_size_almost_done (?p + 2) LF h u)
      = Break (idle ?ps1 s_header_field_start (?p + 2) LF h u)"
    using assms(1,2)
    by (simp add: exec_byte_def step_chunk_data_def callback_defs request_notify idle_def upd_def)
  then have "run ?S data (idle ?ps s_chunk_size_almost_done (?p + 2) LF h u)
      = run ?S data (idle ?ps1 s_header_field_start (?p + 3) CR h u)"
    using data run_next [of ?S data _ _ "pre @ ''0'' @ CRLF" CR "[LF]"]
    by (simp add: idle_def CRLF_def eval_nat_numeral)
  also have "exec_byte ?S data (idle ?ps1 s_header_field_start (?p + 3) CR h u)
      = Break (idle ?ps1 s_headers_almost_done (?p + 3) CR h u)"
    by (simp add: exec_byte_def step_header_field_start_def idle_def)
  then have "run ?S data (idle ?ps1 s_header_field_start (?p + 3) CR h u)
      = run ?S data (idle ?ps1 s_headers_almost_done (?p + 4) LF h u)"
    using data run_next [of ?S data _ _ "pre @ ''0'' @ CRLF @ [CR]" LF "[]"]
    by (simp add: idle_def CRLF_def eval_nat_numeral)
  also have "exec_byte ?S data (idle ?ps1 s_headers_almost_done (?p + 4) LF h u)
      = Reexecute (idle (?ps1\<lparr>pstate := s_message_done\<rparr>) s_message_done (?p + 4) LF h u)"
    using assms(2)
    by (simp add: exec_byte_def step_headers_almost_done_def callback_defs request_notify idle_def)
  then have "run ?S data (idle ?ps1 s_headers_almost_done (?p + 4) LF h u)
      = run ?S data (idle (?ps1\<lparr>pstate := s_message_done\<rparr>) s_message_done (?p + 4) LF h u)"
    by (simp add: run.simps [of ?S data "idle ?ps1 s_headers_almost_done (?p + 4) LF h u"])
  finally have eq: "run ?S data (idle ps s_chunk_size_start ?p CHR ''0'' h u) = \<dots>" .
  have "\<exists>y. exec_byte ?S data (idle (?ps1\<lparr>pstate := s_message_done\<rparr>) s_message_done (?p + 4) LF h u)
      = Return (?p + 5) y \<and> udata y = u\<lparr>is_completed := True\<rparr>"
    using assms(2)
    by (simp add: exec_byte_def step_body_def callback_defs CALLBACK_NOTIFY_ER_def after_callback_def
        request_settings_def OnMessageEnd_def http_parser_pause_def idle_def upd_def Let_def eval_nat_numeral)
  then show ?thesis
    using data by (subst eq, subst run.simps) (auto simp: CRLF_def)
qed

lemma chunked_body_read:
  assumes "F_CHUNKED \<in> flags ps" and "perrno ps = HPE_OK" and "pstate ps = s_chunk_size_start"
    and ne: "body \<noteq> []" and "int (length body) \<le> INT64_MAX"
    and data: "data = digits 16 (length body) @ CRLF @ body @ CRLF @ ''0'' @ CRLF @ CRLF"
  shows "\<exists>ps'. http_parser_execute request_settings data ps req
     = Some (length data, ps', req\<lparr>req_body := req_body req @ body, is_completed := True\<rparr>)"
proof -
  let ?S = request_settings and ?d = "digits 16 (length body)"
  let ?ps = "ps\<lparr>content_length := int (length body)\<rparr>"
  have hd: "data ! 0 = hd ?d" using data by (cases ?d) simp_all
  have "run ?S data (initial_exec data ps req) = run ?S data (idle ps s_chunk_size_start 0 (hd ?d) 0 req)"
    using assms(3) hd data by (simp add: initial_exec_def idle_def)
  also have "\<dots> = run ?S data (idle ?ps s_chunk_size_almost_done (length ?d + 1) LF 0 req)"
    using run_chunk_size [OF assms(1), of data "[]" "length body" "body @ CRLF @ ''0'' @ CRLF @ CRLF" ?S 0 req]
      data assms(5) by (simp add: CRLF_def)
  also have "\<dots> = run ?S data (idle (?ps\<lparr>content_length := 0, pstate := s_chunk_size_start, nread := 0\<rparr>)
      s_chunk_size_start (length ?d + 1 + length body + 3) CHR ''0'' (length ?d + 1 + length body + 2)
      (req\<lparr>req_body := req_body req @ body\<rparr>))"
    using run_chunk_data [of ?ps data "?d @ [CR]" body "CHR ''0''" "CRLF @ CRLF" 0 req] assms
    by (simp add: CRLF_def)
  finally have eq: "run ?S data (initial_exec data ps req) = \<dots>" .
  obtain y where "run ?S data (initial_exec data ps req) = Return (length data) y"
      "udata y = req\<lparr>req_body := req_body req @ body, is_completed := True\<rparr>"
    using run_last_chunk [of "?ps\<lparr>content_length := 0, pstate := s_chunk_size_start, nread := 0\<rparr>" data
        "?d @ CRLF @ body @ CRLF" "length ?d + 1 + length body + 2" "req\<lparr>req_body := req_body req @ body\<rparr>"]
      assms(1,2) data unfolding eq by (auto simp: CRLF_def eval_nat_numeral)
  moreover have "data \<noteq> []" using data by simp
  ultimately show ?thesis
    using assms(2) by (simp add: http_parser_execute_def result_of_def Let_def)
qed

lemma empty_body_read:
  assumes "F_CHUNKED \<in> flags ps" and "perrno ps = HPE_OK" and "pstate ps = s_chunk_size_start"
  shows "\<exists>ps'. http_parser_execute request_settings (''0'' @ CRLF @ CRLF) ps req
     = Some (5, ps', req\<lparr>is_completed := True\<rparr>)"
proof -
  let ?d = "''0'' @ CRLF @ CRLF"
  have "initial_exec ?d ps req = idle ps s_chunk_size_start 0 CHR ''0'' 0 req"
    using assms(3) by (simp add: initial_exec_def idle_def)
  then show ?thesis
    using run_last_chunk [OF assms(1,2), of ?d "[]" 0 req] assms(2)
    by (auto simp: http_parser_execute_def result_of_def Let_def CRLF_def)
qed

section \<open>Replies on the wire\<close>

lemma MakeHttpResponse_chunked:
  assumes "code \<noteq> 400" and "http_major (hp r) = 1" and "map_of hdrs ''Transfer-Encoding'' = Some ''chunked''"
  shows "resp_chunked (fst (MakeHttpResponse date code n hdrs r))"
  using assms by (simp add: MakeHttpResponse_def Let_def split: prod.split)

lemma conn_send_sent:
  "connected c \<Longrightarrow> concat (sent (conn_send d c)) = concat (sent c) @ d"
  "connected (conn_send d c) = connected c" "sent (conn_close c) = sent c" "connected (conn_close c) = False"
  by (simp_all add: conn_send_def conn_close_def)

lemma print_x_short: "length (print_x n) \<le> 8"
  using digits_length [of 16 "n mod 2 ^ 32" 7] by (simp add: print_x_def)

text \<open>C7. Chunked replies can be read back: when the reply's headers ask for the chunked transfer
  encoding, the bytes that \<^verbatim>\<open>SendReply\<close> puts on the connection after the header section are read by
  the HTTP parser as a message body equal to the reply's body, to the last byte, and the message is
  complete.\<close>

theorem chunked_reply_roundtrip:
  assumes "connected c" and "code \<noteq> 100" and "code \<noteq> 400" and "http_major (hp r) = 1"
    and "map_of hdrs ''Transfer-Encoding'' = Some ''chunked''" and len: "length body < 2 ^ 32"
    and "F_CHUNKED \<in> flags ps" and "perrno ps = HPE_OK" and "pstate ps = s_chunk_size_start"
  shows "\<exists>payload ps'. concat (sent (snd (SendReply date code hdrs body (r, c))))
       = concat (sent c) @ snd (MakeHttpResponse date code (int (length body)) hdrs r) @ payload
     \<and> http_parser_execute request_settings payload ps req
       = Some (length payload, ps', req\<lparr>req_body := req_body req @ body, is_completed := True\<rparr>)"
proof -
  obtain r1 head where head: "MakeHttpResponse date code (int (length body)) hdrs r = (r1, head)" by fastforce
  then have chunked: "resp_chunked r1"
    using MakeHttpResponse_chunked [OF assms(3-5), of date "int (length body)"] by simp
  have short: "snprintf 32 (print_x (length body) @ CRLF) = digits 16 (length body) @ CRLF"
    using print_x_short [of "length body"] len by (simp add: snprintf_def CRLF_def print_x_def)
  let ?payload = "(if body = [] then [] else digits 16 (length body) @ CRLF @ body @ CRLF) @ ''0'' @ CRLF @ CRLF"
  have "concat (sent (snd (SendReply date code hdrs body (r, c)))) = concat (sent c) @ head @ ?payload"
    using assms(1-3) chunked
    by (simp add: SendReply_def head conn_send_sent short Let_def)
  moreover have "\<exists>ps'. http_parser_execute request_settings ?payload ps req
      = Some (length ?payload, ps', req\<lparr>req_body := req_body req @ body, is_completed := True\<rparr>)"
  proof (cases "body = []")
    case True
    then show ?thesis using empty_body_read [OF assms(7-9), of req] by (simp add: CRLF_def eval_nat_numeral)
  next
    case False
    then show ?thesis
      using chunked_body_read [OF assms(7-9) False, of ?payload req] len by (simp add: INT64_MAX_def)
  qed
  ultimately show ?thesis using head by fastforce
qed

definition chunk_reader :: http_parser where
  "chunk_reader = \<lparr>ptype = HTTP_RESPONSE, flags = {F_CHUNKED}, pstate = s_chunk_size_start,
     header_state = h_general, pindex = 0, nread = 0, content_length = 0, http_major = 1,
     http_minor = 1, status_code = 200, pmethod = HTTP_GET, perrno = HPE_OK, upgrade = False\<rparr>"

definition open_conn :: http_conn where
  "open_conn = \<lparr>sent = [], connected = True, conn_context = None, remote_addr = ''127.0.0.1:80''\<rparr>"

definition plain_response :: http_response where
  "plain_response = \<lparr>resp_close = False, resp_keep_alive = False, resp_chunked = False, hp = chunk_reader\<rparr>"

theorem chunked_reply_roundtrip_witness:
  "\<exists>payload ps'. concat (sent (snd (SendReply [] 200 [(''Transfer-Encoding'', ''chunked'')] ''hello''
         (plain_response, open_conn))))
       = concat (sent open_conn) @ snd (MakeHttpResponse [] 200 (int (length ''hello''))
           [(''Transfer-Encoding'', ''chunked'')] plain_response) @ payload
     \<and> http_parser_execute request_settings payload chunk_reader some_request
       = Some (length payload, ps', some_request\<lparr>req_body := req_body some_request @ ''hello'', is_completed := True\<rparr>)"
  by (rule chunked_reply_roundtrip)
    (simp_all add: open_conn_def plain_response_def chunk_reader_def)

lemma content_len_line:
  assumes "n < 2 ^ 63"
  shows "add_content_len (int n) = ''Content-Length:'' @ digits 10 n @ CRLF"
proof -
  have "length (digits 10 n) \<le> 19" using digits_length [of 10 n 18] assms by simp
  then show ?thesis by (simp add: add_content_len_def snprintf_def print_d_def CRLF_def)
qed

text \<open>C9. A reply that leaves its connection open is delimited: for a request of version 1.x, either
  the chunked encoding is in use, or the header section states the exact length of the body. When
  neither is the case the connection is closed after the body.\<close>

theorem open_reply_is_delimited:
  assumes "connected c" and "code \<noteq> 100" and "http_major (hp r) = 1" and "length body < 2 ^ 63"
    and "SendReply date code hdrs body (r, c) = (r', c')" and "connected c'"
  shows "resp_chunked r' \<or> (\<exists>start rest. sent c' = sent c @
      [start @ ''Content-Length:'' @ digits 10 (length body) @ CRLF @ rest] @ (if body = [] then [] else [body]))"
proof (cases "resp_chunked r'")
  case False
  obtain r1 head where head: "MakeHttpResponse date code (int (length body)) hdrs r = (r1, head)" by fastforce
  have r': "r' = r1" "\<not> resp_close r1" "code \<noteq> 400"
    using assms head by (auto simp: SendReply_def conn_send_sent MakeHttpResponse_def Let_def split: if_splits prod.splits)
  then have c': "sent c' = sent c @ [head] @ (if body = [] then [] else [body])"
    using assms(1,2,5) head False by (auto simp: SendReply_def conn_send_def split: if_splits)
  have "\<exists>start rest. head = start @ add_content_len (int (length body)) @ rest"
  proof -
    obtain k t where e: "status_entry code = (k, t)" by fastforce
    have "head = (status_line (hp r) k @ t @ CRLF @
          (if http_minor (hp r) \<ge> 1 \<and> map_of hdrs ''Date'' = None then date else []))
        @ add_content_len (int (length body))
        @ (if need_body code \<and> map_of hdrs ''Content-Type'' = None
           then ''Content-Type:text/html; charset=ISO-8859-1'' @ CRLF else [])
        @ concat (map header_line hdrs) @ CRLF"
      using head r' assms(3) False by (auto simp: MakeHttpResponse_def e Let_def split: if_splits)
    then show ?thesis by blast
  qed
  then show ?thesis using c' content_len_line [OF assms(4)] by auto
qed simp

theorem open_reply_is_delimited_witness:
  "resp_chunked plain_response \<or> (\<exists>start rest. sent (open_conn\<lparr>sent := [snd (MakeHttpResponse [] 200 2 [] plain_response), ''hi'']\<rparr>)
      = sent open_conn @ [start @ ''Content-Length:'' @ digits 10 (length ''hi'') @ CRLF @ rest]
        @ (if ''hi'' = [] then [] else [''hi'']))"
  by (rule open_reply_is_delimited [where r = plain_response and code = 200 and date = "[]" and hdrs = "[]"])
    (simp_all add: SendReply_def MakeHttpResponse_def status_entry_def http_status_code_def conn_send_def
      plain_response_def open_conn_def chunk_reader_def Let_def)

end
