(* ===== verification/HttpService.thy ===== *)
theory HttpService
  imports HttpResponse
begin

text \<open>
  The HTTP service (\<^verbatim>\<open>src/evpp/evpphttp/service.cc\<close>): the handler table, one request on a connection
  (\<^verbatim>\<open>RequestHandler\<close>) and the loop over the requests in the input buffer (\<^verbatim>\<open>OnMessage\<close>). A user's
  handler is a parameter: a function from the request to the replies it makes through the response
  callback. The loop may not end, so it is a partial function whose value is \<^const>\<open>None\<close> when it
  does not return or when something faults.
\<close>

type_synonym reply = "int \<times> header_map \<times> byte list"
type_synonym http_handler = "http_request \<Rightarrow> reply list"

record http_service =
  callbacks :: "byte list \<rightharpoonup> http_handler"
  default_callback :: http_handler
  is_stopped :: bool

definition Service_new :: http_service where
  "Service_new = \<lparr>callbacks = Map.empty, default_callback = (\<lambda>_. [(404, [], [])]), is_stopped = False\<rparr>"

definition RegisterHandler :: "byte list \<Rightarrow> http_handler \<Rightarrow> http_service \<Rightarrow> http_service" where
  "RegisterHandler uri cb s = s\<lparr>callbacks := (callbacks s)(uri \<mapsto> cb)\<rparr>"

definition set_default_cb :: "http_handler \<Rightarrow> http_service \<Rightarrow> http_service" where
  "set_default_cb cb s = s\<lparr>default_callback := cb\<rparr>"

definition Service_Stop :: "http_service \<Rightarrow> http_service" where
  "Service_Stop s = s\<lparr>callbacks := Map.empty, is_stopped := True\<rparr>"

definition replies :: "byte list \<Rightarrow> reply list \<Rightarrow> http_response \<Rightarrow> http_conn \<Rightarrow> http_conn" where
  "replies date rs r c = snd (foldl (\<lambda>rc (code, hdrs, body). SendReply date code hdrs body rc) (r, c) rs)"
  \<comment> \<open>the response object inside the callback keeps its state from one reply to the next\<close>

definition RequestHandler :: "byte list \<Rightarrow> http_service \<Rightarrow> http_conn \<Rightarrow> buffer \<Rightarrow> http_parser \<times> http_request \<Rightarrow>
    (int \<times> http_conn \<times> buffer \<times> http_parser \<times> http_request) option" where
  "RequestHandler date s c buf hr = do {
     (err, buf', ps, req) \<leftarrow> Parse buf (fst hr) (snd hr);
     if err \<noteq> HPE_OK then
       Some (-1, snd (SendReply date 400 [] [] (HttpResponse_new ps req, c)), buf', ps, req)
     else if completed req then do {
       path \<leftarrow> url_path req;
       let cb = (case callbacks s path of None \<Rightarrow> default_callback s | Some h \<Rightarrow> h);
       Some (0, replies date (cb req) (HttpResponse_new ps req) c, buf', ps, req) }
     else if field_value req ''Expect'' \<noteq> None \<and> \<not> send_continue req
        \<and> map tolower ''Expect'' \<noteq> ''100-continue'' then
       Some (1, snd (SendReply date 100 [] [] (HttpResponse_new ps req, c)), buf', ps,
             req\<lparr>send_continue := True\<rparr>)
     else Some (1, c, buf', ps, req) }"
  \<comment> \<open>\<^verbatim>\<open>expect->first\<close> is the key of the map entry, the string \<^verbatim>\<open>Expect\<close> itself\<close>

partial_function (option) serve :: "byte list \<Rightarrow> http_service \<Rightarrow> http_parser \<Rightarrow> http_parser_url \<Rightarrow>
    http_conn \<Rightarrow> buffer \<Rightarrow> (http_conn \<times> buffer) option" where
  "serve date s ps0 u0 c buf =
     Option.bind (Buffer_length buf) (\<lambda>n.
       if n > 0 then
         (let (ps, req) = HttpRequest_new ps0 u0
          in Option.bind (RequestHandler date s c buf (ps, req\<lparr>remote_ip := remote_addr c\<rparr>))
              (\<lambda>(ret, c', buf', ps', req').
                 if ret < 0 then Some (c', buf')
                 else if ret > 0 then Some (c'\<lparr>conn_context := Some (ps', req')\<rparr>, buf')
                 else serve date s ps0 u0 c' buf'))
       else Some (c, buf))"

definition Service_OnMessage :: "byte list \<Rightarrow> http_service \<Rightarrow> http_parser \<Rightarrow> http_parser_url \<Rightarrow> http_conn \<Rightarrow> buffer \<Rightarrow>
    (http_conn \<times> buffer) option" where
  "Service_OnMessage date s ps0 u0 c buf =
     (case conn_context c of
        Some hr \<Rightarrow> do {
          (ret, c', buf', ps', req') \<leftarrow> RequestHandler date s c buf hr;
          if ret \<noteq> 0 then Some (c'\<lparr>conn_context := Some (ps', req')\<rparr>, buf')
          else serve date s ps0 u0 (c'\<lparr>conn_context := None\<rparr>) buf' }
      | None \<Rightarrow> serve date s ps0 u0 c buf)"
  \<comment> \<open>the request object of the context is updated in place\<close>

section \<open>Every message is handled to the end\<close>

definition context_ok :: "http_conn \<Rightarrow> bool" where
  "context_ok c \<longleftrightarrow> (case conn_context c of None \<Rightarrow> True
     | Some (ps, req) \<Rightarrow> parser_ok ps \<and> request_rest ps req)"

lemma SendReply_context: "conn_context (snd (SendReply date code hdrs body rc)) = conn_context (snd rc)"
  by (simp add: SendReply_def SendContinue_def conn_send_def conn_close_def Let_def split: prod.splits)

lemma replies_context: "conn_context (replies date rs r c) = conn_context c"
proof -
  have "conn_context (snd (foldl (\<lambda>rc (code, hdrs, body). SendReply date code hdrs body rc) rc rs))
      = conn_context (snd rc)" for rc
    by (induction rs arbitrary: rc) (auto simp: SendReply_context split: prod.split)
  then show ?thesis by (simp add: replies_def)
qed

lemma bad_request_closes: "\<not> connected (snd (SendReply date 400 [] [] (r, c)))"
  by (simp add: SendReply_def MakeHttpResponse_def conn_close_def conn_send_def Let_def split: prod.split)

lemma rest_continue: "request_rest ps (req\<lparr>send_continue := b\<rparr>) = request_rest ps req"
    "request_rest ps (req\<lparr>remote_ip := ip\<rparr>) = request_rest ps req"
  by (simp_all add: at_rest_def request_ok_def url_known_def)

lemma url_path_known:
  assumes "url_known req" shows "\<exists>p. url_path req = Some p"
proof -
  have "off \<le> length (req_url req)" if "off + len \<le> length (req_url req)" for off len :: nat
    using that by simp
  then show ?thesis
    using assms by (fastforce simp: url_path_def url_part_def url_known_def fields_within_def field_within_def)
qed

lemma RequestHandler_ok:
  assumes "buf_wf buf" and "readable buf = map Some d" and "parser_ok ps" and "request_rest ps req"
  shows "\<exists>ret c' buf' ps' req' n. RequestHandler date s c buf (ps, req) = Some (ret, c', buf', ps', req')
     \<and> buf_wf buf' \<and> readable buf' = map Some (drop n d) \<and> n \<le> length d
     \<and> parser_ok ps' \<and> request_rest ps' req' \<and> conn_context c' = conn_context c
     \<and> ret \<in> {-1, 0, 1} \<and> (ret = -1 \<longrightarrow> \<not> connected c')
     \<and> (ret = 0 \<and> pstate ps = s_pre_start_req \<and> perrno ps = HPE_OK \<and> d \<noteq> [] \<longrightarrow> 1 \<le> n)"
proof -
  obtain err buf' ps' req' n where p: "Parse buf ps req = Some (err, buf', ps', req')"
    "buf_wf buf'" "readable buf' = map Some (drop n d)" "n \<le> length d"
    "parser_ok ps'" "request_rest ps' req'"
    "pstate ps = s_pre_start_req \<and> perrno ps = HPE_OK \<and> d \<noteq> [] \<and> err = HPE_OK \<longrightarrow> 1 \<le> n"
    using Parse_ok [OF assms] by metis
  have path: "\<exists>path. url_path req' = Some path" if "completed req'"
    using p(6) that by (intro url_path_known) (simp add: at_rest_def request_ok_def completed_def)
  have "\<exists>ret c' req2. RequestHandler date s c buf (ps, req) = Some (ret, c', buf', ps', req2)
     \<and> request_rest ps' req2 \<and> conn_context c' = conn_context c
     \<and> ret \<in> {-1, 0, 1} \<and> (ret = -1 \<longrightarrow> \<not> connected c') \<and> (ret = 0 \<longrightarrow> err = HPE_OK)"
    using p(1,6) path bad_request_closes
    by (auto simp: RequestHandler_def Let_def SendReply_context replies_context rest_continue)
  then obtain ret c' req2 where r: "RequestHandler date s c buf (ps, req) = Some (ret, c', buf', ps', req2)"
     "request_rest ps' req2" "conn_context c' = conn_context c" "ret \<in> {-1, 0, 1}"
     "ret = -1 \<longrightarrow> \<not> connected c'" "ret = 0 \<longrightarrow> err = HPE_OK"
    by blast
  show ?thesis
    by (rule exI [of _ ret], rule exI [of _ c'], rule exI [of _ buf'], rule exI [of _ ps'],
        rule exI [of _ req2], rule exI [of _ n]) (use r p in blast)
qed

lemma serve_ok:
  assumes "buf_wf buf" and "readable buf = map Some d" and "conn_context c = None"
  shows "\<exists>c' buf' d'. serve date s ps0 u0 c buf = Some (c', buf') \<and> buf_wf buf'
     \<and> readable buf' = map Some d' \<and> suffix d' d \<and> context_ok c'
     \<and> (conn_context c' = None \<longrightarrow> d' = [] \<or> \<not> connected c')"
  using assms
proof (induction "length d" arbitrary: d c buf rule: less_induct)
  case less
  show ?case
  proof (cases "d = []")
    case True
    then show ?thesis
      using less.prems by (simp add: serve.simps [of _ _ _ _ _ buf] Buffer_length_wf context_ok_def)
  next
    case False
    obtain ps req where new: "HttpRequest_new ps0 u0 = (ps, req)" by fastforce
    note ok = HttpRequest_new_ok [OF new]
    obtain ret c1 buf1 ps1 req1 n where r:
      "RequestHandler date s c buf (ps, req\<lparr>remote_ip := remote_addr c\<rparr>) = Some (ret, c1, buf1, ps1, req1)"
      "buf_wf buf1" "readable buf1 = map Some (drop n d)" "n \<le> length d" "parser_ok ps1"
      "request_rest ps1 req1" "conn_context c1 = conn_context c" "ret \<in> {-1, 0, 1}"
      "ret = -1 \<longrightarrow> \<not> connected c1" "ret = 0 \<longrightarrow> 1 \<le> n"
      using RequestHandler_ok [OF less.prems(1,2) ok(1), of "req\<lparr>remote_ip := remote_addr c\<rparr>" date s c]
        ok(2-4) False by (auto simp: rest_continue)
    have unfold: "serve date s ps0 u0 c buf = (if ret < 0 then Some (c1, buf1)
        else if ret > 0 then Some (c1\<lparr>conn_context := Some (ps1, req1)\<rparr>, buf1)
        else serve date s ps0 u0 c1 buf1)"
      using less.prems False r(1) by (simp add: serve.simps [of _ _ _ _ _ buf] Buffer_length_wf new)
    have suf: "suffix (drop n d) d" by (rule suffix_drop)
    consider "ret = -1" | "ret = 1" | "ret = 0" using r(8) by auto
    then show ?thesis
    proof cases
      case 1
      then show ?thesis
        using unfold r less.prems(3) suf by (auto simp: context_ok_def)
    next
      case 2
      then show ?thesis
        using unfold r suf by (auto simp: context_ok_def)
    next
      case 3
      then have "length (drop n d) < length d" using r(10) False by simp
      then obtain c' buf' d' where "serve date s ps0 u0 c1 buf1 = Some (c', buf')" "buf_wf buf'"
          "readable buf' = map Some d'" "suffix d' (drop n d)" "context_ok c'"
          "conn_context c' = None \<longrightarrow> d' = [] \<or> \<not> connected c'"
        using less.hyps [OF _ r(2,3)] r(7) less.prems(3) by metis
      moreover have "suffix d' d" using calculation(4) suf by (rule suffix_order.trans)
      ultimately show ?thesis using unfold 3 by auto
    qed
  qed
qed



lemma response_not_chunked [simp]: "\<not> resp_chunked (HttpResponse_new ps req)"
  by (simp add: HttpResponse_new_def)

text \<open>C10. A request the parser rejects is answered by one short \<^verbatim>\<open>400 Bad Request\<close> reply without a
  body, and the connection is closed; no handler is called.\<close>

theorem malformed_request_is_refused:
  assumes "connected c" and "Parse buf (fst hr) (snd hr) = Some (err, buf', ps, req)" and "err \<noteq> HPE_OK"
  shows "\<exists>c'. RequestHandler date s c buf hr = Some (-1, c', buf', ps, req) \<and> \<not> connected c'
     \<and> sent c' = sent c @ [status_line (hp (HttpResponse_new ps req)) 400 @ ''Bad Request'' @ CRLF @ CRLF]"
  using assms
  by (simp add: RequestHandler_def SendReply_def MakeHttpResponse_def status_entry_def http_status_code_def
      conn_send_def conn_close_def Let_def)

definition bytes_buffer :: "byte list \<Rightarrow> buffer" where
  "bytes_buffer d = \<lparr>storage = map Some d, capacity = length d, read_index = 0, write_index = length d,
     reserved_prepend_size = 0\<rparr>"

theorem malformed_request_is_refused_witness:
  "\<exists>err buf' ps req c'. Parse (bytes_buffer ''@'') (http_parser_init HTTP_REQUEST chunk_reader) some_request
       = Some (err, buf', ps, req)
     \<and> RequestHandler [] Service_new open_conn (bytes_buffer ''@'')
         (http_parser_init HTTP_REQUEST chunk_reader, some_request) = Some (-1, c', buf', ps, req)
     \<and> \<not> connected c'
     \<and> sent c' = sent open_conn @ [status_line (hp (HttpResponse_new ps req)) 400 @ ''Bad Request'' @ CRLF @ CRLF]"
proof -
  let ?ps = "http_parser_init HTTP_REQUEST chunk_reader"
  have "case Parse (bytes_buffer ''@'') ?ps some_request of Some (err, _) \<Rightarrow> err \<noteq> HPE_OK | None \<Rightarrow> False"
    by code_simp
  then obtain err buf' ps req where p: "Parse (bytes_buffer ''@'') ?ps some_request = Some (err, buf', ps, req)"
    and "err \<noteq> HPE_OK"
    by (auto split: option.splits)
  then show ?thesis
    using malformed_request_is_refused [of open_conn "bytes_buffer ''@''" "(?ps, some_request)" err buf' ps req "[]" Service_new]
    by (auto simp: open_conn_def)
qed

text \<open>Every incomplete request with an \<^verbatim>\<open>Expect\<close> header is answered by \<^verbatim>\<open>100 Continue\<close>, whatever the
  value of the header is: the comparison with \<^verbatim>\<open>100-continue\<close> looks at the name of the header instead
  of its value, and asks for inequality.\<close>

lemma any_expect_is_continued:
  assumes "connected c" and "Parse buf (fst hr) (snd hr) = Some (HPE_OK, buf', ps, req)"
    and "\<not> completed req" and "\<not> send_continue req" and "field_value req ''Expect'' = Some v"
  shows "\<exists>c' req'. RequestHandler date s c buf hr = Some (1, c', buf', ps, req')
     \<and> sent c' = sent c @ [status_line (hp (HttpResponse_new ps req)) 100 @ ''Continue'' @ CRLF @ CRLF]"
proof -
  have "map tolower ''Expect'' \<noteq> ''100-continue''" by (simp add: tolower_def)
  then show ?thesis
    using assms
    by (simp add: RequestHandler_def SendReply_def SendContinue_def status_entry_def http_status_code_def
        conn_send_def)
qed

definition expecting :: "http_parser \<times> http_request" where
  "expecting = (chunk_reader\<lparr>ptype := HTTP_REQUEST, flags := {}, pstate := s_header_value\<rparr>,
     some_request\<lparr>field_value := [''Expect'' \<mapsto> ''x'']\<rparr>)"
  \<comment> \<open>a request inside the value of its second header line\<close>

lemma any_expect_is_continued_witness:
  "\<exists>buf' ps req c' req'. field_value req ''Expect'' = Some ''x''
     \<and> RequestHandler [] Service_new open_conn (bytes_buffer ''A'') expecting = Some (1, c', buf', ps, req')
     \<and> sent c' = sent open_conn @ [status_line (hp (HttpResponse_new ps req)) 100 @ ''Continue'' @ CRLF @ CRLF]"
proof -
  let ?b = "bytes_buffer ''A''"
  have "case Parse ?b (fst expecting) (snd expecting) of
      Some (err, _, _, req) \<Rightarrow> err = HPE_OK \<and> \<not> completed req \<and> \<not> send_continue req
        \<and> field_value req ''Expect'' = Some ''x''
    | None \<Rightarrow> False"
    by (simp add: Parse_def bytes_buffer_def expecting_def ToSlice_def Buffer_length_def mem_read_def
        http_parser_execute_def initial_exec_def run.simps exec_byte_def step_header_value_def
        value_switch_def IS_HEADER_CHAR_def finish_def upd_def PARSING_HEADER_iff marks_set_def
        HTTP_MAX_HEADER_SIZE_def CALLBACK_DATA_NOADVANCE_def CALLBACK_DATA_ER_def after_callback_def
        request_settings_def OnValue_def code_less RETURN_def result_of_def chunk_reader_def some_request_def
        completed_def Retrieve_def Skip_def Buffer_Reset_def Truncate_def Let_def)
  then obtain buf' ps req where p: "Parse ?b (fst expecting) (snd expecting) = Some (HPE_OK, buf', ps, req)"
    and r: "\<not> completed req" "\<not> send_continue req" "field_value req ''Expect'' = Some ''x''"
    by (auto split: option.splits)
  have "connected open_conn" by (simp add: open_conn_def)
  from any_expect_is_continued [OF this p r, of "[]" Service_new] r(3)
  show ?thesis by blast
qed

end
