(* ===== verification/EventLoop.thy ===== *)
theory EventLoop
  imports Prelude "HOL-Library.Multiset"
begin

text \<open>
  The task queue of \<^verbatim>\<open>EventLoop\<close> (\<^verbatim>\<open>src/evpp/event_loop.cc\<close>) with its wake-up pipe
  (\<^verbatim>\<open>PipeEventWatcher\<close> in \<^verbatim>\<open>src/evpp/event_watcher.cc\<close>), in the default configuration, where the queue is a
  vector guarded by a mutex. Any number of threads may be inside \<^verbatim>\<open>QueueInLoop\<close> while the loop
  thread is anywhere inside \<^verbatim>\<open>DoPendingFunctors\<close> or \<^verbatim>\<open>StopInLoop\<close>: every access to shared state is
  a step of its own, and the steps interleave freely. Only the mutex excludes a push while the
  loop thread holds it.
\<close>

section \<open>State\<close>

datatype 'a task = User 'a | StopTask
  \<comment> \<open>a functor given by a client, or \<^verbatim>\<open>StopInLoop\<close>\<close>

datatype call = Pushed | Counted | SawClear | Stored
  \<comment> \<open>how far a call of \<^verbatim>\<open>QueueInLoop\<close> has come: the functor is in the queue, the counter is
      incremented, \<^verbatim>\<open>notified_\<close> was read as false, it was set to true\<close>

datatype 'a frame =
    Enter                       \<comment> \<open>at the start of \<^verbatim>\<open>DoPendingFunctors\<close>\<close>
  | Cleared                     \<comment> \<open>mutex taken, \<^verbatim>\<open>notified_\<close> set to false\<close>
  | Running "'a task list"      \<comment> \<open>the functors of the batch that are still to be called\<close>
  | Returned "'a task list"     \<comment> \<open>a functor has returned, the counter is to be decremented\<close>
  | StopCheck bool              \<comment> \<open>in \<^verbatim>\<open>StopInLoop\<close>, before or after \<^verbatim>\<open>event_base_loopexit\<close>\<close>

record 'a loop =
  lstatus :: server_status
  pending_functors :: "'a task list"
  pending_functor_count :: int
  notified :: bool
  watcher :: bool
  pipe :: nat
  frames :: "'a frame list"
  loop_exit :: bool
  calls :: "call multiset"
  stop_calls :: nat
  pushed :: "'a task list"
  executed :: "'a task list"
  \<comment> \<open>\<open>pipe\<close> is the number of bytes in the wake-up pipe, \<open>frames\<close> the call stack of the loop thread,
      \<open>calls\<close> the unfinished calls of \<^verbatim>\<open>QueueInLoop\<close>; \<open>pushed\<close> and \<open>executed\<close> record the history\<close>

definition IsRunning :: "'a loop \<Rightarrow> bool" where
  "IsRunning s \<longleftrightarrow> lstatus s = kRunning"

definition loop_init :: "'a loop" where
  "loop_init = \<lparr>lstatus = kInitialized, pending_functors = [], pending_functor_count = 0, notified = False,
     watcher = True, pipe = 0, frames = [], loop_exit = False, calls = {#}, stop_calls = 0,
     pushed = [], executed = []\<rparr>"

section \<open>Atomic actions\<close>

definition locked :: "'a loop \<Rightarrow> bool" where
  "locked s \<longleftrightarrow> (\<exists>fs. frames s = Cleared # fs)"

definition q_push :: "'a task \<Rightarrow> 'a loop \<Rightarrow> 'a loop" where
  "q_push f s = s\<lparr>pending_functors := pending_functors s @ [f], pushed := pushed s @ [f],
     calls := add_mset Pushed (calls s)\<rparr>"

definition q_count :: "'a loop \<Rightarrow> 'a loop" where
  "q_count s = s\<lparr>pending_functor_count := pending_functor_count s + 1,
     calls := add_mset Counted (calls s - {#Pushed#})\<rparr>"

definition q_load :: "'a loop \<Rightarrow> 'a loop" where
  "q_load s = (if notified s then s\<lparr>calls := calls s - {#Counted#}\<rparr>
     else s\<lparr>calls := add_mset SawClear (calls s - {#Counted#})\<rparr>)"

definition q_store :: "'a loop \<Rightarrow> 'a loop" where
  "q_store s = s\<lparr>notified := True, calls := add_mset Stored (calls s - {#SawClear#})\<rparr>"

definition q_notify :: "bool \<Rightarrow> 'a loop \<Rightarrow> 'a loop" where
  "q_notify sent_ok s = s\<lparr>calls := calls s - {#Stored#},
     pipe := (if watcher s \<and> sent_ok then pipe s + 1 else pipe s)\<rparr>"
  \<comment> \<open>\<open>sent_ok\<close> is whether \<^verbatim>\<open>send\<close> succeeded\<close>

definition recv_pipe :: "nat \<Rightarrow> 'a loop \<Rightarrow> 'a loop" where
  "recv_pipe n s = s\<lparr>pipe := pipe s - n, frames := [Enter]\<rparr>"
  \<comment> \<open>\<^verbatim>\<open>HandlerFn\<close>: \<open>n\<close> bytes are received and the handler, \<^verbatim>\<open>DoPendingFunctors\<close>, is called\<close>

definition dp_clear :: "'a loop \<Rightarrow> 'a loop" where
  "dp_clear s = s\<lparr>notified := False, frames := Cleared # tl (frames s)\<rparr>"

definition dp_swap :: "'a loop \<Rightarrow> 'a loop" where
  "dp_swap s = s\<lparr>pending_functors := [], frames := Running (pending_functors s) # tl (frames s)\<rparr>"

definition dp_call :: "'a loop \<Rightarrow> 'a loop" where
  "dp_call s = (case frames s of
     Running (User a # fs) # st \<Rightarrow>
       s\<lparr>executed := executed s @ [User a], frames := Returned fs # st\<rparr>
   | Running (StopTask # fs) # st \<Rightarrow>
       s\<lparr>executed := executed s @ [StopTask], frames := Enter # StopCheck False # Returned fs # st\<rparr>
   | _ \<Rightarrow> s)"
  \<comment> \<open>\<^verbatim>\<open>functors[i]()\<close>; \<^verbatim>\<open>StopInLoop\<close> begins by calling \<^verbatim>\<open>DoPendingFunctors\<close> again\<close>

definition dp_count :: "'a loop \<Rightarrow> 'a loop" where
  "dp_count s = (case frames s of
     Returned fs # st \<Rightarrow> s\<lparr>pending_functor_count := pending_functor_count s - 1, frames := Running fs # st\<rparr>
   | _ \<Rightarrow> s)"

definition dp_return :: "'a loop \<Rightarrow> 'a loop" where
  "dp_return s = s\<lparr>frames := tl (frames s)\<rparr>"

definition stop_check :: "'a loop \<Rightarrow> 'a loop" where
  "stop_check s = (case frames s of
     StopCheck exited # st \<Rightarrow>
       (if pending_functors s \<noteq> [] then s\<lparr>frames := Enter # StopCheck exited # st\<rparr>
        else if \<not> exited then s\<lparr>loop_exit := True, frames := Enter # StopCheck True # st\<rparr>
        else s\<lparr>frames := st\<rparr>)
   | _ \<Rightarrow> s)"
  \<comment> \<open>\<^verbatim>\<open>IsPendingQueueEmpty\<close>, \<^verbatim>\<open>event_base_loopexit\<close> after the first loop, return after the second\<close>

definition run_starting :: "'a loop \<Rightarrow> 'a loop" where
  "run_starting s = s\<lparr>lstatus := kStarting\<rparr>"

definition run_running :: "'a loop \<Rightarrow> 'a loop" where
  "run_running s = s\<lparr>lstatus := kRunning\<rparr>"

definition run_end :: "'a loop \<Rightarrow> 'a loop" where
  "run_end s = s\<lparr>watcher := False, lstatus := kStopped\<rparr>"

definition stop_begin :: "'a loop \<Rightarrow> 'a loop" where
  "stop_begin s = s\<lparr>lstatus := kStopping, stop_calls := stop_calls s + 1\<rparr>"

definition stop_push :: "'a loop \<Rightarrow> 'a loop" where
  "stop_push s = (q_push StopTask s)\<lparr>stop_calls := stop_calls s - 1\<rparr>"

section \<open>Steps\<close>

inductive internal :: "'a loop \<Rightarrow> 'a loop \<Rightarrow> bool" where
  count: "Pushed \<in># calls s \<Longrightarrow> internal s (q_count s)"
| load: "Counted \<in># calls s \<Longrightarrow> internal s (q_load s)"
| store: "SawClear \<in># calls s \<Longrightarrow> internal s (q_store s)"
| notify: "Stored \<in># calls s \<Longrightarrow> ok \<or> 0 < pipe s \<Longrightarrow> internal s (q_notify ok s)"
| recv: "frames s = [] \<Longrightarrow> \<not> loop_exit s \<Longrightarrow> lstatus s \<in> {kRunning, kStopping} \<Longrightarrow>
    0 < n \<Longrightarrow> n \<le> pipe s \<Longrightarrow> n \<le> 4096 \<Longrightarrow> internal s (recv_pipe n s)"
| clear: "frames s = Enter # st \<Longrightarrow> internal s (dp_clear s)"
| swap: "frames s = Cleared # st \<Longrightarrow> internal s (dp_swap s)"
| invoke: "frames s = Running (f # fs) # st \<Longrightarrow> internal s (dp_call s)"
| uncount: "frames s = Returned fs # st \<Longrightarrow> internal s (dp_count s)"
| return: "frames s = Running [] # st \<Longrightarrow> internal s (dp_return s)"
| check: "frames s = StopCheck b # st \<Longrightarrow> internal s (stop_check s)"
| finish: "frames s = [] \<Longrightarrow> loop_exit s \<Longrightarrow> lstatus s = kStopping \<Longrightarrow> internal s (run_end s)"
  \<comment> \<open>the steps of calls already begun and of the loop thread; \<^verbatim>\<open>send\<close> on a non-blocking pipe fails
      only when the pipe is full\<close>

inductive step :: "'a loop \<Rightarrow> 'a loop \<Rightarrow> bool" where
  internal: "internal s s' \<Longrightarrow> step s s'"
| push: "\<not> locked s \<Longrightarrow> step s (q_push (User a) s)"
| start: "lstatus s = kInitialized \<Longrightarrow> step s (run_starting s)"
| started: "lstatus s = kStarting \<Longrightarrow> step s (run_running s)"
| stop: "lstatus s = kRunning \<Longrightarrow> step s (stop_begin s)"
| push_stop: "0 < stop_calls s \<Longrightarrow> \<not> locked s \<Longrightarrow> step s (stop_push s)"
  \<comment> \<open>\<^verbatim>\<open>Stop\<close> asserts that the loop is running\<close>

abbreviation reachable :: "'a loop \<Rightarrow> bool" where
  "reachable s \<equiv> step\<^sup>*\<^sup>* loop_init s"

inductive_cases internalE: "internal s s'"

lemmas action_defs = q_push_def q_count_def q_load_def q_store_def q_notify_def recv_pipe_def
  dp_clear_def dp_swap_def dp_call_def dp_count_def dp_return_def stop_check_def run_starting_def
  run_running_def run_end_def stop_begin_def stop_push_def

lemma reachable_invariant:
  assumes "reachable s" and "P loop_init" and "\<And>s s'. P s \<Longrightarrow> step s s' \<Longrightarrow> P s'"
  shows "P s"
  using assms(1) by (induction rule: rtranclp_induct) (use assms(2,3) in auto)

section \<open>Wake-ups\<close>

definition top_is :: "'a frame list \<Rightarrow> 'a frame \<Rightarrow> bool" where
  "top_is fs f \<longleftrightarrow> fs \<noteq> [] \<and> hd fs = f"

definition token :: "'a loop \<Rightarrow> bool" where
  "token s \<longleftrightarrow> (notified s \<longrightarrow> 0 < pipe s \<or> top_is (frames s) Enter \<or> Stored \<in># calls s \<or> \<not> watcher s)"
  \<comment> \<open>when \<^verbatim>\<open>notified_\<close> is set, a wake-up is on its way\<close>

definition awake :: "'a loop \<Rightarrow> bool" where
  "awake s \<longleftrightarrow> (pending_functors s \<noteq> [] \<longrightarrow> 0 < pipe s \<or> top_is (frames s) Enter \<or> top_is (frames s) Cleared
     \<or> calls s \<noteq> {#} \<or> \<not> watcher s)"

lemma token_step: "token s \<Longrightarrow> step s s' \<Longrightarrow> token s'"
  by (erule step.cases; (erule internal.cases)?)
    (auto simp: token_def top_is_def action_defs in_diff_count split: if_splits task.splits)

lemma another_call: "d \<in># M \<Longrightarrow> M - {#c#} = {#} \<Longrightarrow> d = c"
  by (cases "c \<in># M") (auto dest!: multi_member_split [of c] simp: diff_single_trivial)

lemma awake_step: "token s \<Longrightarrow> awake s \<Longrightarrow> step s s' \<Longrightarrow> awake s'"
  by (erule step.cases; (erule internal.cases)?)
    (auto simp: token_def awake_def top_is_def action_defs dest: another_call
      split: if_splits task.splits)

lemma reachable_awake: "reachable s \<Longrightarrow> token s \<and> awake s"
  by (rule reachable_invariant [where P = "\<lambda>s. token s \<and> awake s"])
    (assumption, simp add: token_def awake_def loop_init_def, blast intro: token_step awake_step)

section \<open>Exactly once, in order\<close>

primrec frame_tasks :: "'a frame \<Rightarrow> 'a task list" where
  "frame_tasks Enter = []"
| "frame_tasks Cleared = []"
| "frame_tasks (Running fs) = fs"
| "frame_tasks (Returned fs) = fs"
| "frame_tasks (StopCheck b) = []"

primrec frame_count :: "'a frame \<Rightarrow> nat" where
  "frame_count Enter = 0"
| "frame_count Cleared = 0"
| "frame_count (Running fs) = length fs"
| "frame_count (Returned fs) = length fs + 1"
| "frame_count (StopCheck b) = 0"

definition taken :: "'a loop \<Rightarrow> 'a task list" where
  "taken s = concat (map frame_tasks (frames s))"
  \<comment> \<open>the functors taken from the queue and not yet called\<close>

definition conserved :: "'a loop \<Rightarrow> bool" where
  "conserved s \<longleftrightarrow> (\<exists>xs. pushed s = xs @ pending_functors s \<and> mset xs = mset (executed s) + mset (taken s))"

definition ordered :: "'a loop \<Rightarrow> bool" where
  "ordered s \<longleftrightarrow> (StopTask \<notin> set (executed s) \<longrightarrow>
     pushed s = executed s @ taken s @ pending_functors s \<and> length (frames s) \<le> 1 \<and>
     (\<forall>b. StopCheck b \<notin> set (frames s)))"

definition counted :: "'a loop \<Rightarrow> bool" where
  "counted s \<longleftrightarrow> pending_functor_count s = int (length (pending_functors s) + sum_list (map frame_count (frames s)))
     - int (count (calls s) Pushed)"

lemma conserved_step: "conserved s \<Longrightarrow> step s s' \<Longrightarrow> conserved s'"
  by (erule step.cases; (erule internal.cases)?)
    (auto simp: conserved_def taken_def action_defs split: if_splits task.splits)

lemma ordered_step: "ordered s \<Longrightarrow> step s s' \<Longrightarrow> ordered s'"
  by (erule step.cases; (erule internal.cases)?)
    (auto simp: ordered_def taken_def action_defs split: if_splits task.splits)

lemma counted_step: "counted s \<Longrightarrow> step s s' \<Longrightarrow> counted s'"
  by (erule step.cases; (erule internal.cases)?)
    (auto simp: counted_def action_defs split: if_splits task.splits)

section \<open>Status\<close>

definition status_ok :: "'a loop \<Rightarrow> bool" where
  "status_ok s \<longleftrightarrow>
     stop_calls s + count (mset (pushed s)) StopTask = (if lstatus s \<in> {kStopping, kStopped} then 1 else 0)
   \<and> (frames s \<noteq> [] \<longrightarrow> lstatus s \<in> {kRunning, kStopping})
   \<and> (watcher s \<or> lstatus s = kStopped)
   \<and> (lstatus s = kStopped \<longrightarrow> frames s = [] \<and> loop_exit s)
   \<and> (loop_exit s \<or> (\<exists>b. StopCheck b \<in> set (frames s)) \<longrightarrow>
        lstatus s \<in> {kStopping, kStopped} \<and> StopTask \<in> set (executed s))"

lemma stop_taken_pushed:
  assumes "conserved s" and "StopTask \<in> set (taken s)"
  shows "0 < count (mset (pushed s)) StopTask"
proof -
  obtain xs where "pushed s = xs @ pending_functors s" "mset xs = mset (executed s) + mset (taken s)"
    using assms(1) by (auto simp: conserved_def)
  then have "StopTask \<in># mset xs" using assms(2) by simp
  then show ?thesis using \<open>pushed s = _\<close> by simp
qed

lemma stop_runs_stopping:
  assumes "conserved s" and "status_ok s" and "frames s = Running (StopTask # fs) # st"
  shows "lstatus s = kStopping"
proof -
  have "0 < count (mset (pushed s)) StopTask"
    using stop_taken_pushed [OF assms(1)] assms(3) by (simp add: taken_def)
  then have "lstatus s \<in> {kStopping, kStopped}"
    using assms(2) unfolding status_ok_def by (metis add_is_0 less_numeral_extra(3))
  moreover have "lstatus s \<in> {kRunning, kStopping}" using assms(2,3) by (simp add: status_ok_def)
  ultimately show ?thesis by auto
qed

lemma status_ok_same:
  assumes "status_ok s" and "lstatus s' = lstatus s" "stop_calls s' = stop_calls s" "pushed s' = pushed s"
    "watcher s' = watcher s" "loop_exit s' = loop_exit s" "set (executed s) \<subseteq> set (executed s')"
    and "frames s' = [] \<or> frames s \<noteq> [] \<or> lstatus s \<in> {kRunning, kStopping}"
    and "\<forall>b. StopCheck b \<in> set (frames s') \<longrightarrow> (\<exists>b. StopCheck b \<in> set (frames s))"
  shows "status_ok s'"
proof -
  have f: "frames s' \<noteq> [] \<Longrightarrow> lstatus s \<in> {kRunning, kStopping}"
    using assms(1,8) by (auto simp: status_ok_def)
  have c: "loop_exit s \<or> (\<exists>b. StopCheck b \<in> set (frames s')) \<Longrightarrow>
      lstatus s \<in> {kStopping, kStopped} \<and> StopTask \<in> set (executed s')"
    using assms(1,7,9) unfolding status_ok_def by blast
  show ?thesis
    using assms(1) f c unfolding status_ok_def assms(2-6) by (intro conjI impI) auto
qed

lemma status_ok_internal:
  assumes "conserved s" and ok: "status_ok s" and "internal s s'"
  shows "status_ok s'"
  using assms(3)
proof (cases rule: internal.cases)
  case (notify sent)
  then show ?thesis by (intro status_ok_same [OF ok]) (auto simp: q_notify_def)
next
  case (invoke f fs st)
  show ?thesis
  proof (cases f)
    case (User a)
    with invoke show ?thesis by (intro status_ok_same [OF ok]) (auto simp: dp_call_def)
  next
    case StopTask
    then have "lstatus s = kStopping" using stop_runs_stopping [OF assms(1) ok] invoke by simp
    with invoke StopTask ok show ?thesis by (auto simp: status_ok_def dp_call_def)
  qed
next
  case (check b st)
  then have "lstatus s = kStopping" "StopTask \<in> set (executed s)"
    using ok by (auto simp: status_ok_def)
  with check ok show ?thesis by (auto simp: status_ok_def stop_check_def)
next
  case finish
  with ok show ?thesis by (simp add: status_ok_def run_end_def)
qed (intro status_ok_same [OF ok], auto simp: action_defs)+

lemma status_ok_step:
  assumes "conserved s" and ok: "status_ok s" and "step s s'"
  shows "status_ok s'"
  using assms(3)
proof (cases rule: step.cases)
  case internal
  then show ?thesis by (rule status_ok_internal [OF assms(1) ok])
next
  case (push a)
  with ok show ?thesis by (simp add: status_ok_def q_push_def)
next
  case start
  with ok show ?thesis by (simp add: status_ok_def run_starting_def)
next
  case started
  with ok show ?thesis by (simp add: status_ok_def run_running_def)
next
  case stop
  with ok show ?thesis by (simp add: status_ok_def stop_begin_def)
next
  case push_stop
  with ok show ?thesis by (auto simp: status_ok_def stop_push_def q_push_def)
qed

definition loop_inv :: "'a loop \<Rightarrow> bool" where
  "loop_inv s \<longleftrightarrow> token s \<and> awake s \<and> conserved s \<and> ordered s \<and> counted s \<and> status_ok s"

lemma loop_inv_init: "loop_inv loop_init"
  by (simp add: loop_inv_def token_def awake_def conserved_def ordered_def counted_def status_ok_def
      loop_init_def taken_def)

lemma loop_inv_step: "loop_inv s \<Longrightarrow> step s s' \<Longrightarrow> loop_inv s'"
  unfolding loop_inv_def
  by (blast intro: token_step awake_step conserved_step ordered_step counted_step status_ok_step)

interpretation loop_steps: preserved step loop_inv
  by unfold_locales (erule (1) loop_inv_step [rotated])

lemma reachable_inv: "reachable s \<Longrightarrow> loop_inv s"
  by (erule loop_steps.run_inv) (rule loop_inv_init)

section \<open>Progress\<close>

primrec task_weight :: "'a task \<Rightarrow> nat" where
  "task_weight (User a) = 3"
| "task_weight StopTask = 20"

primrec frame_weight :: "'a frame \<Rightarrow> nat" where
  "frame_weight Enter = 4"
| "frame_weight Cleared = 3"
| "frame_weight (Running fs) = 1 + sum_list (map task_weight fs)"
| "frame_weight (Returned fs) = 2 + sum_list (map task_weight fs)"
| "frame_weight (StopCheck b) = (if b then 5 else 12)"

primrec call_weight :: "call \<Rightarrow> nat" where
  "call_weight Pushed = 9"
| "call_weight Counted = 8"
| "call_weight SawClear = 7"
| "call_weight Stored = 6"

definition weight :: "'a loop \<Rightarrow> nat" where
  "weight s = sum_list (map task_weight (pending_functors s)) + sum_list (map frame_weight (frames s))
     + sum_mset (image_mset call_weight (calls s)) + 5 * pipe s
     + (if pending_functors s \<noteq> [] \<and> \<not> top_is (frames s) Enter \<and> \<not> top_is (frames s) Cleared then 5 else 0)
     + (if lstatus s = kStopped then 0 else 1)"
  \<comment> \<open>a bound on the number of steps that are possible without a new call\<close>

lemma internal_weight:
  assumes "internal s s'"
  shows "weight s' < weight s"
  using assms
proof (cases rule: internal.cases)
  case (invoke f fs st)
  then show ?thesis by (cases f) (auto simp: weight_def dp_call_def top_is_def)
next
  case (return st)
  then show ?thesis by (cases st) (auto simp: weight_def dp_return_def top_is_def)
next
  case (check b st)
  then show ?thesis by (cases st) (auto simp: weight_def stop_check_def top_is_def)
qed (auto simp: weight_def action_defs top_is_def dest!: multi_member_split)

interpretation internal_steps: decreasing internal "\<lambda>s. True" weight
  by unfold_locales (rule TrueI, erule internal_weight)

section \<open>Whole calls\<close>

definition QueueInLoop :: "'a task \<Rightarrow> 'a loop \<Rightarrow> 'a loop option" where
  "QueueInLoop f s =
     (let s1 = q_load (q_count (q_push f s))
      in if notified s then Some s1
         else let s2 = q_store s1
              in do { require (watcher s2 \<or> \<not> IsRunning s2); Some (q_notify True s2) })"
  \<comment> \<open>the call without interruption\<close>

definition RunInLoop :: "bool \<Rightarrow> 'a task \<Rightarrow> 'a loop \<Rightarrow> 'a loop option" where
  "RunInLoop in_loop_thread f s =
     (if IsRunning s \<and> in_loop_thread then Some (s\<lparr>executed := executed s @ [f]\<rparr>) else QueueInLoop f s)"

definition EventLoop_Stop :: "'a loop \<Rightarrow> 'a loop option" where
  "EventLoop_Stop s = do { require (lstatus s = kRunning); QueueInLoop StopTask (s\<lparr>lstatus := kStopping\<rparr>) }"

datatype 'a act = Start | Started | Push 'a | Stop | PushStop | Count | Load | Store | Notify bool
  | Recv nat | Clear | Swap | Invoke | Uncount | Return | Check | Finish

fun perform :: "'a act \<Rightarrow> 'a loop \<Rightarrow> 'a loop option" where
  "perform Start s = (if lstatus s = kInitialized then Some (run_starting s) else None)"
| "perform Started s = (if lstatus s = kStarting then Some (run_running s) else None)"
| "perform (Push a) s = (if top_is (frames s) Cleared then None else Some (q_push (User a) s))"
| "perform Stop s = (if lstatus s = kRunning then Some (stop_begin s) else None)"
| "perform PushStop s = (if 0 < stop_calls s \<and> \<not> top_is (frames s) Cleared then Some (stop_push s) else None)"
| "perform Count s = (if Pushed \<in># calls s then Some (q_count s) else None)"
| "perform Load s = (if Counted \<in># calls s then Some (q_load s) else None)"
| "perform Store s = (if SawClear \<in># calls s then Some (q_store s) else None)"
| "perform (Notify ok) s = (if Stored \<in># calls s \<and> (ok \<or> 0 < pipe s) then Some (q_notify ok s) else None)"
| "perform (Recv n) s = (if frames s = [] \<and> \<not> loop_exit s \<and> lstatus s \<in> {kRunning, kStopping}
     \<and> 0 < n \<and> n \<le> pipe s \<and> n \<le> 4096 then Some (recv_pipe n s) else None)"
| "perform Clear s = (if top_is (frames s) Enter then Some (dp_clear s) else None)"
| "perform Swap s = (if top_is (frames s) Cleared then Some (dp_swap s) else None)"
| "perform Invoke s = (case frames s of Running (f # fs) # st \<Rightarrow> Some (dp_call s) | _ \<Rightarrow> None)"
| "perform Uncount s = (case frames s of Returned fs # st \<Rightarrow> Some (dp_count s) | _ \<Rightarrow> None)"
| "perform Return s = (if top_is (frames s) (Running []) then Some (dp_return s) else None)"
| "perform Check s = (case frames s of StopCheck b # st \<Rightarrow> Some (stop_check s) | _ \<Rightarrow> None)"
| "perform Finish s = (if frames s = [] \<and> loop_exit s \<and> lstatus s = kStopping then Some (run_end s) else None)"
  \<comment> \<open>one step chosen by a scheduler\<close>

primrec schedule :: "'a act list \<Rightarrow> 'a loop \<Rightarrow> 'a loop option" where
  "schedule [] s = Some s"
| "schedule (a # as) s = (case perform a s of None \<Rightarrow> None | Some s' \<Rightarrow> schedule as s')"

lemma perform_step: "perform a s = Some s' \<Longrightarrow> step s s'"
  by (cases a)
    (auto simp: top_is_def locked_def neq_Nil_conv intro!: step.intros(2-) intro: step.internal internal.intros
      split: if_splits list.splits frame.splits)

lemma schedule_reachable: "reachable s \<Longrightarrow> schedule as s = Some s' \<Longrightarrow> reachable s'"
  by (induction as arbitrary: s) (auto split: option.splits dest: perform_step intro: rtranclp.rtrancl_into_rtrancl)

lemma three_steps: "r a b \<Longrightarrow> r b c \<Longrightarrow> r c d \<Longrightarrow> r\<^sup>*\<^sup>* a d"
  by (rule converse_rtranclp_into_rtranclp, assumption)+ simp

lemma QueueInLoop_steps:
  assumes "QueueInLoop (User a) s = Some s'" and "\<not> locked s"
  shows "step\<^sup>*\<^sup>* s s'"
proof -
  let ?s1 = "q_push (User a) s" and ?s2 = "q_count (q_push (User a) s)"
  have "step s ?s1" using assms(2) by (rule step.push)
  moreover have "step ?s1 ?s2" by (intro step.internal internal.count) (simp add: q_push_def)
  moreover have "step ?s2 (q_load ?s2)" by (intro step.internal internal.load) (simp add: q_count_def)
  ultimately have pre: "step\<^sup>*\<^sup>* s (q_load ?s2)" by (rule three_steps)
  show ?thesis
  proof (cases "notified s")
    case True
    then show ?thesis using assms(1) pre by (auto simp: QueueInLoop_def Let_def)
  next
    case False
    then have "step (q_load ?s2) (q_store (q_load ?s2))"
      by (intro step.internal internal.store) (simp add: q_load_def q_count_def q_push_def)
    moreover have "step (q_store (q_load ?s2)) (q_notify True (q_store (q_load ?s2)))"
      by (intro step.internal internal.notify) (simp_all add: q_store_def)
    moreover have "s' = q_notify True (q_store (q_load ?s2))"
      using assms(1) False by (auto simp: QueueInLoop_def Let_def require_bind_Some_iff)
    ultimately show ?thesis
      using rtranclp.rtrancl_into_rtrancl [OF rtranclp.rtrancl_into_rtrancl [OF pre]] by simp
  qed
qed

section \<open>What the loop guarantees\<close>

lemma internal_same:
  "internal s s' \<Longrightarrow> pushed s' = pushed s \<and> (lstatus s \<noteq> kStopping \<longrightarrow> lstatus s' = lstatus s)"
  by (erule internal.cases) (auto simp: action_defs split: list.splits frame.splits task.splits)

lemma internals_same:
  "internal\<^sup>*\<^sup>* s s' \<Longrightarrow> lstatus s = kRunning \<Longrightarrow> pushed s' = pushed s \<and> lstatus s' = kRunning"
  by (induction rule: rtranclp_induct) (auto dest: internal_same)

lemma internals_reachable: "internal\<^sup>*\<^sup>* s s' \<Longrightarrow> reachable s \<Longrightarrow> reachable s'"
  by (induction rule: rtranclp_induct) (auto intro: step.internal rtranclp.rtrancl_into_rtrancl)

lemma blocked_empty:
  assumes "\<nexists>s'. internal s s'" and "lstatus s = kRunning" and "loop_inv s"
  shows "calls s = {#}" "frames s = []" "pipe s = 0"
proof -
  have "c \<notin># calls s" for c
    using assms(1) internal.count [of s] internal.load [of s] internal.store [of s] internal.notify [of s True]
    by (cases c) auto
  then show "calls s = {#}" by (meson multiset_nonemptyE)
  show fr: "frames s = []"
  proof (rule ccontr)
    assume "frames s \<noteq> []"
    then obtain f st where f: "frames s = f # st" by (cases "frames s") auto
    have "\<exists>s'. internal s s'"
    proof (cases f)
      case (Running fs)
      then show ?thesis using f by (cases fs) (auto intro: internal.intros)
    qed (use f in \<open>auto intro: internal.intros\<close>)
    then show False using assms(1) by blast
  qed
  have "\<not> loop_exit s" using assms(2,3) by (auto simp: loop_inv_def status_ok_def)
  then show "pipe s = 0"
    using assms(1,2) fr internal.recv [of s 1] by (cases "pipe s") auto
qed

lemma running_no_stop:
  assumes "loop_inv s" and "lstatus s = kRunning"
  shows "StopTask \<notin> set (pushed s)" "StopTask \<notin> set (executed s)"
proof -
  show p: "StopTask \<notin> set (pushed s)"
    using assms unfolding loop_inv_def status_ok_def by (auto simp: count_mset_0_iff)
  obtain xs where "pushed s = xs @ pending_functors s" "mset xs = mset (executed s) + mset (taken s)"
    using assms(1) by (auto simp: loop_inv_def conserved_def)
  then show "StopTask \<notin> set (executed s)"
    using p by (metis Un_iff set_append set_mset_mset set_mset_union)
qed

text \<open>C11. Every functor that was queued runs: from any reachable state of a running loop, once no new
  functor is queued, the threads inside \<^verbatim>\<open>QueueInLoop\<close> and the loop thread can take only a bounded
  number of further steps, in whatever order they are interleaved; and when none of them can go on,
  the loop has called every functor exactly once, in the order in which they were queued, the queue
  is empty and the pending counter is back at zero.\<close>

theorem every_functor_runs:
  assumes "reachable s" and "lstatus s = kRunning"
  shows "(\<forall>n t. (internal ^^ n) s t \<longrightarrow> n \<le> weight s)
     \<and> (\<forall>t. internal\<^sup>*\<^sup>* s t \<and> (\<nexists>t'. internal t t') \<longrightarrow>
          executed t = pushed s \<and> pending_functors t = [] \<and> pending_functor_count t = 0)"
proof (intro conjI allI impI)
  show "n \<le> weight s" if "(internal ^^ n) s t" for n t
    using internal_steps.run_bound [OF that TrueI] by simp
next
  fix t assume t: "internal\<^sup>*\<^sup>* s t \<and> (\<nexists>t'. internal t t')"
  then have run: "lstatus t = kRunning" "pushed t = pushed s" using internals_same assms(2) by blast+
  have inv: "loop_inv t" using t assms(1) internals_reachable reachable_inv by blast
  note b = blocked_empty [OF _ run(1) inv]
  have w: "watcher t" using inv run(1) by (auto simp: loop_inv_def status_ok_def)
  show p: "pending_functors t = []"
    using b t inv w by (auto simp: loop_inv_def awake_def top_is_def)
  show "executed t = pushed s"
    using inv running_no_stop [OF inv run(1)] b t p run(2) by (auto simp: loop_inv_def ordered_def taken_def)
  show "pending_functor_count t = 0"
    using inv b t p by (auto simp: loop_inv_def counted_def)
qed

definition one_queued :: "nat loop" where
  "one_queued = run_running (run_starting (q_push (User 1) loop_init))"

lemma one_queued_reachable: "reachable one_queued"
  by (rule schedule_reachable [of loop_init "[Push 1, Start, Started]"])
    (auto simp: one_queued_def action_defs top_is_def loop_init_def)

theorem every_functor_runs_witness:
  "\<exists>t. internal\<^sup>*\<^sup>* one_queued t \<and> (\<nexists>t'. internal t t')
     \<and> executed t = pushed one_queued \<and> pending_functors t = [] \<and> pending_functor_count t = 0"
proof -
  have "lstatus one_queued = kRunning" by (simp add: one_queued_def action_defs)
  note runs = every_functor_runs [OF one_queued_reachable this]
  obtain t where "internal\<^sup>*\<^sup>* one_queued t" "\<nexists>t'. internal t t'"
    using internal_steps.some_final [OF TrueI, of one_queued] by blast
  with runs show ?thesis by blast
qed

text \<open>C12. No wake-up is lost: in every reachable state in which the queue holds a functor and no
  thread is inside \<^verbatim>\<open>QueueInLoop\<close>, there is a byte in the wake-up pipe or the loop thread is already
  about to empty the queue. In particular a thread that skips the notification because \<^verbatim>\<open>notified_\<close>
  is set may rely on another one's.\<close>

theorem no_lost_wakeup:
  assumes "reachable s" and "watcher s" and "pending_functors s \<noteq> []" and "calls s = {#}"
  shows "0 < pipe s \<or> top_is (frames s) Enter \<or> top_is (frames s) Cleared"
  using reachable_awake [OF assms(1)] assms(2-) by (auto simp: awake_def)

definition one_notified :: "nat loop" where
  "one_notified = q_notify True (q_store (q_load (q_count (q_push (User 1) loop_init))))"

theorem no_lost_wakeup_witness:
  "0 < pipe one_notified \<or> top_is (frames one_notified) Enter \<or> top_is (frames one_notified) Cleared"
proof (rule no_lost_wakeup)
  show "reachable one_notified"
    by (rule schedule_reachable [of loop_init "[Push 1, Count, Load, Store, Notify True]"])
      (auto simp: one_notified_def action_defs top_is_def loop_init_def)
qed (simp_all add: one_notified_def action_defs loop_init_def)

text \<open>C13. At every moment each queued functor is in exactly one place: called, taken by the loop thread
  and waiting to be called, or in the queue. Until the loop is stopped the functors are called in
  the order in which they were queued, and the public counter differs from the number of waiting
  functors only by calls that have not counted yet.\<close>

theorem functors_in_one_place:
  assumes "reachable s"
  shows "mset (pushed s) = mset (executed s) + mset (taken s) + mset (pending_functors s)
    \<and> (StopTask \<in> set (executed s) \<or> pushed s = executed s @ taken s @ pending_functors s)
    \<and> pending_functor_count s = int (length (pending_functors s) + sum_list (map frame_count (frames s)))
      - int (count (calls s) Pushed)"
  using reachable_inv [OF assms] by (auto simp: loop_inv_def conserved_def ordered_def counted_def)

theorem functors_in_one_place_witness:
  "mset (pushed one_queued) = mset (executed one_queued) + mset (taken one_queued) + mset (pending_functors one_queued)
    \<and> (StopTask \<in> set (executed one_queued)
        \<or> pushed one_queued = executed one_queued @ taken one_queued @ pending_functors one_queued)
    \<and> pending_functor_count one_queued = int (length (pending_functors one_queued)
        + sum_list (map frame_count (frames one_queued))) - int (count (calls one_queued) Pushed)"
  by (rule functors_in_one_place [OF one_queued_reachable])

text \<open>C14. Stopping drains the queue: when the loop thread has left the loop, every functor that was
  queued before \<^verbatim>\<open>Stop\<close> queued its own has been called.\<close>

theorem stop_drains_queue:
  assumes "reachable s" and "lstatus s = kStopped" and "pushed s = pre @ StopTask # post"
  shows "mset (pre @ [StopTask]) \<subseteq># mset (executed s)"
proof -
  have inv: "status_ok s" "conserved s" using reachable_inv [OF assms(1)] by (auto simp: loop_inv_def)
  then have fr: "frames s = []" and st: "StopTask \<in> set (executed s)"
    and one: "count (mset (pushed s)) StopTask \<le> 1"
    using assms(2) by (auto simp: status_ok_def)
  obtain xs where xs: "pushed s = xs @ pending_functors s" "mset xs = mset (executed s)"
    using inv(2) fr by (auto simp: conserved_def taken_def)
  have "StopTask \<in> set xs" using st xs(2) by (metis set_mset_mset)
  then obtain a b where ab: "xs = a @ StopTask # b" by (auto dest: split_list)
  have eq: "a @ StopTask # (b @ pending_functors s) = pre @ StopTask # post"
    using assms(3) xs(1) ab by simp
  have "StopTask \<notin> set a" "StopTask \<notin> set (b @ pending_functors s)"
    using one xs(1) ab by (auto simp flip: count_mset_0_iff)
  then have "a = pre" using eq by (simp add: append_Cons_eq_iff)
  then show ?thesis using xs(2) ab by (metis append.assoc append_Cons append_Nil mset_append mset_subset_eq_add_left)
qed

definition stop_schedule :: "nat act list" where
  "stop_schedule = [Start, Started, Push 7, Stop, PushStop, Count, Load, Store, Notify True, Count, Load,
     Recv 1, Clear, Swap, Invoke, Uncount, Invoke, Clear, Swap, Return, Check, Clear, Swap, Return, Check,
     Uncount, Return, Finish]"

definition stopped_loop :: "nat loop" where
  "stopped_loop = \<lparr>lstatus = kStopped, pending_functors = [], pending_functor_count = 0, notified = False,
     watcher = False, pipe = 0, frames = [], loop_exit = True, calls = {#}, stop_calls = 0,
     pushed = [User 7, StopTask], executed = [User 7, StopTask]\<rparr>"

theorem stop_drains_queue_witness: "mset ([User 7] @ [StopTask]) \<subseteq># mset (executed stopped_loop)"
proof (rule stop_drains_queue [where post = "[]"])
  have "schedule stop_schedule loop_init = Some stopped_loop"
    by (simp add: stop_schedule_def stopped_loop_def action_defs loop_init_def top_is_def)
  then show "reachable stopped_loop" using schedule_reachable [of loop_init] by blast
qed (simp_all add: stopped_loop_def)

text \<open>The loop's assertions hold: \<^verbatim>\<open>StopInLoop\<close> runs only while the loop is stopping, and whenever
  \<^verbatim>\<open>QueueInLoop\<close> finds that the watcher is gone, the loop is not running.\<close>

lemma loop_assertions_hold:
  assumes "reachable s"
  shows "(watcher s \<or> \<not> IsRunning s)
    \<and> (lstatus s = kStopping \<or> (\<nexists>fs st. frames s = Running (StopTask # fs) # st))"
  using reachable_inv [OF assms] stop_runs_stopping [of s]
  by (auto simp: loop_inv_def status_ok_def IsRunning_def)

lemma loop_assertions_hold_witness: "IsRunning one_queued \<and> watcher one_queued"
  using loop_assertions_hold [OF one_queued_reachable] by (simp add: one_queued_def action_defs IsRunning_def)

text \<open>Stopping does not keep the order of the queue: \<^verbatim>\<open>StopInLoop\<close> empties the queue by calling
  \<^verbatim>\<open>DoPendingFunctors\<close> from inside the batch it belongs to, so a functor queued later is called before
  the functors that follow \<^verbatim>\<open>StopInLoop\<close> in its batch.\<close>

lemma stop_overtakes_batch:
  "\<exists>s :: nat loop. reachable s \<and> pushed s = [StopTask, User 1, User 2] \<and> executed s = [StopTask, User 2, User 1]"
proof -
  let ?as = "[Start, Started, Stop, PushStop, Push 1, Count, Load, Store, Notify True, Recv 1, Clear, Swap,
    Push 2, Invoke, Clear, Swap, Invoke, Uncount, Return, Check, Clear, Swap, Return, Check, Uncount, Invoke]"
  have "\<exists>s. schedule ?as loop_init = Some s \<and> pushed s = [StopTask, User (1 :: nat), User 2]
      \<and> executed s = [StopTask, User 2, User 1]"
    by (simp add: action_defs loop_init_def top_is_def)
  then show ?thesis using schedule_reachable [of loop_init] by blast
qed

end
