(* ===== verification/FdChannel.thy ===== *)
theory FdChannel
  imports Prelude
begin

text \<open>
  \<^verbatim>\<open>FdChannel\<close> (\<^verbatim>\<open>src/evpp/fd_channel.cc\<close>): which events of a descriptor are watched. libevent is a
  parameter: whether \<^verbatim>\<open>event_add\<close> and \<^verbatim>\<open>event_del\<close> succeed. The member \<open>registered\<close> is what libevent
  watches for the channel, if anything. A failed assertion is \<^const>\<open>None\<close>.
\<close>

datatype event_type = kReadable | kWritable

record libevent =
  event_add_ok :: bool
  event_del_ok :: bool

record fd_channel =
  events :: "event_type set"
  chan_attached :: bool
  has_event :: bool
  callbacks_set :: bool
  registered :: "event_type set option"

definition FdChannel_new :: "bool \<Rightarrow> bool \<Rightarrow> fd_channel" where
  "FdChannel_new r w = \<lparr>events = (if r then {kReadable} else {}) \<union> (if w then {kWritable} else {}),
     chan_attached = False, has_event = True, callbacks_set = False, registered = None\<rparr>"

definition IsReadable :: "fd_channel \<Rightarrow> bool" where
  "IsReadable c \<longleftrightarrow> kReadable \<in> events c"

definition IsWritable :: "fd_channel \<Rightarrow> bool" where
  "IsWritable c \<longleftrightarrow> kWritable \<in> events c"

definition IsNoneEvent :: "fd_channel \<Rightarrow> bool" where
  "IsNoneEvent c \<longleftrightarrow> events c = {}"

definition FdChannel_Close :: "fd_channel \<Rightarrow> fd_channel option" where
  "FdChannel_Close c = do {
     require (has_event c);
     require (\<not> chan_attached c);
     Some (c\<lparr>has_event := False, callbacks_set := False\<rparr>) }"

definition FdChannel_destroy :: "fd_channel \<Rightarrow> unit option" where
  "FdChannel_destroy c = do { require (\<not> has_event c); Some () }"

definition SetCallbacks :: "fd_channel \<Rightarrow> fd_channel" where
  "SetCallbacks c = c\<lparr>callbacks_set := True\<rparr>"
  \<comment> \<open>\<^verbatim>\<open>SetReadCallback\<close> and \<^verbatim>\<open>SetWriteCallback\<close>; \<^verbatim>\<open>Close\<close> clears both\<close>

definition DetachFromLoop :: "libevent \<Rightarrow> fd_channel \<Rightarrow> fd_channel option" where
  "DetachFromLoop ev c = do {
     require (chan_attached c);
     Some (if event_del_ok ev then c\<lparr>chan_attached := False, registered := None\<rparr> else c) }"

definition AttachToLoop :: "libevent \<Rightarrow> fd_channel \<Rightarrow> fd_channel option" where
  "AttachToLoop ev c = do {
     require (\<not> IsNoneEvent c);
     c1 \<leftarrow> (if chan_attached c then DetachFromLoop ev c else Some c);
     require (\<not> chan_attached c1);
     require (has_event c1);
     Some (if event_add_ok ev then c1\<lparr>chan_attached := True, registered := Some (events c1)\<rparr> else c1) }"
  \<comment> \<open>\<^verbatim>\<open>event_set\<close> writes through the pointer \<^verbatim>\<open>event_\<close>\<close>

definition Update :: "libevent \<Rightarrow> fd_channel \<Rightarrow> fd_channel option" where
  "Update ev c = (if IsNoneEvent c then DetachFromLoop ev c else AttachToLoop ev c)"

definition change_events :: "libevent \<Rightarrow> event_type set \<Rightarrow> fd_channel \<Rightarrow> fd_channel option" where
  "change_events ev es c = (if es \<noteq> events c then Update ev (c\<lparr>events := es\<rparr>) else Some c)"

definition EnableReadEvent :: "libevent \<Rightarrow> fd_channel \<Rightarrow> fd_channel option" where
  "EnableReadEvent ev c = change_events ev (insert kReadable (events c)) c"

definition EnableWriteEvent :: "libevent \<Rightarrow> fd_channel \<Rightarrow> fd_channel option" where
  "EnableWriteEvent ev c = change_events ev (insert kWritable (events c)) c"

definition DisableReadEvent :: "libevent \<Rightarrow> fd_channel \<Rightarrow> fd_channel option" where
  "DisableReadEvent ev c = change_events ev (events c - {kReadable}) c"

definition DisableWriteEvent :: "libevent \<Rightarrow> fd_channel \<Rightarrow> fd_channel option" where
  "DisableWriteEvent ev c = change_events ev (events c - {kWritable}) c"

definition DisableAllEvent :: "libevent \<Rightarrow> fd_channel \<Rightarrow> fd_channel option" where
  "DisableAllEvent ev c = (if events c = {} then Some c else Update ev (c\<lparr>events := {}\<rparr>))"

definition EventsToString :: "fd_channel \<Rightarrow> string" where
  "EventsToString c =
     (let s = (if IsReadable c then ''kReadable'' else [])
      in if IsWritable c then (if s \<noteq> [] then s @ ''|'' else s) @ ''kWritable'' else s)"

definition HandleEvent :: "event_type set \<Rightarrow> (fd_channel \<Rightarrow> fd_channel option) \<Rightarrow> (fd_channel \<Rightarrow> fd_channel option) \<Rightarrow>
    fd_channel \<Rightarrow> fd_channel option" where
  "HandleEvent which read_fn write_fn c = do {
     c1 \<leftarrow> (if kReadable \<in> which \<and> callbacks_set c then read_fn c else Some c);
     if kWritable \<in> which \<and> callbacks_set c1 then write_fn c1 else Some c1 }"
  \<comment> \<open>the read callback may close the channel, which clears both callbacks\<close>

section \<open>The watched events are the registered ones\<close>

definition chan_ok :: "fd_channel \<Rightarrow> bool" where
  "chan_ok c \<longleftrightarrow> has_event c \<and> (chan_attached c \<longleftrightarrow> events c \<noteq> {})
     \<and> registered c = (if events c = {} then None else Some (events c))"

abbreviation libevent_works :: libevent where
  "libevent_works \<equiv> \<lparr>event_add_ok = True, event_del_ok = True\<rparr>"

lemmas channel_defs = SetCallbacks_def change_events_def Update_def AttachToLoop_def DetachFromLoop_def IsNoneEvent_def
  IsReadable_def IsWritable_def

lemma change_events_ok:
  assumes "chan_ok c"
  shows "\<exists>c'. change_events libevent_works es c = Some c' \<and> chan_ok c' \<and> events c' = es
     \<and> callbacks_set c' = callbacks_set c"
  using assms by (auto simp: chan_ok_def channel_defs)

lemma DisableAllEvent_ok:
  assumes "chan_ok c"
  shows "\<exists>c'. DisableAllEvent libevent_works c = Some c' \<and> chan_ok c' \<and> events c' = {}
     \<and> callbacks_set c' = callbacks_set c"
  using assms by (auto simp: chan_ok_def channel_defs DisableAllEvent_def)

lemma FdChannel_new_ok: "chan_ok (FdChannel_new False False)"
  by (simp add: chan_ok_def FdChannel_new_def)

lemma FdChannel_Close_ok:
  "chan_ok c \<Longrightarrow> events c = {} \<Longrightarrow> FdChannel_Close c = Some (c\<lparr>has_event := False, callbacks_set := False\<rparr>)"
  by (simp add: FdChannel_Close_def chan_ok_def)

section \<open>Sequences of operations\<close>

datatype chan_op = EnableRead | EnableWrite | DisableRead | DisableWrite | DisableAll

primrec chan_do :: "libevent \<Rightarrow> chan_op \<Rightarrow> fd_channel \<Rightarrow> fd_channel option" where
  "chan_do ev EnableRead c = EnableReadEvent ev c"
| "chan_do ev EnableWrite c = EnableWriteEvent ev c"
| "chan_do ev DisableRead c = DisableReadEvent ev c"
| "chan_do ev DisableWrite c = DisableWriteEvent ev c"
| "chan_do ev DisableAll c = DisableAllEvent ev c"

primrec chan_run :: "libevent \<Rightarrow> chan_op list \<Rightarrow> fd_channel \<Rightarrow> fd_channel option" where
  "chan_run ev [] c = Some c"
| "chan_run ev (x # xs) c = do { c' \<leftarrow> chan_do ev x c; chan_run ev xs c' }"

primrec wanted :: "chan_op \<Rightarrow> event_type set \<Rightarrow> event_type set" where
  "wanted EnableRead es = insert kReadable es"
| "wanted EnableWrite es = insert kWritable es"
| "wanted DisableRead es = es - {kReadable}"
| "wanted DisableWrite es = es - {kWritable}"
| "wanted DisableAll es = {}"
  \<comment> \<open>the set of events a client has asked for\<close>

lemma chan_do_ok:
  assumes "chan_ok c"
  shows "\<exists>c'. chan_do libevent_works x c = Some c' \<and> chan_ok c' \<and> events c' = wanted x (events c)
     \<and> callbacks_set c' = callbacks_set c"
  using change_events_ok [OF assms] DisableAllEvent_ok [OF assms]
  by (cases x) (simp_all add: EnableReadEvent_def EnableWriteEvent_def DisableReadEvent_def DisableWriteEvent_def)

lemma chan_run_ok:
  "chan_ok c \<Longrightarrow> \<exists>c'. chan_run libevent_works xs c = Some c' \<and> chan_ok c' \<and> events c' = fold wanted xs (events c)"
proof (induction xs arbitrary: c)
  case (Cons x xs)
  obtain c1 where "chan_do libevent_works x c = Some c1" "chan_ok c1" "events c1 = wanted x (events c)"
    using chan_do_ok [OF Cons.prems] by blast
  with Cons.IH [of c1] show ?case by simp
qed simp

text \<open>C19. Any sequence of enabling and disabling calls on a new channel completes, and afterwards
  libevent watches exactly the events the calls asked for: the channel is never left registered
  with a stale set of events, and it is not registered at all when none is wanted.\<close>

theorem channel_watches_what_was_asked:
  "\<exists>c. chan_run libevent_works xs (FdChannel_new False False) = Some c
     \<and> registered c = (let es = fold wanted xs {} in if es = {} then None else Some es)"
proof -
  have "events (FdChannel_new False False) = {}" by (simp add: FdChannel_new_def)
  with chan_run_ok [OF FdChannel_new_ok, of xs] show ?thesis
    unfolding chan_ok_def Let_def by (elim exE conjE) simp
qed

text \<open>A channel cannot survive a failure of \<^verbatim>\<open>event_del\<close>: when libevent refuses to remove the event,
  the flag stays set and the next change of the watched events fails an assertion instead of
  reporting the error.\<close>

lemma failed_detach_is_fatal:
  assumes "chan_attached c" and "es \<noteq> events c" and "es \<noteq> {}"
  shows "change_events \<lparr>event_add_ok = a, event_del_ok = False\<rparr> es c = None"
  using assms by (simp add: channel_defs)

lemma failed_detach_is_fatal_witness:
  "change_events \<lparr>event_add_ok = True, event_del_ok = False\<rparr> {kReadable, kWritable}
     \<lparr>events = {kReadable}, chan_attached = True, has_event = True, callbacks_set = True,
      registered = Some {kReadable}\<rparr> = None"
  by (rule failed_detach_is_fatal) simp_all

end
