(* ===== verification/TcpConn.thy ===== *)
theory TcpConn
  imports FdChannel "HOL-Library.Sublist"
begin

text \<open>
  \<^verbatim>\<open>TCPConn\<close> (\<^verbatim>\<open>src/evpp/tcp_conn.cc\<close>): one connection on its event loop. The two buffers are their
  readable bytes. The kernel, libevent and the callbacks of the user and of the owning server or
  client are parameters: the results of \<^verbatim>\<open>send\<close> and \<^verbatim>\<open>readv\<close> come with each event, the callbacks are
  functions on the connection that may call its operations again. A failed assertion, a call of an
  empty \<^verbatim>\<open>std::function\<close> or a write through a null pointer is \<^const>\<open>None\<close>.

  The members \<open>wire\<close>, \<open>accepted\<close>, \<open>issued\<close>, \<open>downs\<close> and \<open>closes\<close> record the history: the bytes handed to
  the kernel, the bytes \<^verbatim>\<open>SendInLoop\<close> has taken charge of, the bytes sent from other threads, and how
  often the connection callback reported the end and the close callback was called.
\<close>

section \<open>State\<close>

datatype conn_type = kIncoming | kOutgoing
datatype conn_status = kDisconnected | kConnecting | kConnected | kDisconnecting
datatype errno = EINTR | EAGAIN | EPIPE | ECONNRESET | EOTHER
datatype send_result = Sent nat | SendErr errno
datatype read_result = Got "byte list" | ReadErr errno
datatype conn_task = SendString "byte list" | CloseTask | WriteComplete | HighWaterMark nat
  \<comment> \<open>the functors the connection queues in its loop\<close>

record tcp_conn =
  cstatus :: conn_status
  ctype :: conn_type
  chan :: fd_channel
  input_buffer :: "byte list"
  output_buffer :: "byte list"
  high_water_mark :: nat
  close_delay :: nat
  delay_close_timer :: bool
  tasks :: "conn_task list"
  wire :: "byte list"
  accepted :: "byte list"
  issued :: "byte list"
  downs :: nat
  closes :: nat

type_synonym conn_fun = "tcp_conn \<Rightarrow> tcp_conn option"

record conn_env =
  le :: libevent
  msg_fn :: "conn_fun option"
  conn_fn :: "conn_fun option"
  close_fn :: "conn_fun option"
  write_complete_fn :: "conn_fun option"
  high_water_mark_fn :: "(nat \<Rightarrow> conn_fun) option"

definition RW_RETRIABLE :: "errno \<Rightarrow> bool" where
  "RW_RETRIABLE e \<longleftrightarrow> e = EINTR \<or> e = EAGAIN"

definition TCPConn_new :: tcp_conn where
  "TCPConn_new = \<lparr>cstatus = kDisconnected, ctype = kIncoming,
     chan = SetCallbacks (FdChannel_new False False), input_buffer = [], output_buffer = [],
     high_water_mark = 128 * 1024 * 1024, close_delay = 0, delay_close_timer = False, tasks = [],
     wire = [], accepted = [], issued = [], downs = 0, closes = 0\<rparr>"

definition queue_task :: "conn_task \<Rightarrow> tcp_conn \<Rightarrow> tcp_conn" where
  "queue_task t c = c\<lparr>tasks := tasks c @ [t]\<rparr>"
  \<comment> \<open>\<^verbatim>\<open>loop_->QueueInLoop\<close>\<close>

definition optionally :: "conn_fun option \<Rightarrow> conn_fun" where
  "optionally f c = (case f of None \<Rightarrow> Some c | Some g \<Rightarrow> g c)"
  \<comment> \<open>\<^verbatim>\<open>if (fn) fn(...)\<close>\<close>

definition IsConnected :: "tcp_conn \<Rightarrow> bool" where
  "IsConnected c \<longleftrightarrow> cstatus c = kConnected"

section \<open>Closing\<close>

definition report_down :: "conn_env \<Rightarrow> conn_fun" where
  "report_down E c = (case conn_fn E of None \<Rightarrow> Some c
     | Some f \<Rightarrow> do { require (cstatus c = kDisconnecting); f (c\<lparr>downs := downs c + 1\<rparr>) })"

definition report_close :: "conn_env \<Rightarrow> conn_fun" where
  "report_close E c = (case close_fn E of None \<Rightarrow> Some c | Some f \<Rightarrow> f (c\<lparr>closes := closes c + 1\<rparr>))"

definition HandleClose :: "conn_env \<Rightarrow> conn_fun" where
  "HandleClose E c =
     (if cstatus c = kDisconnected then Some c
      else do {
        require (cstatus c = kDisconnecting);
        ch \<leftarrow> DisableAllEvent (le E) (chan c);
        ch \<leftarrow> FdChannel_Close ch;
        let c = c\<lparr>chan := ch, delay_close_timer := False\<rparr>;
        c \<leftarrow> report_down E c;
        c \<leftarrow> report_close E c;
        Some (c\<lparr>cstatus := kDisconnected\<rparr>) })"

definition HandleError :: "conn_env \<Rightarrow> conn_fun" where
  "HandleError E c = HandleClose E (c\<lparr>cstatus := kDisconnecting\<rparr>)"

definition DelayClose :: "conn_env \<Rightarrow> conn_fun" where
  "DelayClose E c = HandleClose E (c\<lparr>cstatus := kDisconnecting, delay_close_timer := False\<rparr>)"

definition Conn_Close :: "conn_env \<Rightarrow> bool \<Rightarrow> conn_fun" where
  "Conn_Close E in_loop c =
     (let c1 = c\<lparr>cstatus := kDisconnecting\<rparr>
      in if in_loop then HandleClose E c1 else Some (queue_task CloseTask c1))"

section \<open>Sending\<close>

definition SendInLoop :: "conn_env \<Rightarrow> send_result \<Rightarrow> byte list \<Rightarrow> conn_fun" where
  "SendInLoop E res data c =
     (if cstatus c = kDisconnected then Some c
      else
        let direct = (\<not> IsWritable (chan c) \<and> output_buffer c = []);
            n = (if direct then (case res of Sent n \<Rightarrow> n | SendErr e \<Rightarrow> 0) else 0);
            write_error = (direct \<and> (res = SendErr EPIPE \<or> res = SendErr ECONNRESET))
        in if write_error then HandleError E c
           else do {
             require (n \<le> length data);
             let remaining = length data - n;
             let c = c\<lparr>wire := wire c @ take n data, accepted := accepted c @ data\<rparr>;
             let c = (if direct \<and> res = Sent n \<and> remaining = 0 \<and> write_complete_fn E \<noteq> None
                      then queue_task WriteComplete c else c);
             if remaining > 0 then do {
               let old_len = length (output_buffer c);
               let c = (if size_t (old_len + remaining) \<ge> high_water_mark c \<and> old_len < high_water_mark c
                            \<and> high_water_mark_fn E \<noteq> None
                        then queue_task (HighWaterMark (old_len + remaining)) c else c);
               let c = c\<lparr>output_buffer := output_buffer c @ drop n data\<rparr>;
               if IsWritable (chan c) then Some c
               else do { ch \<leftarrow> EnableWriteEvent (le E) (chan c); Some (c\<lparr>chan := ch\<rparr>) } }
             else Some c })"
  \<comment> \<open>\<open>res\<close> is the result of \<^verbatim>\<open>send\<close>, if it is called\<close>

definition Send :: "conn_env \<Rightarrow> bool \<Rightarrow> send_result \<Rightarrow> byte list \<Rightarrow> conn_fun" where
  "Send E in_loop res d c =
     (if cstatus c \<noteq> kConnected then Some c
      else if in_loop then SendInLoop E res d c
      else Some (queue_task (SendString d) (c\<lparr>issued := issued c @ d\<rparr>)))"
  \<comment> \<open>the overloads for strings, slices and shared buffers\<close>

definition Send_pointer :: "conn_env \<Rightarrow> bool \<Rightarrow> send_result \<Rightarrow> byte list \<Rightarrow> conn_fun" where
  "Send_pointer E in_loop res d c = (if in_loop then SendInLoop E res d c else Send E in_loop res d c)"

definition Send_buffer :: "conn_env \<Rightarrow> bool \<Rightarrow> send_result \<Rightarrow> byte list \<Rightarrow> tcp_conn \<Rightarrow> (byte list \<times> tcp_conn) option" where
  "Send_buffer E in_loop res buf c =
     (if cstatus c \<noteq> kConnected then Some (buf, c)
      else do { c' \<leftarrow> Send E in_loop res buf c; Some ([], c') })"
  \<comment> \<open>the buffer is emptied when its bytes are taken\<close>

section \<open>Events\<close>

definition HandleRead :: "conn_env \<Rightarrow> read_result \<Rightarrow> conn_fun" where
  "HandleRead E r c = (case r of
     Got d \<Rightarrow>
       (if d \<noteq> [] then
          (case msg_fn E of None \<Rightarrow> None | Some f \<Rightarrow> f (c\<lparr>input_buffer := input_buffer c @ d\<rparr>))
        else if ctype c = kOutgoing then HandleClose E (c\<lparr>cstatus := kDisconnecting\<rparr>)
        else do {
          ch \<leftarrow> DisableReadEvent (le E) (chan c);
          let c = c\<lparr>chan := ch\<rparr>;
          if close_delay c = 0 then DelayClose E c else Some (c\<lparr>delay_close_timer := True\<rparr>) })
   | ReadErr e \<Rightarrow> (if RW_RETRIABLE e then Some c else HandleError E c))"

definition HandleWrite :: "conn_env \<Rightarrow> send_result \<Rightarrow> errno \<Rightarrow> conn_fun" where
  "HandleWrite E res stale c = do {
     require (\<not> chan_attached (chan c) \<or> IsWritable (chan c));
     let e = (case res of Sent n \<Rightarrow> stale | SendErr e \<Rightarrow> e);
     case res of
       Sent n \<Rightarrow>
         (if n > 0 then do {
            require (n \<le> length (output_buffer c));
            let c = c\<lparr>wire := wire c @ take n (output_buffer c), output_buffer := drop n (output_buffer c)\<rparr>;
            if output_buffer c = [] then do {
              ch \<leftarrow> DisableWriteEvent (le E) (chan c);
              let c = c\<lparr>chan := ch\<rparr>;
              Some (if write_complete_fn E \<noteq> None then queue_task WriteComplete c else c) }
            else Some c }
          else if RW_RETRIABLE e then Some c else HandleError E c)
     | SendErr _ \<Rightarrow> (if RW_RETRIABLE e then Some c else HandleError E c) }"
  \<comment> \<open>when \<^verbatim>\<open>send\<close> returns 0, the code reads whatever \<^verbatim>\<open>errno\<close> an earlier call has left\<close>

definition OnAttachedToLoop :: "conn_env \<Rightarrow> conn_fun" where
  "OnAttachedToLoop E c = do {
     let c = c\<lparr>cstatus := kConnected\<rparr>;
     ch \<leftarrow> EnableReadEvent (le E) (chan c);
     optionally (conn_fn E) (c\<lparr>chan := ch\<rparr>) }"

definition SetHighWaterMark :: "nat \<Rightarrow> tcp_conn \<Rightarrow> tcp_conn" where
  "SetHighWaterMark mark c = c\<lparr>high_water_mark := mark\<rparr>"

definition SetCloseDelayTime :: "nat \<Rightarrow> conn_fun" where
  "SetCloseDelayTime d c = do { require (ctype c = kIncoming); Some (c\<lparr>close_delay := d\<rparr>) }"

primrec run_task :: "conn_env \<Rightarrow> send_result \<Rightarrow> conn_task \<Rightarrow> conn_fun" where
  "run_task E res (SendString d) c = SendInLoop E res d c"
| "run_task E res CloseTask c = HandleClose E c"
| "run_task E res WriteComplete c = optionally (write_complete_fn E) c"
| "run_task E res (HighWaterMark n) c =
     (case high_water_mark_fn E of None \<Rightarrow> Some c | Some f \<Rightarrow> f n c)"

definition TCPConn_destroy :: "tcp_conn \<Rightarrow> unit option" where
  "TCPConn_destroy c = do {
     require (cstatus c = kDisconnected);
     require (IsNoneEvent (chan c));
     require (\<not> delay_close_timer c);
     Some () }"

section \<open>Sequences of events\<close>

primrec clamp :: "nat \<Rightarrow> send_result \<Rightarrow> send_result" where
  "clamp len (Sent n) = Sent (min n len)"
| "clamp len (SendErr e) = SendErr e"
  \<comment> \<open>\<^verbatim>\<open>send\<close> never reports more bytes than it was given\<close>

primrec fits :: "nat \<Rightarrow> send_result \<Rightarrow> bool" where
  "fits len (Sent n) \<longleftrightarrow> n \<le> len"
| "fits len (SendErr e) \<longleftrightarrow> True"

lemma clamp_fits [simp]: "fits len (clamp len res)"
  by (cases res) simp_all

definition watches :: "event_type \<Rightarrow> tcp_conn \<Rightarrow> bool" where
  "watches t c \<longleftrightarrow> (case registered (chan c) of None \<Rightarrow> False | Some es \<Rightarrow> t \<in> es)"

datatype conn_event =
    Ready "read_result option" "(send_result \<times> errno) option"
  | TimerFires
  | RunTask send_result
  | SendHere send_result "byte list"
  | SendPointerHere send_result "byte list"
  | SendElsewhere "byte list"
  | CloseHere
  | CloseElsewhere

primrec task_length :: "conn_task \<Rightarrow> nat" where
  "task_length (SendString d) = length d"
| "task_length CloseTask = 0"
| "task_length WriteComplete = 0"
| "task_length (HighWaterMark n) = 0"

definition on_ready :: "conn_env \<Rightarrow> read_result option \<Rightarrow> (send_result \<times> errno) option \<Rightarrow> conn_fun" where
  "on_ready E rd wr c = do {
     c1 \<leftarrow> (case rd of None \<Rightarrow> Some c
            | Some r \<Rightarrow> if watches kReadable c \<and> callbacks_set (chan c) then HandleRead E r c else Some c);
     (case wr of None \<Rightarrow> Some c1
      | Some (res, e) \<Rightarrow> if watches kWritable c \<and> callbacks_set (chan c1)
          then HandleWrite E (clamp (length (output_buffer c1)) res) e c1 else Some c1) }"
  \<comment> \<open>\<^verbatim>\<open>FdChannel::HandleEvent\<close> with the callbacks the constructor has set\<close>

primrec conn_do :: "conn_env \<Rightarrow> conn_event \<Rightarrow> conn_fun" where
  "conn_do E (Ready rd wr) c = on_ready E rd wr c"
| "conn_do E TimerFires c = (if delay_close_timer c then DelayClose E c else Some c)"
| "conn_do E (RunTask res) c = (case tasks c of [] \<Rightarrow> Some c
     | t # ts \<Rightarrow> run_task E (clamp (task_length t) res) t (c\<lparr>tasks := ts\<rparr>))"
| "conn_do E (SendHere res d) c = Send E True (clamp (length d) res) d c"
| "conn_do E (SendPointerHere res d) c = Send_pointer E True (clamp (length d) res) d c"
| "conn_do E (SendElsewhere d) c = Send E False (Sent 0) d c"
| "conn_do E CloseHere c = (if cstatus c = kDisconnected then Some c else Conn_Close E True c)"
| "conn_do E CloseElsewhere c = (if cstatus c = kDisconnected then Some c else Conn_Close E False c)"
  \<comment> \<open>a connection that is already closed is not closed again\<close>

primrec conn_run :: "conn_env \<Rightarrow> conn_event list \<Rightarrow> conn_fun" where
  "conn_run E [] c = Some c"
| "conn_run E (x # xs) c = do { c' \<leftarrow> conn_do E x c; conn_run E xs c' }"

definition new_conn :: "conn_type \<Rightarrow> nat \<Rightarrow> nat \<Rightarrow> tcp_conn" where
  "new_conn t d h = TCPConn_new\<lparr>ctype := t, close_delay := d, high_water_mark := h\<rparr>"

definition conn_life :: "conn_env \<Rightarrow> conn_type \<Rightarrow> nat \<Rightarrow> nat \<Rightarrow> conn_event list \<Rightarrow> tcp_conn option" where
  "conn_life E t d h xs = do { c \<leftarrow> OnAttachedToLoop E (new_conn t d h); conn_run E xs c }"
  \<comment> \<open>a connection from its attachment to the loop on\<close>

section \<open>Invariant\<close>

definition shut_chan :: "fd_channel \<Rightarrow> bool" where
  "shut_chan ch \<longleftrightarrow> \<not> has_event ch \<and> \<not> chan_attached ch \<and> events ch = {} \<and> registered ch = None
     \<and> \<not> callbacks_set ch"

definition closable :: "tcp_conn \<Rightarrow> bool" where
  "closable c \<longleftrightarrow> cstatus c = kDisconnecting \<and> chan_ok (chan c) \<and> prefix (wire c) (accepted c)
     \<and> downs c = 0 \<and> closes c = 0"

definition closing :: "tcp_conn \<Rightarrow> bool" where
  "closing c \<longleftrightarrow> cstatus c = kDisconnecting \<and> shut_chan (chan c) \<and> \<not> delay_close_timer c
     \<and> prefix (wire c) (accepted c)"
  \<comment> \<open>the state in which \<^verbatim>\<open>HandleClose\<close> calls back\<close>

definition open_inv :: "tcp_conn \<Rightarrow> bool" where
  "open_inv c \<longleftrightarrow> cstatus c = (if CloseTask \<in> set (tasks c) then kDisconnecting else kConnected)
     \<and> chan_ok (chan c) \<and> callbacks_set (chan c)
     \<and> (IsWritable (chan c) \<longleftrightarrow> output_buffer c \<noteq> [])
     \<and> wire c @ output_buffer c = accepted c
     \<and> downs c = 0 \<and> closes c = 0"

definition shut_inv :: "conn_env \<Rightarrow> tcp_conn \<Rightarrow> bool" where
  "shut_inv E c \<longleftrightarrow> cstatus c = kDisconnected \<and> shut_chan (chan c) \<and> \<not> delay_close_timer c
     \<and> prefix (wire c) (accepted c)
     \<and> downs c = of_bool (conn_fn E \<noteq> None) \<and> closes c = of_bool (close_fn E \<noteq> None)"

definition conn_inv :: "conn_env \<Rightarrow> tcp_conn \<Rightarrow> bool" where
  "conn_inv E c \<longleftrightarrow> open_inv c \<or> shut_inv E c"

definition kept :: "conn_env \<Rightarrow> tcp_conn option \<Rightarrow> bool" where
  "kept E r \<longleftrightarrow> (\<exists>c. r = Some c \<and> conn_inv E c)"

lemma keptI: "r = Some c \<Longrightarrow> conn_inv E c \<Longrightarrow> kept E r"
  by (auto simp: kept_def)

lemma open_keptI: "open_inv c \<Longrightarrow> kept E (Some c)"
  by (auto simp: kept_def conn_inv_def)

lemma open_closable: "open_inv c \<Longrightarrow> closable (c\<lparr>cstatus := kDisconnecting, delay_close_timer := b\<rparr>)"
  "open_inv c \<Longrightarrow> closable (c\<lparr>cstatus := kDisconnecting\<rparr>)"
  by (auto simp: open_inv_def closable_def intro: prefixI [OF sym])

lemma change_shape:
  assumes "chan_ok ch"
  obtains ch' where "change_events libevent_works es ch = Some ch'" "chan_ok ch'" "events ch' = es"
    "callbacks_set ch' = callbacks_set ch"
  using change_events_ok [OF assms] by blast

text \<open>What the callbacks promise. At the end of a connection they may do anything that leaves the
  closed channel alone; the close callback and the connection callback are not called by them.\<close>

locale conn_closer =
  fixes E :: conn_env
  assumes works: "le E = libevent_works"
    and down: "conn_fn E = Some f \<Longrightarrow> closing c \<Longrightarrow>
      \<exists>c'. f c = Some c' \<and> closing c' \<and> downs c' = downs c \<and> closes c' = closes c"
    and close: "close_fn E = Some f \<Longrightarrow> closing c \<Longrightarrow>
      \<exists>c'. f c = Some c' \<and> closing c' \<and> downs c' = downs c \<and> closes c' = closes c"
begin

lemma HandleClose_shuts:
  assumes "closable c"
  shows "\<exists>c'. HandleClose E c = Some c' \<and> shut_inv E c'"
proof -
  obtain ch where ch: "DisableAllEvent libevent_works (chan c) = Some ch" "chan_ok ch" "events ch = {}"
    using DisableAllEvent_ok [of "chan c"] assms by (auto simp: closable_def)
  define ch' where "ch' = ch\<lparr>has_event := False, callbacks_set := False\<rparr>"
  have fc: "FdChannel_Close ch = Some ch'"
    using FdChannel_Close_ok [OF ch(2,3)] by (simp add: ch'_def)
  define c0 where "c0 = c\<lparr>chan := ch', delay_close_timer := False\<rparr>"
  have c0: "closing c0" "downs c0 = 0" "closes c0 = 0"
    using assms ch(2,3) by (auto simp: c0_def ch'_def closing_def closable_def shut_chan_def chan_ok_def)
  have inc: "closing (c0\<lparr>downs := n\<rparr>)" "closing x \<Longrightarrow> closing (x\<lparr>closes := n\<rparr>)" for n x
    using c0 by (auto simp: closing_def)
  obtain c1 where c1: "report_down E c0 = Some c1"
      "closing c1" "downs c1 = of_bool (conn_fn E \<noteq> None)" "closes c1 = 0"
    using down [OF _ inc(1)] c0 by (cases "conn_fn E") (auto simp: report_down_def closing_def)
  obtain c2 where c2: "report_close E c1 = Some c2"
      "closing c2" "downs c2 = downs c1" "closes c2 = of_bool (close_fn E \<noteq> None)"
    using close [OF _ inc(2) [OF c1(2)]] c1 by (cases "close_fn E") (auto simp: report_close_def)
  have "HandleClose E c = Some (c2\<lparr>cstatus := kDisconnected\<rparr>)"
    using assms ch fc c1(1) c2(1) by (simp add: HandleClose_def closable_def works c0_def [symmetric] Let_def)
  moreover have "shut_inv E (c2\<lparr>cstatus := kDisconnected\<rparr>)"
    using c1 c2 by (simp add: shut_inv_def closing_def)
  ultimately show ?thesis by blast
qed

lemma closable_kept: "closable c \<Longrightarrow> kept E (HandleClose E c)"
  using HandleClose_shuts by (auto simp: kept_def conn_inv_def)

lemma HandleError_kept: "open_inv c \<Longrightarrow> kept E (HandleError E c)"
  unfolding HandleError_def by (intro closable_kept open_closable)

lemma DelayClose_kept: "open_inv c \<Longrightarrow> kept E (DelayClose E c)"
  unfolding DelayClose_def by (intro closable_kept open_closable)

lemma Close_kept:
  assumes "open_inv c"
  shows "kept E (Conn_Close E b c)"
proof (cases b)
  case True
  then show ?thesis using assms unfolding Conn_Close_def Let_def by (simp add: closable_kept open_closable)
next
  case False
  have "open_inv (queue_task CloseTask (c\<lparr>cstatus := kDisconnecting\<rparr>))"
    using assms by (auto simp: open_inv_def queue_task_def)
  with False show ?thesis unfolding Conn_Close_def Let_def by (simp add: open_keptI)
qed

lemma SendInLoop_open:
  assumes c: "open_inv c" and n: "fits (length d) res"
  shows "kept E (SendInLoop E res d c)"
proof -
  have st: "cstatus c \<noteq> kDisconnected" and ok: "chan_ok (chan c)" and wr: "IsWritable (chan c) \<longleftrightarrow> output_buffer c \<noteq> []"
    using c by (auto simp: open_inv_def)
  obtain ch where ch: "change_events libevent_works (insert kWritable (events (chan c))) (chan c) = Some ch"
      "chan_ok ch" "events ch = insert kWritable (events (chan c))" "callbacks_set ch = callbacks_set (chan c)"
    using change_shape [OF ok] .
  have error: "kept E (HandleError E c)" using HandleError_kept [OF c] .
  show ?thesis
  proof (cases "output_buffer c = []")
    case False
    then have "IsWritable (chan c)" using wr by simp
    with False st c show ?thesis
      by (auto simp: SendInLoop_def Let_def queue_task_def open_inv_def intro!: open_keptI)
  next
    case True
    then have "\<not> IsWritable (chan c)" using wr by simp
    with True st c ch n error show ?thesis
      by (cases res)
        (auto simp: SendInLoop_def Let_def queue_task_def open_inv_def EnableWriteEvent_def works IsWritable_def
          intro!: open_keptI)
  qed
qed

lemma SendInLoop_kept:
  assumes "conn_inv E c" and "fits (length d) res"
  shows "kept E (SendInLoop E res d c)"
proof (cases "open_inv c")
  case True
  with assms(2) show ?thesis by (rule SendInLoop_open [rotated])
next
  case False
  with assms(1) show ?thesis by (auto simp: conn_inv_def kept_def SendInLoop_def shut_inv_def)
qed

lemma Send_kept: "conn_inv E c \<Longrightarrow> fits (length d) res \<Longrightarrow> kept E (Send E True res d c)"
  using SendInLoop_kept by (simp add: Send_def kept_def)

lemma Send_elsewhere_kept: "conn_inv E c \<Longrightarrow> kept E (Send E False res d c)"
  by (auto simp: Send_def kept_def conn_inv_def queue_task_def open_inv_def shut_inv_def)

lemma Send_pointer_kept: "conn_inv E c \<Longrightarrow> fits (length d) res \<Longrightarrow> kept E (Send_pointer E True res d c)"
  by (simp add: Send_pointer_def SendInLoop_kept)

lemma HandleWrite_kept:
  assumes c: "open_inv c" and out: "output_buffer c \<noteq> []" and n: "fits (length (output_buffer c)) res"
  shows "kept E (HandleWrite E res e c)"
proof -
  have ok: "chan_ok (chan c)" and wr: "IsWritable (chan c)" using c out by (auto simp: open_inv_def)
  obtain ch where ch: "change_events libevent_works (events (chan c) - {kWritable}) (chan c) = Some ch"
      "chan_ok ch" "events ch = events (chan c) - {kWritable}" "callbacks_set ch = callbacks_set (chan c)"
    using change_shape [OF ok] .
  have failed: "kept E (if RW_RETRIABLE x then Some c else HandleError E c)" for x
    using HandleError_kept [OF c] open_keptI [OF c] by simp
  show ?thesis
  proof (cases res)
    case (SendErr x)
    then show ?thesis using wr failed [of x] by (simp add: HandleWrite_def)
  next
    case (Sent n)
    consider "n = 0" | "0 < n" "n < length (output_buffer c)" | "0 < n" "n = length (output_buffer c)"
      using n Sent by fastforce
    then show ?thesis
    proof cases
      case 1
      then show ?thesis using Sent wr failed [of e] by (simp add: HandleWrite_def)
    next
      case 2
      define c1 where "c1 = c\<lparr>wire := wire c @ take n (output_buffer c), output_buffer := drop n (output_buffer c)\<rparr>"
      have "open_inv c1" using c out 2 by (simp add: c1_def open_inv_def)
      moreover have "HandleWrite E res e c = Some c1"
        using 2 Sent wr by (simp add: HandleWrite_def Let_def c1_def)
      ultimately show ?thesis by (simp add: open_keptI)
    next
      case 3
      define c1 where "c1 = c\<lparr>wire := wire c @ output_buffer c, output_buffer := [], chan := ch\<rparr>"
      have "open_inv c1" using c ch by (simp add: c1_def open_inv_def IsWritable_def)
      then have "open_inv (queue_task WriteComplete c1)" "open_inv c1"
        by (simp_all add: open_inv_def queue_task_def)
      moreover have "HandleWrite E res e c = Some (if write_complete_fn E \<noteq> None then queue_task WriteComplete c1 else c1)"
        using 3 Sent wr ch(1) by (simp add: HandleWrite_def Let_def c1_def DisableWriteEvent_def works)
      ultimately show ?thesis by (simp add: open_keptI)
    qed
  qed
qed

end

text \<open>The callbacks that run on an open connection keep the invariant, and the message callback does
  not take back bytes that wait to be sent.\<close>

locale conn_user = conn_closer +
  assumes message: "\<exists>f. msg_fn E = Some f \<and> (\<forall>c. open_inv c \<longrightarrow>
      (\<exists>c'. f c = Some c' \<and> conn_inv E c' \<and> (output_buffer c \<noteq> [] \<longrightarrow> open_inv c' \<longrightarrow> output_buffer c' \<noteq> [])))"
    and up: "conn_fn E = Some f \<Longrightarrow> open_inv c \<Longrightarrow> kept E (f c)"
    and complete: "write_complete_fn E = Some f \<Longrightarrow> conn_inv E c \<Longrightarrow> kept E (f c)"
    and high_water: "high_water_mark_fn E = Some g \<Longrightarrow> conn_inv E c \<Longrightarrow> kept E (g n c)"
begin

lemma HandleRead_kept:
  assumes c: "open_inv c"
  shows "\<exists>c'. HandleRead E r c = Some c' \<and> conn_inv E c'
     \<and> (output_buffer c \<noteq> [] \<longrightarrow> open_inv c' \<longrightarrow> output_buffer c' \<noteq> [])"
proof -
  have shuts: "\<exists>c'. HandleClose E x = Some c' \<and> conn_inv E c' \<and> (P \<longrightarrow> open_inv c' \<longrightarrow> output_buffer c' \<noteq> [])"
    if "closable x" for x P
    using HandleClose_shuts [OF that] by (auto simp: conn_inv_def shut_inv_def open_inv_def)
  show ?thesis
  proof (cases r)
    case (ReadErr e)
    then show ?thesis
      using c shuts [OF open_closable(2) [OF c]] by (auto simp: HandleRead_def HandleError_def conn_inv_def)
  next
    case (Got d)
    obtain ch where ch: "change_events libevent_works (events (chan c) - {kReadable}) (chan c) = Some ch"
        "chan_ok ch" "events ch = events (chan c) - {kReadable}" "callbacks_set ch = callbacks_set (chan c)"
      using change_shape [of "chan c"] c by (auto simp: open_inv_def)
    have half: "open_inv (c\<lparr>chan := ch\<rparr>)" "open_inv (c\<lparr>chan := ch, delay_close_timer := True\<rparr>)"
      using c ch by (auto simp: open_inv_def IsWritable_def)
    have input: "open_inv (c\<lparr>input_buffer := input_buffer c @ d\<rparr>)" using c by (simp add: open_inv_def)
    consider "d \<noteq> []" | "d = []" "ctype c = kOutgoing" | "d = []" "ctype c \<noteq> kOutgoing" by blast
    then show ?thesis
    proof cases
      case 1
      with Got message input show ?thesis by (fastforce simp: HandleRead_def)
    next
      case 2
      with Got shuts [OF open_closable(2) [OF c]] show ?thesis by (auto simp: HandleRead_def)
    next
      case 3
      with Got half ch(1) shuts [OF open_closable(1) [OF half(1)]] show ?thesis
        by (auto simp: HandleRead_def DisableReadEvent_def works Let_def DelayClose_def conn_inv_def)
    qed
  qed
qed

lemma on_ready_kept:
  assumes c: "conn_inv E c"
  shows "kept E (on_ready E rd wr c)"
proof (cases "open_inv c")
  case False
  then have "\<not> watches t c" for t using c by (simp add: conn_inv_def shut_inv_def shut_chan_def watches_def)
  with c show ?thesis by (auto simp: on_ready_def kept_def split: option.splits)
next
  case True
  have out: "output_buffer c \<noteq> []" if "watches kWritable c"
    using that True by (auto simp: watches_def open_inv_def chan_ok_def IsWritable_def split: if_splits)
  let ?read = "case rd of None \<Rightarrow> Some c
        | Some r \<Rightarrow> if watches kReadable c \<and> callbacks_set (chan c) then HandleRead E r c else Some c"
  have "\<exists>c1. ?read = Some c1 \<and> conn_inv E c1 \<and> (output_buffer c \<noteq> [] \<longrightarrow> open_inv c1 \<longrightarrow> output_buffer c1 \<noteq> [])"
    using HandleRead_kept [OF True] c by (simp split: option.split)
  then obtain c1 where c1: "?read = Some c1" "conn_inv E c1"
      "output_buffer c \<noteq> [] \<longrightarrow> open_inv c1 \<longrightarrow> output_buffer c1 \<noteq> []"
    by blast
  have live: "open_inv c1" if "callbacks_set (chan c1)"
    using that c1(2) by (auto simp: conn_inv_def shut_inv_def shut_chan_def)
  have "kept E (if watches kWritable c \<and> callbacks_set (chan c1)
      then HandleWrite E (clamp (length (output_buffer c1)) res) e c1 else Some c1)" for res e
    using HandleWrite_kept [OF live, of "clamp (length (output_buffer c1)) res" e] out c1(2,3) live
    by (auto simp: kept_def)
  with c1(1,2) show ?thesis
    by (cases wr) (auto simp: on_ready_def kept_def)
qed

lemma run_task_kept:
  assumes c: "conn_inv E c" and ts: "tasks c = t # ts" and n: "fits (task_length t) res"
  shows "kept E (run_task E res t (c\<lparr>tasks := ts\<rparr>))"
proof -
  have shut: "shut_inv E (c\<lparr>tasks := ts\<rparr>)" if "\<not> open_inv c"
    using c that by (simp add: conn_inv_def shut_inv_def)
  have rest: "conn_inv E (c\<lparr>tasks := ts\<rparr>)" if "t \<noteq> CloseTask"
    using c ts that by (auto simp: conn_inv_def open_inv_def shut_inv_def)
  show ?thesis
  proof (cases t)
    case (SendString d)
    then show ?thesis using SendInLoop_kept [OF rest] n by simp
  next
    case CloseTask
    show ?thesis
    proof (cases "open_inv c")
      case True
      with ts CloseTask have "closable (c\<lparr>tasks := ts\<rparr>)"
        by (auto simp: open_inv_def closable_def intro: prefixI [OF sym])
      with CloseTask show ?thesis by (simp add: closable_kept)
    next
      case False
      with shut CloseTask show ?thesis by (auto simp: HandleClose_def shut_inv_def kept_def conn_inv_def)
    qed
  next
    case WriteComplete
    then show ?thesis using rest complete
      by (cases "write_complete_fn E") (auto simp: optionally_def kept_def)
  next
    case (HighWaterMark k)
    then show ?thesis using rest high_water
      by (cases "high_water_mark_fn E") (auto simp: kept_def)
  qed
qed

lemma conn_do_kept:
  assumes c: "conn_inv E c"
  shows "kept E (conn_do E x c)"
proof -
  have live: "open_inv c" if "cstatus c \<noteq> kDisconnected \<or> delay_close_timer c"
    using that c by (auto simp: conn_inv_def shut_inv_def)
  show ?thesis
  proof (cases x)
    case (RunTask res)
    then show ?thesis using c run_task_kept [OF c] by (cases "tasks c") (simp_all add: kept_def)
  qed (use c live in \<open>simp_all add: on_ready_kept DelayClose_kept Send_kept Send_elsewhere_kept
      Send_pointer_kept Close_kept keptI\<close>)
qed

lemma conn_run_kept: "conn_inv E c \<Longrightarrow> kept E (conn_run E xs c)"
proof (induction xs arbitrary: c)
  case (Cons x xs)
  obtain c1 where "conn_do E x c = Some c1" "conn_inv E c1"
    using conn_do_kept [OF Cons.prems, of x] by (auto simp: kept_def)
  with Cons.IH show ?case by simp
qed (simp add: kept_def)

lemma OnAttachedToLoop_kept:
  assumes "c = new_conn t d h"
  shows "kept E (OnAttachedToLoop E c)"
proof -
  obtain ch where ch: "change_events libevent_works {kReadable} (chan c) = Some ch"
      "chan_ok ch" "events ch = {kReadable}" "callbacks_set ch"
    using change_shape [of "chan c" "{kReadable}"] assms
    by (auto simp: new_conn_def TCPConn_new_def SetCallbacks_def FdChannel_new_def chan_ok_def)
  then have "open_inv (c\<lparr>cstatus := kConnected, chan := ch\<rparr>)"
    using assms by (auto simp: new_conn_def open_inv_def TCPConn_new_def SetCallbacks_def IsWritable_def)
  then show ?thesis using ch(1) assms up
    by (cases "conn_fn E") (auto simp: OnAttachedToLoop_def EnableReadEvent_def works optionally_def
      new_conn_def TCPConn_new_def SetCallbacks_def FdChannel_new_def kept_def conn_inv_def)
qed

lemma life_kept: "\<exists>c. conn_life E t d h xs = Some c \<and> conn_inv E c"
proof -
  obtain c0 where "OnAttachedToLoop E (new_conn t d h) = Some c0" "conn_inv E c0"
    using OnAttachedToLoop_kept [OF refl, of t d h] by (auto simp: kept_def)
  with conn_run_kept [of c0 xs] show ?thesis by (simp add: conn_life_def kept_def)
qed

lemma life_inv: "conn_life E t d h xs = Some c \<Longrightarrow> conn_inv E c"
  using life_kept [of t d h xs] by auto

end

section \<open>Two users\<close>

definition quiet_env :: conn_env where
  "quiet_env = \<lparr>le = libevent_works, msg_fn = Some Some, conn_fn = Some Some, close_fn = Some Some,
     write_complete_fn = Some Some, high_water_mark_fn = Some (\<lambda>n. Some)\<rparr>"
  \<comment> \<open>callbacks that leave the connection alone, as \<^verbatim>\<open>TCPServer\<close>'s close callback does\<close>

definition echo_OnMessage :: "(byte list \<Rightarrow> send_result) \<Rightarrow> conn_fun" where
  "echo_OnMessage k c = do {
     let s = input_buffer c;
     c \<leftarrow> Send quiet_env True (clamp (length s) (k s)) s (c\<lparr>input_buffer := []\<rparr>);
     if s = ''quit'' \<or> s = ''exit'' then Conn_Close quiet_env True c else Some c }"
  \<comment> \<open>the message callback of the echo server; \<open>k\<close> is what the kernel answers to \<^verbatim>\<open>send\<close>\<close>

definition echo_env :: "(byte list \<Rightarrow> send_result) \<Rightarrow> conn_env" where
  "echo_env k = quiet_env\<lparr>msg_fn := Some (echo_OnMessage k)\<rparr>"

interpretation quiet_closer: conn_closer quiet_env
  by unfold_locales (auto simp: quiet_env_def closing_def)

interpretation quiet_user: conn_user quiet_env
  by unfold_locales (auto simp: quiet_env_def kept_def conn_inv_def)

lemma echo_inv [simp]: "conn_inv (echo_env k) c = conn_inv quiet_env c"
  by (simp add: conn_inv_def shut_inv_def echo_env_def quiet_env_def)

lemma SendInLoop_output:
  assumes "output_buffer c \<noteq> []" and "IsWritable (chan c)" and "SendInLoop E res d c = Some c'"
  shows "output_buffer c' \<noteq> []"
  using assms by (auto simp: SendInLoop_def Let_def queue_task_def split: if_splits)

lemma open_or_shut:
  "conn_inv E c \<Longrightarrow> if cstatus c = kDisconnected then shut_inv E c else open_inv c"
  by (auto simp: conn_inv_def shut_inv_def open_inv_def split: if_splits)

lemma Send_status:
  assumes "Send E True res d c = Some c'" and "res \<noteq> SendErr EPIPE" and "res \<noteq> SendErr ECONNRESET"
  shows "cstatus c' = cstatus c"
  using assms by (auto simp: Send_def SendInLoop_def Let_def queue_task_def split: if_splits send_result.splits
      Option.bind_splits)

lemma echo_message:
  assumes c: "open_inv c" and k: "k (input_buffer c) \<noteq> SendErr EPIPE" "k (input_buffer c) \<noteq> SendErr ECONNRESET"
  shows "\<exists>c'. echo_OnMessage k c = Some c'
     \<and> conn_inv quiet_env c' \<and> (output_buffer c \<noteq> [] \<longrightarrow> open_inv c' \<longrightarrow> output_buffer c' \<noteq> [])"
proof -
  let ?s = "input_buffer c" and ?c = "c\<lparr>input_buffer := []\<rparr>"
  have c1: "open_inv ?c" using c by (simp add: open_inv_def)
  then have "conn_inv quiet_env ?c" by (simp add: conn_inv_def)
  from quiet_closer.Send_kept [OF this clamp_fits, of ?s "k ?s"]
  obtain c' where c': "Send quiet_env True (clamp (length ?s) (k ?s)) ?s ?c = Some c'" "conn_inv quiet_env c'"
    by (auto simp: kept_def)
  have "clamp (length ?s) (k ?s) \<noteq> SendErr e" if "k ?s \<noteq> SendErr e" for e using that by (cases "k ?s") auto
  with Send_status [OF c'(1)] k c1 have st: "cstatus c' \<noteq> kDisconnected"
    by (auto simp: open_inv_def split: if_splits)
  then have op: "open_inv c'" using open_or_shut [OF c'(2)] by simp
  have out: "output_buffer c' \<noteq> []" if "output_buffer c \<noteq> []"
    using that c' c SendInLoop_output [of ?c] by (auto simp: Send_def open_inv_def split: if_splits)
  obtain c'' where "Conn_Close quiet_env True c' = Some c''" "shut_inv quiet_env c''"
    using quiet_closer.HandleClose_shuts [OF open_closable(2) [OF op]] by (auto simp: Conn_Close_def)
  moreover from this have "\<not> open_inv c''" by (auto simp: shut_inv_def open_inv_def split: if_splits)
  ultimately show ?thesis using c' out
    by (cases "?s = ''quit'' \<or> ?s = ''exit''") (auto simp: echo_OnMessage_def Let_def conn_inv_def)
qed

interpretation echo_closer: conn_closer "echo_env k" for k
  by unfold_locales (auto simp: echo_env_def quiet_env_def closing_def)

interpretation echo_user: conn_user "echo_env (\<lambda>s. Sent n)" for n
proof
  show "\<exists>f. msg_fn (echo_env (\<lambda>s. Sent n)) = Some f \<and> (\<forall>c. open_inv c \<longrightarrow>
      (\<exists>c'. f c = Some c' \<and> conn_inv (echo_env (\<lambda>s. Sent n)) c'
      \<and> (output_buffer c \<noteq> [] \<longrightarrow> open_inv c' \<longrightarrow> output_buffer c' \<noteq> [])))"
    unfolding echo_inv using echo_message [where k = "\<lambda>s. Sent n"] by (simp add: echo_env_def)
qed (auto simp: echo_env_def quiet_env_def kept_def conn_inv_def shut_inv_def)

lemmas conn_defs = conn_life_def OnAttachedToLoop_def new_conn_def TCPConn_new_def FdChannel_new_def echo_env_def
  quiet_env_def EnableReadEvent_def channel_defs optionally_def on_ready_def watches_def HandleRead_def
  echo_OnMessage_def Send_def SendInLoop_def HandleError_def HandleClose_def DisableAllEvent_def
  FdChannel_Close_def report_down_def report_close_def Conn_Close_def Let_def

lemma peer_closes:
  "\<exists>c. conn_life quiet_env kOutgoing 0 100 [Ready (Some (Got [])) None] = Some c \<and> cstatus c = kDisconnected"
  by (simp add: conn_defs)



text \<open>C18. The end of a connection is reported once: as long as it is open neither the connection
  callback has reported the end nor the close callback been called, and when it is disconnected both
  have been called exactly once, no event is watched, no close timer is left, and the destructor's
  assertions hold.\<close>

theorem connection_ends_once:
  assumes "conn_user E" and "conn_fn E \<noteq> None" and "close_fn E \<noteq> None" and "conn_life E t d h xs = Some c"
  shows "if cstatus c = kDisconnected
     then downs c = 1 \<and> closes c = 1 \<and> registered (chan c) = None \<and> TCPConn_destroy c = Some ()
     else downs c = 0 \<and> closes c = 0"
  using open_or_shut [OF conn_user.life_inv [OF assms(1,4)]] assms(2,3)
  by (auto simp: shut_inv_def open_inv_def shut_chan_def TCPConn_destroy_def IsNoneEvent_def split: if_splits)

theorem connection_ends_once_witness:
  "\<exists>c. conn_life quiet_env kOutgoing 0 100 [Ready (Some (Got [])) None] = Some c \<and> cstatus c = kDisconnected
     \<and> downs c = 1 \<and> closes c = 1 \<and> TCPConn_destroy c = Some ()"
proof -
  obtain c where c: "conn_life quiet_env kOutgoing 0 100 [Ready (Some (Got [])) None] = Some c"
      "cstatus c = kDisconnected"
    using peer_closes by blast
  with connection_ends_once [OF quiet_user.conn_user_axioms _ _ c(1)] show ?thesis
    by (simp add: quiet_env_def)
qed

text \<open>C20. Closing a connection that has already been closed is fatal: \<^verbatim>\<open>Close\<close> overwrites the status, so
  \<^verbatim>\<open>HandleClose\<close> does not recognise the second call, and the assertion of \<^verbatim>\<open>FdChannel::Close\<close> fails, in the
  loop thread at once and from another thread when the loop runs the functor.\<close>

theorem second_close_is_fatal:
  assumes "conn_user E" and "conn_life E t d h xs = Some c" and "cstatus c = kDisconnected"
  shows "Conn_Close E True c = None
     \<and> (\<exists>c'. Conn_Close E False c = Some c' \<and> tasks c' = tasks c @ [CloseTask] \<and> run_task E res CloseTask c' = None)"
  using open_or_shut [OF conn_user.life_inv [OF assms(1,2)]] assms(3)
  by (auto simp: shut_inv_def shut_chan_def Conn_Close_def HandleClose_def DisableAllEvent_def
      FdChannel_Close_def queue_task_def)

theorem second_close_is_fatal_witness:
  "\<exists>c. conn_life quiet_env kOutgoing 0 100 [Ready (Some (Got [])) None] = Some c
     \<and> Conn_Close quiet_env True c = None"
proof -
  obtain c where c: "conn_life quiet_env kOutgoing 0 100 [Ready (Some (Got [])) None] = Some c"
      "cstatus c = kDisconnected"
    using peer_closes by blast
  with second_close_is_fatal [OF quiet_user.conn_user_axioms c] show ?thesis by blast
qed

text \<open>A callback that runs while the connection is being closed may call the checked overloads of
  \<^verbatim>\<open>Send\<close>, which ignore it, but not the overload for a pointer and a length: in the loop thread that
  one does not look at the status, and if bytes are left in the output buffer it registers the channel
  whose event has been deleted.\<close>

lemma unchecked_send_while_closing:
  assumes "closing c" and "output_buffer c \<noteq> []" and "d \<noteq> []"
  shows "Send E True res d c = Some c \<and> Send_pointer E True res d c = None"
  using assms by (auto simp: closing_def shut_chan_def Send_def Send_pointer_def SendInLoop_def Let_def
      queue_task_def EnableWriteEvent_def channel_defs)

definition half_sent :: tcp_conn where
  "half_sent = TCPConn_new\<lparr>cstatus := kDisconnecting, output_buffer := ''b'', wire := ''a'', accepted := ''ab'',
     chan := \<lparr>events = {}, chan_attached = False, has_event = False, callbacks_set = False, registered = None\<rparr>\<rparr>"
  \<comment> \<open>the peer has gone while a byte was waiting\<close>

lemma unchecked_send_while_closing_witness:
  "Send quiet_env True (Sent 0) ''x'' half_sent = Some half_sent \<and> Send_pointer quiet_env True (Sent 0) ''x'' half_sent = None"
  by (rule unchecked_send_while_closing)
    (simp_all add: half_sent_def closing_def shut_chan_def TCPConn_new_def SetCallbacks_def)

text \<open>The echo server runs into the second close: when a peer sends \<^verbatim>\<open>quit\<close> and the kernel
  answers the echo with a broken pipe, \<^verbatim>\<open>Send\<close> closes the connection and the \<^verbatim>\<open>Close\<close> that follows it in
  the callback fails the assertion.\<close>

lemma echo_quit_on_broken_pipe:
  "conn_life (echo_env (\<lambda>s. SendErr EPIPE)) kIncoming 0 h [Ready (Some (Got ''quit'')) None] = None"
  by (simp add: conn_defs)

section \<open>Draining the output buffer\<close>

definition writable_once :: "nat \<Rightarrow> errno \<Rightarrow> conn_event" where
  "writable_once n e = Ready None (Some (Sent n, e))"

lemma drain_step:
  assumes E: "le E = libevent_works" and c: "open_inv c" and out: "output_buffer c \<noteq> []" and n: "0 < n"
  shows "\<exists>c'. conn_do E (writable_once n e) c = Some c' \<and> open_inv c'
     \<and> output_buffer c' = drop n (output_buffer c) \<and> accepted c' = accepted c"
proof -
  have w: "watches kWritable c" "callbacks_set (chan c)" and wr: "IsWritable (chan c)" and ok: "chan_ok (chan c)"
    using c out by (auto simp: watches_def open_inv_def chan_ok_def IsWritable_def)
  obtain ch where ch: "change_events libevent_works (events (chan c) - {kWritable}) (chan c) = Some ch"
      "chan_ok ch" "events ch = events (chan c) - {kWritable}" "callbacks_set ch = callbacks_set (chan c)"
    using change_shape [OF ok] .
  show ?thesis
  proof (cases "n < length (output_buffer c)")
    case True
    then show ?thesis using E c out n w wr
      by (auto simp: writable_once_def on_ready_def HandleWrite_def Let_def open_inv_def)
  next
    case False
    then show ?thesis using E c out n w wr ch
      by (auto simp: writable_once_def on_ready_def HandleWrite_def Let_def open_inv_def DisableWriteEvent_def
          IsWritable_def queue_task_def min_def)
  qed
qed

lemma drain_idle: "open_inv c \<Longrightarrow> output_buffer c = [] \<Longrightarrow> conn_do E (writable_once n e) c = Some c"
  by (auto simp: writable_once_def on_ready_def watches_def open_inv_def chan_ok_def IsWritable_def)

lemma drain_run:
  assumes E: "le E = libevent_works" and n: "0 < n"
  shows "open_inv c \<Longrightarrow> length (output_buffer c) \<le> k \<Longrightarrow>
    \<exists>c'. conn_run E (replicate k (writable_once n e)) c = Some c' \<and> open_inv c' \<and> output_buffer c' = []
      \<and> accepted c' = accepted c"
proof (induction k arbitrary: c)
  case (Suc k)
  show ?case
  proof (cases "output_buffer c = []")
    case True
    with Suc.IH [of c] Suc.prems show ?thesis by (simp add: drain_idle)
  next
    case False
    obtain c1 where c1: "conn_do E (writable_once n e) c = Some c1" "open_inv c1"
        "output_buffer c1 = drop n (output_buffer c)" "accepted c1 = accepted c"
      using drain_step [OF E Suc.prems(1) False n] by blast
    have "length (output_buffer c1) \<le> k" using Suc.prems(2) n c1(3) False by simp
    with Suc.IH [OF c1(2)] c1 show ?thesis by simp
  qed
qed auto

text \<open>C17. Waiting bytes are sent: on an open connection, as long as each writable event lets the
  kernel take at least one byte, the output buffer is empty after as many events as it has bytes, every
  byte the connection took charge of is on the wire in order, and writability is no longer watched,
  so that an idle connection does not spin.\<close>

theorem output_drains:
  assumes "conn_user E" and "conn_life E t d h xs = Some c" and "cstatus c \<noteq> kDisconnected" and "0 < n"
  shows "\<exists>c'. conn_run E (replicate (length (output_buffer c)) (writable_once n e)) c = Some c'
     \<and> output_buffer c' = [] \<and> wire c' = accepted c \<and> \<not> watches kWritable c'"
proof -
  have "open_inv c" using open_or_shut [OF conn_user.life_inv [OF assms(1,2)]] assms(3) by simp
  moreover have "le E = libevent_works" using assms(1) by (simp add: conn_user_def conn_closer_def)
  ultimately obtain c' where c': "conn_run E (replicate (length (output_buffer c)) (writable_once n e)) c = Some c'"
      "open_inv c'" "output_buffer c' = []" "accepted c' = accepted c"
    using drain_run [OF _ assms(4) _ order.refl] by blast
  then show ?thesis by (auto simp: open_inv_def watches_def chan_ok_def IsWritable_def)
qed

lemma one_byte_waits:
  "\<exists>c. conn_life quiet_env kIncoming 0 100 [SendHere (Sent 1) ''ab''] = Some c \<and> cstatus c = kConnected
     \<and> output_buffer c = ''b'' \<and> accepted c = ''ab''"
  by (simp add: conn_defs queue_task_def EnableWriteEvent_def size_t_def)

theorem output_drains_witness:
  "\<exists>c c'. conn_life quiet_env kIncoming 0 100 [SendHere (Sent 1) ''ab''] = Some c \<and> output_buffer c = ''b''
     \<and> conn_run quiet_env (replicate 1 (writable_once 1 EAGAIN)) c = Some c' \<and> wire c' = ''ab''"
proof -
  obtain c where c: "conn_life quiet_env kIncoming 0 100 [SendHere (Sent 1) ''ab''] = Some c" "cstatus c = kConnected"
      "output_buffer c = ''b''" "accepted c = ''ab''"
    using one_byte_waits by blast
  with output_drains [OF quiet_user.conn_user_axioms c(1), of 1 EAGAIN] show ?thesis by auto
qed

section \<open>Sending from other threads\<close>

primrec task_data :: "conn_task \<Rightarrow> byte list" where
  "task_data (SendString d) = d"
| "task_data CloseTask = []"
| "task_data WriteComplete = []"
| "task_data (HighWaterMark n) = []"

primrec remote :: "conn_event \<Rightarrow> bool" where
  "remote (SendHere r d) = False"
| "remote (SendPointerHere r d) = False"
| "remote (Ready rd wr) = True"
| "remote TimerFires = True"
| "remote (RunTask r) = True"
| "remote (SendElsewhere d) = True"
| "remote CloseHere = True"
| "remote CloseElsewhere = True"
  \<comment> \<open>not a send in the loop thread\<close>

definition pending :: "tcp_conn \<Rightarrow> byte list" where
  "pending c = concat (map task_data (tasks c))"

definition in_order :: "tcp_conn \<Rightarrow> bool" where
  "in_order c \<longleftrightarrow> (if cstatus c = kDisconnected then prefix (accepted c) (issued c)
     else accepted c @ pending c = issued c)"

definition same_sends :: "tcp_conn \<Rightarrow> tcp_conn \<Rightarrow> bool" where
  "same_sends c c' \<longleftrightarrow> accepted c' = accepted c \<and> issued c' = issued c \<and> pending c' = pending c
     \<and> (cstatus c' \<noteq> kDisconnected \<longrightarrow> cstatus c \<noteq> kDisconnected)"

lemma same_sends_in_order: "same_sends c c' \<Longrightarrow> in_order c \<Longrightarrow> in_order c'"
  by (auto simp: same_sends_def in_order_def intro: prefixI [OF sym] split: if_splits)

lemma quiet_HandleClose:
  assumes "HandleClose quiet_env (c\<lparr>cstatus := s, delay_close_timer := b\<rparr>) = Some c'"
  shows "s \<noteq> kDisconnected \<or> cstatus c = kDisconnected \<Longrightarrow> same_sends c c'"
  using assms by (auto simp: HandleClose_def quiet_env_def report_down_def report_close_def same_sends_def
      pending_def Let_def split: if_splits Option.bind_splits)

lemma quiet_HandleError: "HandleError quiet_env c = Some c' \<Longrightarrow> same_sends c c'"
  using quiet_HandleClose [where c = c and s = kDisconnecting and b = "delay_close_timer c" and c' = c'] by (simp add: HandleError_def)

lemma quiet_DelayClose: "DelayClose quiet_env c = Some c' \<Longrightarrow> same_sends c c'"
  using quiet_HandleClose [where c = c and s = kDisconnecting and b = False and c' = c'] by (simp add: DelayClose_def)

lemma quiet_Close:
  assumes "Conn_Close quiet_env b c = Some c'" and "cstatus c \<noteq> kDisconnected"
  shows "same_sends c c'"
  using assms quiet_HandleClose [where c = c and s = kDisconnecting and b = "delay_close_timer c" and c' = c']
  by (cases b) (auto simp: Conn_Close_def Let_def same_sends_def queue_task_def pending_def)

lemma quiet_HandleRead:
  assumes "HandleRead quiet_env r c = Some c'" and "cstatus c \<noteq> kDisconnected"
  shows "same_sends c c'"
proof (cases r)
  case (ReadErr e)
  with assms quiet_HandleError show ?thesis
    by (auto simp: HandleRead_def same_sends_def split: if_splits)
next
  case (Got d)
  have late: "same_sends c x" if "DelayClose quiet_env (c\<lparr>chan := ch\<rparr>) = Some x" for ch x
    using quiet_DelayClose [OF that] by (simp add: same_sends_def pending_def)
  show ?thesis
    using assms Got late quiet_HandleClose [where c = c and s = kDisconnecting and b = "delay_close_timer c" and c' = c']
    by (auto simp: HandleRead_def Let_def split: if_splits Option.bind_splits)
      (auto simp: same_sends_def pending_def quiet_env_def)
qed

lemma quiet_HandleWrite:
  assumes "HandleWrite quiet_env r e c = Some c'" and "cstatus c \<noteq> kDisconnected"
  shows "same_sends c c'"
  using assms quiet_HandleError [of c c']
  by (auto simp: HandleWrite_def Let_def split: if_splits Option.bind_splits send_result.splits)
    (auto simp: same_sends_def pending_def queue_task_def)

lemma quiet_SendInLoop:
  assumes "SendInLoop quiet_env r d c = Some c'"
  shows "same_sends c c' \<and> cstatus c' = kDisconnected
    \<or> accepted c' = accepted c @ d \<and> issued c' = issued c \<and> pending c' = pending c \<and> cstatus c' = cstatus c"
proof -
  have "cstatus x = kDisconnected" if "HandleError quiet_env c = Some x" for x
    using that by (auto simp: HandleError_def HandleClose_def Let_def split: if_splits Option.bind_splits)
  with assms quiet_HandleError [of c c'] show ?thesis
    by (auto simp: SendInLoop_def Let_def queue_task_def pending_def split: if_splits Option.bind_splits)
      (auto simp: same_sends_def)
qed

lemma on_ready_in_order:
  assumes c: "conn_inv quiet_env c" and "in_order c" and run: "on_ready quiet_env rd wr c = Some c'"
  shows "in_order c'"
proof (cases "open_inv c")
  case False
  then have "\<not> watches t c" for t using c by (simp add: conn_inv_def shut_inv_def shut_chan_def watches_def)
  with assms show ?thesis by (auto simp: on_ready_def split: option.splits)
next
  case True
  then have st: "cstatus c \<noteq> kDisconnected" by (auto simp: open_inv_def)
  let ?read = "case rd of None \<Rightarrow> Some c
        | Some r \<Rightarrow> if watches kReadable c \<and> callbacks_set (chan c) then HandleRead quiet_env r c else Some c"
  obtain c1 where c1: "?read = Some c1" using run by (auto simp: on_ready_def split: Option.bind_splits)
  have o1: "in_order c1"
    using c1 assms(2) st same_sends_in_order [OF quiet_HandleRead] by (auto split: option.splits if_splits)
  have "conn_inv quiet_env x" if "HandleRead quiet_env r c = Some x" for r x
    using quiet_user.HandleRead_kept [OF True, of r] that by auto
  then have "conn_inv quiet_env c1" using c1 c by (auto split: option.splits if_splits)
  then have live: "cstatus c1 \<noteq> kDisconnected" if "callbacks_set (chan c1)"
    using that by (auto simp: conn_inv_def shut_inv_def shut_chan_def open_inv_def split: if_splits)
  show ?thesis
    using run c1 o1 live same_sends_in_order [OF quiet_HandleWrite]
    by (auto simp: on_ready_def split: option.splits if_splits)
qed

lemma run_task_in_order:
  assumes "in_order c" and ts: "tasks c = t # ts" and run: "run_task quiet_env r t (c\<lparr>tasks := ts\<rparr>) = Some c'"
  shows "in_order c'"
proof (cases t)
  case (SendString d)
  with run quiet_SendInLoop [of r d "c\<lparr>tasks := ts\<rparr>" c'] assms(1) ts show ?thesis
    by (auto simp: in_order_def pending_def same_sends_def intro: prefixI [OF sym] split: if_splits)
       (auto simp: SendInLoop_def)
next
  case CloseTask
  with run quiet_HandleClose [where c = "c\<lparr>tasks := ts\<rparr>" and s = "cstatus c" and b = "delay_close_timer c" and c' = c']
  have "same_sends (c\<lparr>tasks := ts\<rparr>) c'" by auto
  moreover have "in_order (c\<lparr>tasks := ts\<rparr>)" using assms(1) ts CloseTask
    by (auto simp: in_order_def pending_def split: if_splits)
  ultimately show ?thesis by (rule same_sends_in_order)
qed (use assms in \<open>auto simp: in_order_def pending_def optionally_def quiet_env_def split: if_splits\<close>)

lemma conn_do_in_order:
  assumes c: "conn_inv quiet_env c" and o: "in_order c" and "remote x" and run: "conn_do quiet_env x c = Some c'"
  shows "in_order c'"
proof (cases x)
  case (Ready rd wr)
  with run on_ready_in_order [OF c o] show ?thesis by simp
next
  case TimerFires
  with run o same_sends_in_order [OF quiet_DelayClose] show ?thesis by (auto split: if_splits)
next
  case (RunTask r)
  with run o run_task_in_order [OF o] show ?thesis by (auto split: list.splits)
next
  case (SendElsewhere d)
  with run o show ?thesis by (auto simp: Send_def in_order_def queue_task_def pending_def split: if_splits)
qed (use run o assms(3) in \<open>auto split: if_splits intro: same_sends_in_order [OF quiet_Close]\<close>)

lemma conn_run_in_order:
  "conn_inv quiet_env c \<Longrightarrow> in_order c \<Longrightarrow> list_all remote xs \<Longrightarrow> conn_run quiet_env xs c = Some c' \<Longrightarrow> in_order c'"
proof (induction xs arbitrary: c)
  case (Cons x xs)
  obtain c1 where c1: "conn_do quiet_env x c = Some c1" "conn_run quiet_env xs c1 = Some c'"
    using Cons.prems(4) by (auto split: Option.bind_splits)
  have "conn_inv quiet_env c1" using quiet_user.conn_do_kept [OF Cons.prems(1), of x] c1(1) by (simp add: kept_def)
  with Cons.IH c1 conn_do_in_order [OF Cons.prems(1,2) _ c1(1)] Cons.prems(3) show ?case by simp
qed simp



end
