(* ===== verification/ThreadPool.thy ===== *)
theory ThreadPool
  imports Prelude "HOL-Library.Multiset"
begin

text \<open>
  \<^verbatim>\<open>EventLoopThread\<close> and \<^verbatim>\<open>EventLoopThreadPool\<close> (\<^verbatim>\<open>src/evpp/event_loop_thread.cc\<close>,
  \<^verbatim>\<open>src/evpp/event_loop_thread_pool.cc\<close>): how loops are handed out to connections, and how the status of
  the pool follows its threads. A thread's own steps (its loop runs, its pre functor, its post
  functor, its end) interleave freely with each other and with the calls on the pool. Event loops are
  identified by numbers; \<^verbatim>\<open>next_\<close> is a 64-bit counter that wraps around.
\<close>

section \<open>State\<close>

record pool_thread =
  loop_id :: nat
  tstatus :: server_status
  loop_running :: bool
  pre_done :: bool
  post_done :: bool

record pool =
  base_loop :: nat
  thread_num :: nat
  pstatus :: server_status
  threads :: "pool_thread list"
  next_ctr :: "64 word"
  started_count :: nat
  exited_count :: nat
  stopped_cb :: bool
  cb_calls :: nat

definition pool_new :: "nat \<Rightarrow> nat \<Rightarrow> pool" where
  "pool_new base n = \<lparr>base_loop = base, thread_num = n, pstatus = kNull, threads = [], next_ctr = 0,
     started_count = 0, exited_count = 0, stopped_cb = False, cb_calls = 0\<rparr>"

section \<open>Handing out loops\<close>

definition pool_GetNextLoop :: "pool \<Rightarrow> nat \<times> pool" where
  "pool_GetNextLoop p =
     (if pstatus p = kRunning \<and> threads p \<noteq> []
      then (loop_id (threads p ! (unat (next_ctr p) mod length (threads p))), p\<lparr>next_ctr := next_ctr p + 1\<rparr>)
      else (base_loop p, p))"
  \<comment> \<open>\<^verbatim>\<open>int64_t % size_t\<close> is computed with unsigned operands\<close>

definition GetNextLoopWithHash :: "64 word \<Rightarrow> pool \<Rightarrow> nat" where
  "GetNextLoopWithHash h p =
     (if pstatus p = kRunning \<and> threads p \<noteq> [] then loop_id (threads p ! (unat h mod length (threads p)))
      else base_loop p)"

primrec next_loops :: "nat \<Rightarrow> pool \<Rightarrow> nat list" where
  "next_loops 0 p = []"
| "next_loops (Suc k) p = (let (l, p') = pool_GetNextLoop p in l # next_loops k p')"

lemma unat_Suc_counter: "unat (c :: 64 word) + 1 < 2 ^ 64 \<Longrightarrow> unat (c + 1) = unat c + 1"
  by (simp add: unat_word_ariths)

lemma next_loops_run:
  assumes "pstatus p = kRunning" and "threads p \<noteq> []" and "unat (next_ctr p) + k \<le> 2 ^ 64"
  shows "next_loops k p
     = map (\<lambda>i. loop_id (threads p ! ((unat (next_ctr p) + i) mod length (threads p)))) [0..<k]"
  using assms
proof (induction k arbitrary: p)
  case (Suc k)
  let ?p = "p\<lparr>next_ctr := next_ctr p + 1\<rparr>"
  have l: "next_loops (Suc k) p = loop_id (threads p ! (unat (next_ctr p) mod length (threads p))) # next_loops k ?p"
    using Suc.prems by (simp add: pool_GetNextLoop_def)
  show ?case
  proof (cases k)
    case 0
    then show ?thesis using l by simp
  next
    case (Suc m)
    then have n: "unat (next_ctr ?p) = unat (next_ctr p) + 1" using Suc.prems(3) unat_Suc_counter by simp
    have "next_loops k ?p = map (\<lambda>i. loop_id (threads p ! ((unat (next_ctr p) + 1 + i) mod length (threads p)))) [0..<k]"
      using Suc.IH [of ?p] Suc.prems n by simp
    then show ?thesis unfolding l upt_conv_Cons [OF zero_less_Suc] map_Suc_upt [symmetric] by simp
  qed
qed simp

lemma next_loops_rotate:
  assumes "pstatus p = kRunning" and "threads p \<noteq> []" and "unat (next_ctr p) + length (threads p) \<le> 2 ^ 64"
  shows "next_loops (length (threads p)) p = rotate (unat (next_ctr p)) (map loop_id (threads p))"
  unfolding next_loops_run [OF assms]
  by (rule nth_equalityI) (use assms(2) in \<open>simp_all add: nth_rotate\<close>)

lemma mset_rotated: "mset (rotate n xs) = mset xs"
proof (induction n)
  case (Suc n)
  then show ?case by (cases "rotate n xs") (simp_all add: rotate_Suc)
qed simp

text \<open>C21. Every loop the pool hands out while it runs is the loop of one of its threads: the index
  taken from the counter is in range for every value of the counter, also when the signed counter has
  become negative. A round of as many calls as there are threads hands out each loop exactly
  once, across the signed overflow too, as long as the 64 bits do not wrap to zero.\<close>

theorem round_robin_is_fair:
  assumes "pstatus p = kRunning" and "threads p \<noteq> []"
  shows "fst (pool_GetNextLoop p) \<in> loop_id ` set (threads p) \<and> GetNextLoopWithHash h p \<in> loop_id ` set (threads p)
     \<and> (unat (next_ctr p) + length (threads p) \<le> 2 ^ 64 \<longrightarrow>
          mset (next_loops (length (threads p)) p) = mset (map loop_id (threads p)))"
  using assms next_loops_rotate [OF assms] by (simp add: pool_GetNextLoop_def GetNextLoopWithHash_def mset_rotated)

definition two_threads :: pool where
  "two_threads = (pool_new 0 2)\<lparr>pstatus := kRunning, next_ctr := 0x7FFFFFFFFFFFFFFF,
     threads := [\<lparr>loop_id = 1, tstatus = kRunning, loop_running = True, pre_done = True, post_done = False\<rparr>,
                 \<lparr>loop_id = 2, tstatus = kRunning, loop_running = True, pre_done = True, post_done = False\<rparr>]\<rparr>"

theorem round_robin_is_fair_witness:
  "fst (pool_GetNextLoop two_threads) \<in> {1, 2} \<and> mset (next_loops 2 two_threads) = {#1, 2#}"
proof -
  have t: "pstatus two_threads = kRunning" "threads two_threads \<noteq> []" "length (threads two_threads) = 2"
      "map loop_id (threads two_threads) = [1, 2]" "loop_id ` set (threads two_threads) = {1, 2}"
      "unat (next_ctr two_threads) + 2 \<le> 2 ^ 64"
    by (simp_all add: two_threads_def pool_new_def)
  show ?thesis using round_robin_is_fair [OF t(1,2)] unfolding t(3-5) using t(6) by simp
qed

section \<open>Starting and stopping\<close>

definition pool_thread_new :: "nat \<Rightarrow> pool_thread" where
  "pool_thread_new i = \<lparr>loop_id = i, tstatus = kStarting, loop_running = False, pre_done = False, post_done = False\<rparr>"

definition pool_Start :: "pool \<Rightarrow> pool" where
  "pool_Start p = p\<lparr>pstatus := (if thread_num p = 0 then kRunning else kStarting)\<rparr>"

definition pool_spawn :: "pool \<Rightarrow> pool" where
  "pool_spawn p = p\<lparr>threads := threads p @ [pool_thread_new (Suc (length (threads p)))]\<rparr>"

definition thread_runs :: "nat \<Rightarrow> pool \<Rightarrow> pool" where
  "thread_runs i p = p\<lparr>threads := (threads p)[i := (threads p ! i)\<lparr>tstatus := kRunning, loop_running := True\<rparr>]\<rparr>"

definition OnThreadStarted :: "nat \<Rightarrow> pool \<Rightarrow> pool" where
  "OnThreadStarted cnt p = (if cnt = thread_num p then p\<lparr>pstatus := kRunning\<rparr> else p)"

definition thread_pre :: "nat \<Rightarrow> pool \<Rightarrow> pool" where
  "thread_pre i p = OnThreadStarted (started_count p + 1)
     (p\<lparr>started_count := started_count p + 1, threads := (threads p)[i := (threads p ! i)\<lparr>pre_done := True\<rparr>]\<rparr>)"

definition EventLoopThread_Stop :: "pool_thread \<Rightarrow> pool_thread option" where
  "EventLoopThread_Stop t = do {
     require (tstatus t = kRunning \<and> loop_running t);
     Some (t\<lparr>tstatus := kStopping, loop_running := False\<rparr>) }"
  \<comment> \<open>\<^verbatim>\<open>event_loop_->Stop()\<close> leaves the loop's status at \<^verbatim>\<open>kStopping\<close>\<close>

definition pool_Stop :: "bool \<Rightarrow> pool \<Rightarrow> pool option" where
  "pool_Stop fn p =
     (if thread_num p = 0 then Some (p\<lparr>pstatus := kStopped, cb_calls := cb_calls p + of_bool fn\<rparr>)
      else do {
        ts \<leftarrow> those (map EventLoopThread_Stop (threads p));
        Some (p\<lparr>pstatus := kStopping, stopped_cb := fn, threads := ts\<rparr>) })"

definition pool_Stop_returns :: "bool \<Rightarrow> pool \<Rightarrow> pool option" where
  "pool_Stop_returns wait_thread_exit p =
     (if thread_num p > 0 \<and> wait_thread_exit \<and> \<not> list_all (\<lambda>t. tstatus t = kStopped) (threads p) then None
      else Some (p\<lparr>pstatus := kStopped\<rparr>))"
  \<comment> \<open>the end of \<^verbatim>\<open>Stop\<close>; \<^const>\<open>None\<close> while it still waits\<close>

definition OnThreadExited :: "nat \<Rightarrow> pool \<Rightarrow> pool" where
  "OnThreadExited cnt p =
     (if cnt = thread_num p
      then p\<lparr>pstatus := kStopped, cb_calls := cb_calls p + of_bool (stopped_cb p), stopped_cb := False\<rparr> else p)"

definition thread_post :: "nat \<Rightarrow> pool \<Rightarrow> pool" where
  "thread_post i p = OnThreadExited (exited_count p + 1)
     (p\<lparr>exited_count := exited_count p + 1, threads := (threads p)[i := (threads p ! i)\<lparr>post_done := True\<rparr>]\<rparr>)"

definition thread_end :: "nat \<Rightarrow> pool \<Rightarrow> pool" where
  "thread_end i p = p\<lparr>threads := (threads p)[i := (threads p ! i)\<lparr>tstatus := kStopped\<rparr>]\<rparr>"

text \<open>The steps of the pool and its threads. The pool is stopped when it runs.\<close>

inductive pool_step :: "pool \<Rightarrow> pool \<Rightarrow> bool" where
  start: "pstatus p = kNull \<Longrightarrow> pool_step p (pool_Start p)"
| spawn: "pstatus p = kStarting \<Longrightarrow> length (threads p) < thread_num p \<Longrightarrow> pool_step p (pool_spawn p)"
| runs: "i < length (threads p) \<Longrightarrow> tstatus (threads p ! i) = kStarting \<Longrightarrow> pool_step p (thread_runs i p)"
| pre: "i < length (threads p) \<Longrightarrow> tstatus (threads p ! i) \<noteq> kStarting \<Longrightarrow> \<not> pre_done (threads p ! i) \<Longrightarrow>
    pool_step p (thread_pre i p)"
| stop: "pstatus p = kRunning \<Longrightarrow> pool_Stop fn p = Some p' \<Longrightarrow> pool_step p p'"
| post: "i < length (threads p) \<Longrightarrow> tstatus (threads p ! i) = kStopping \<Longrightarrow> pre_done (threads p ! i) \<Longrightarrow>
    \<not> post_done (threads p ! i) \<Longrightarrow> pool_step p (thread_post i p)"
| ends: "i < length (threads p) \<Longrightarrow> tstatus (threads p ! i) = kStopping \<Longrightarrow> post_done (threads p ! i) \<Longrightarrow>
    pool_step p (thread_end i p)"
| returns: "pstatus p = kStopping \<or> pstatus p = kStopped \<Longrightarrow> pool_Stop_returns w p = Some p' \<Longrightarrow> pool_step p p'"

definition number :: "(pool_thread \<Rightarrow> bool) \<Rightarrow> pool \<Rightarrow> nat" where
  "number P p = length (filter P (threads p))"

definition thread_ok :: "pool_thread \<Rightarrow> bool" where
  "thread_ok t \<longleftrightarrow> tstatus t \<in> {kStarting, kRunning, kStopping, kStopped} \<and> (loop_running t \<longleftrightarrow> tstatus t = kRunning)
     \<and> (tstatus t = kStarting \<longrightarrow> \<not> pre_done t)
     \<and> (post_done t \<longrightarrow> tstatus t = kStopping \<or> tstatus t = kStopped) \<and> (tstatus t = kStopped \<longrightarrow> post_done t)"

definition stage_ok :: "pool \<Rightarrow> bool" where
  "stage_ok p \<longleftrightarrow> (case pstatus p of
     kNull \<Rightarrow> threads p = []
   | kStarting \<Rightarrow> started_count p < thread_num p \<and> length (threads p) \<le> thread_num p
       \<and> list_all (\<lambda>t. tstatus t = kStarting \<or> tstatus t = kRunning) (threads p)
   | kRunning \<Rightarrow> length (threads p) = thread_num p \<and> list_all (\<lambda>t. tstatus t = kRunning \<and> pre_done t) (threads p)
   | kStopping \<Rightarrow> length (threads p) = thread_num p
       \<and> list_all (\<lambda>t. (tstatus t = kStopping \<or> tstatus t = kStopped) \<and> pre_done t) (threads p)
   | kStopped \<Rightarrow> length (threads p) = thread_num p
       \<and> list_all (\<lambda>t. (tstatus t = kStopping \<or> tstatus t = kStopped) \<and> pre_done t) (threads p)
   | _ \<Rightarrow> False)"

definition pool_inv :: "pool \<Rightarrow> bool" where
  "pool_inv p \<longleftrightarrow> list_all thread_ok (threads p) \<and> started_count p = number pre_done p
     \<and> exited_count p = number post_done p \<and> stage_ok p"

lemma filter_update:
  "i < length xs \<Longrightarrow>
    length (filter P (xs[i := x])) + of_bool (P (xs ! i)) = length (filter P xs) + of_bool (P x)"
proof (induction xs arbitrary: i)
  case (Cons y xs)
  then show ?case by (cases i) auto
qed simp

lemma number_update:
  "i < length (threads p) \<Longrightarrow> \<not> P (threads p ! i) \<Longrightarrow> P t \<Longrightarrow>
    length (filter P ((threads p)[i := t])) = Suc (number P p)"
  using filter_update [of i "threads p" P t] by (simp add: number_def)

lemma number_same:
  "i < length (threads p) \<Longrightarrow> P t \<longleftrightarrow> P (threads p ! i) \<Longrightarrow>
    length (filter P ((threads p)[i := t])) = number P p"
  using filter_update [of i "threads p" P t] by (simp add: number_def)

lemma list_all_update: "list_all P xs \<Longrightarrow> P x \<Longrightarrow> list_all P (xs[i := x])"
  by (auto simp: list_all_iff dest!: set_update_subset_insert [THEN subsetD])

lemma list_all_nth: "list_all P xs \<Longrightarrow> i < length xs \<Longrightarrow> P (xs ! i)"
  by (simp add: list_all_length)

lemma all_counted:
  assumes "number P p = thread_num p" and "length (threads p) \<le> thread_num p"
  shows "length (threads p) = thread_num p \<and> list_all P (threads p)"
proof -
  have "length (filter P (threads p)) = length (threads p)"
    using assms length_filter_le [of P "threads p"] by (simp add: number_def)
  with assms show ?thesis
    by (simp add: number_def list_all_iff) (metis filter_True length_filter_less order_less_irrefl)
qed

lemma pool_inv_thread:
  assumes "pool_inv p" and "i < length (threads p)"
  shows "thread_ok (threads p ! i)" and "pstatus p \<noteq> kNull"
  using assms by (auto simp: pool_inv_def stage_ok_def list_all_length)

lemma stopped_threads:
  assumes "those (map EventLoopThread_Stop ts) = Some us"
  shows "list_all (\<lambda>t. tstatus t = kRunning) ts \<and> us = map (\<lambda>t. t\<lparr>tstatus := kStopping, loop_running := False\<rparr>) ts"
  using assms
  by (induction ts arbitrary: us) (auto simp: EventLoopThread_Stop_def split: option.splits Option.bind_splits)

lemma stop_all:
  "list_all thread_ok ts \<Longrightarrow> list_all (\<lambda>t. tstatus t = kRunning) ts \<Longrightarrow>
    those (map EventLoopThread_Stop ts) = Some (map (\<lambda>t. t\<lparr>tstatus := kStopping, loop_running := False\<rparr>) ts)"
  by (induction ts) (auto simp: EventLoopThread_Stop_def thread_ok_def)

lemma pool_step_runs:
  assumes p: "pool_inv p" and i: "i < length (threads p)" "tstatus (threads p ! i) = kStarting"
  shows "pool_inv (thread_runs i p)"
proof -
  have ok: "thread_ok (threads p ! i)" using pool_inv_thread [OF p i(1)] by simp
  then have t: "thread_ok ((threads p ! i)\<lparr>tstatus := kRunning, loop_running := True\<rparr>)"
    "\<not> pre_done (threads p ! i)" "\<not> post_done (threads p ! i)"
    using i(2) by (auto simp: thread_ok_def)
  have st: "pstatus p = kStarting"
    using p i by (auto simp: pool_inv_def stage_ok_def list_all_length split: server_status.splits)
  then show ?thesis using p i t
    by (auto simp: pool_inv_def thread_runs_def stage_ok_def number_def [of _ "p\<lparr>threads := _\<rparr>"] number_same
        intro!: list_all_update)
qed

lemma pool_step_pre:
  assumes p: "pool_inv p" and i: "i < length (threads p)" "tstatus (threads p ! i) \<noteq> kStarting" "\<not> pre_done (threads p ! i)"
  shows "pool_inv (thread_pre i p)"
proof -
  let ?t = "(threads p ! i)\<lparr>pre_done := True\<rparr>"
  let ?q = "p\<lparr>started_count := started_count p + 1, threads := (threads p)[i := ?t]\<rparr>"
  have st: "pstatus p = kStarting"
    using p i by (auto simp: pool_inv_def stage_ok_def list_all_length split: server_status.splits)
  have ok: "thread_ok ?t" using pool_inv_thread [OF p i(1)] i(2) by (auto simp: thread_ok_def)
  have run: "list_all (\<lambda>t. tstatus t = kStarting \<or> tstatus t = kRunning) (threads ?q)"
    using p st i by (auto simp: pool_inv_def stage_ok_def intro!: list_all_update dest: list_all_nth)
  have num: "number pre_done ?q = started_count p + 1" "number post_done ?q = exited_count p"
    using p i number_update [of i p pre_done ?t] number_same [of i p post_done ?t]
    by (simp_all add: number_def pool_inv_def)
  have oks: "list_all thread_ok (threads ?q)" using p ok by (auto simp: pool_inv_def intro!: list_all_update)
  show ?thesis
  proof (cases "started_count p + 1 = thread_num p")
    case True
    have "length (threads ?q) = thread_num ?q \<and> list_all pre_done (threads ?q)"
      using num(1) True p st by (intro all_counted) (simp_all add: pool_inv_def stage_ok_def)
    moreover have "list_all (\<lambda>t. tstatus t = kRunning \<and> pre_done t) (threads ?q)"
      using run oks calculation by (auto simp: list_all_iff thread_ok_def)
    ultimately show ?thesis using True num oks
      by (simp add: thread_pre_def OnThreadStarted_def pool_inv_def stage_ok_def number_def)
  next
    case False
    then show ?thesis using p st num oks run
      by (simp add: thread_pre_def OnThreadStarted_def pool_inv_def stage_ok_def number_def)
  qed
qed

lemma pool_step_exit:
  assumes p: "pool_inv p" and i: "i < length (threads p)" "tstatus (threads p ! i) = kStopping"
  shows "\<not> post_done (threads p ! i) \<Longrightarrow> pool_inv (thread_post i p)"
    and "post_done (threads p ! i) \<Longrightarrow> pool_inv (thread_end i p)"
proof -
  have st: "pstatus p = kStopping \<or> pstatus p = kStopped"
    using p i by (auto simp: pool_inv_def stage_ok_def list_all_length split: server_status.splits)
  have ok: "thread_ok (threads p ! i)" using pool_inv_thread [OF p i(1)] by simp
  let ?P = "\<lambda>t. (tstatus t = kStopping \<or> tstatus t = kStopped) \<and> pre_done t"
  have all: "length (threads p) = thread_num p" "list_all ?P (threads p)"
    using p st by (auto simp: pool_inv_def stage_ok_def)
  have pre: "pre_done (threads p ! i)" using list_all_nth [OF all(2) i(1)] by simp
  {
    assume n: "\<not> post_done (threads p ! i)"
    let ?t = "(threads p ! i)\<lparr>post_done := True\<rparr>"
    have "list_all thread_ok ((threads p)[i := ?t])" "list_all ?P ((threads p)[i := ?t])"
      using p ok i all pre by (auto simp: pool_inv_def thread_ok_def intro!: list_all_update)
    then show "pool_inv (thread_post i p)"
      using p st all i n number_update [of i p post_done ?t] number_same [of i p pre_done ?t]
      by (auto simp: thread_post_def OnThreadExited_def pool_inv_def stage_ok_def number_def)
  }
  {
    assume n: "post_done (threads p ! i)"
    let ?t = "(threads p ! i)\<lparr>tstatus := kStopped\<rparr>"
    have "list_all thread_ok ((threads p)[i := ?t])" "list_all ?P ((threads p)[i := ?t])"
      using p ok i n all pre by (auto simp: pool_inv_def thread_ok_def intro!: list_all_update)
    then show "pool_inv (thread_end i p)"
      using p st all i number_same [of i p post_done ?t] number_same [of i p pre_done ?t]
      by (auto simp: thread_end_def pool_inv_def stage_ok_def number_def)
  }
qed

lemma pool_step_stop:
  assumes p: "pool_inv p" and "pstatus p = kRunning" and "pool_Stop fn p = Some p'"
  shows "pool_inv p'"
proof (cases "thread_num p = 0")
  case True
  with assms show ?thesis by (auto simp: pool_Stop_def pool_inv_def stage_ok_def number_def)
next
  case False
  then obtain us where us: "those (map EventLoopThread_Stop (threads p)) = Some us"
      "p' = p\<lparr>pstatus := kStopping, stopped_cb := fn, threads := us\<rparr>"
    using assms(3) by (auto simp: pool_Stop_def split: Option.bind_splits)
  from stopped_threads [OF us(1)] us(2) p assms(2) show ?thesis
    by (auto simp: pool_inv_def stage_ok_def number_def list_all_iff thread_ok_def filter_map comp_def)
qed

lemma pool_inv_step: "pool_step p p' \<Longrightarrow> pool_inv p \<Longrightarrow> pool_inv p'"
proof (induction rule: pool_step.induct)
  case (start p)
  then show ?case by (auto simp: pool_Start_def pool_inv_def stage_ok_def number_def)
next
  case (spawn p)
  then show ?case
    by (auto simp: pool_spawn_def pool_inv_def stage_ok_def number_def pool_thread_new_def thread_ok_def)
next
  case (returns p w p')
  then show ?case by (auto simp: pool_Stop_returns_def pool_inv_def stage_ok_def number_def split: if_splits)
qed (use pool_step_runs pool_step_pre pool_step_exit pool_step_stop in auto)

interpretation pool_steps: preserved pool_step pool_inv
  by unfold_locales (erule (1) pool_inv_step)

lemma pool_reachable: "pool_step\<^sup>*\<^sup>* (pool_new b n) p \<Longrightarrow> pool_inv p"
  by (erule pool_steps.run_inv) (simp add: pool_new_def pool_inv_def stage_ok_def number_def)



text \<open>Without waiting, \<^verbatim>\<open>Stop\<close> reports a stopped pool at once, whatever its threads still do.\<close>

lemma stop_without_waiting: "\<exists>p'. pool_Stop_returns False p = Some p' \<and> pstatus p' = kStopped \<and> threads p' = threads p"
  by (simp add: pool_Stop_returns_def)

end
