(* ===== verification/TcpServer.thy ===== *)
theory TcpServer
  imports TcpConn ThreadPool
begin

text \<open>
  \<^verbatim>\<open>TCPServer\<close> with its \<^verbatim>\<open>Listener\<close> (\<^verbatim>\<open>src/evpp/tcp_server.cc\<close>, \<^verbatim>\<open>src/evpp/listener.cc\<close>): the table of
  connections, accepting, removing and stopping. A connection is represented by the phase of its life;
  \<open>phase_of\<close> relates it to the full model, where the phases are shown to follow each other in this
  order and the close callback to be called on entering the last one. The listening loop's functors
  are the list \<open>base_q\<close>; connections live on loops of the pool, which run concurrently with it, or, in
  a pool without threads, on the listening loop itself. Connection ids are unbounded here; the source
  counts them in 64 bits.
\<close>

section \<open>State\<close>

datatype sub_status = kSubStatusNull | kStoppingListener | kStoppingThreadPool

datatype phase = Fresh | Up | Ending | Gone
  \<comment> \<open>created, attached to its loop, closing, closed\<close>

datatype base_task = Remove nat | StopServer bool

record tcp_server =
  sstatus :: server_status
  substatus :: sub_status
  listener :: bool
  tpool :: "pool option"
  round_robin :: bool
  next_conn_id :: nat
  connections :: "nat list"
  phases :: "nat \<rightharpoonup> phase"
  base_q :: "base_task list"
  on_stopped :: bool
  done_calls :: nat
  \<comment> \<open>\<open>on_stopped\<close> says whether \<^verbatim>\<open>stopped_cb_\<close> is set, \<open>done_calls\<close> how often a done callback has been called\<close>

definition TCPServer_new :: "pool \<Rightarrow> bool \<Rightarrow> tcp_server" where
  "TCPServer_new p rr = \<lparr>sstatus = kNull, substatus = kSubStatusNull, listener = False, tpool = Some p,
     round_robin = rr, next_conn_id = 0, connections = [], phases = Map.empty, base_q = [],
     on_stopped = False, done_calls = 0\<rparr>"

section \<open>Operations\<close>

definition Server_Init :: "tcp_server \<Rightarrow> tcp_server option" where
  "Server_Init s = do { require (sstatus s = kNull); Some (s\<lparr>listener := True, sstatus := kInitialized\<rparr>) }"

definition Server_Start :: "pool \<Rightarrow> tcp_server \<Rightarrow> tcp_server option" where
  "Server_Start p s = do {
     require (sstatus s = kInitialized);
     require (listener s);
     require (pstatus p = kRunning);
     Some (s\<lparr>tpool := Some p, sstatus := kRunning\<rparr>) }"
  \<comment> \<open>\<open>p\<close> is the pool after \<^verbatim>\<open>tpool_->Start(true)\<close>\<close>

definition StopThreadPool :: "tcp_server \<Rightarrow> tcp_server option" where
  "StopThreadPool s = do {
     require (sstatus s = kStopping);
     require (tpool s \<noteq> None);
     Some (s\<lparr>tpool := None, substatus := kSubStatusNull\<rparr>) }"
  \<comment> \<open>\<^verbatim>\<open>Stop(true)\<close> and \<^verbatim>\<open>Join\<close> wait until the threads have ended\<close>

definition remove_in_loop :: "nat \<Rightarrow> tcp_server \<Rightarrow> tcp_server option" where
  "remove_in_loop i s =
     (let s = s\<lparr>connections := filter (\<lambda>j. j \<noteq> i) (connections s)\<rparr>
      in if sstatus s = kStopping \<and> connections s = [] then do {
           require (substatus s = kStoppingListener);
           s \<leftarrow> StopThreadPool s;
           Some (s\<lparr>done_calls := done_calls s + of_bool (on_stopped s), on_stopped := False, sstatus := kStopped\<rparr>) }
         else Some s)"

definition RemoveConnection :: "bool \<Rightarrow> nat \<Rightarrow> tcp_server \<Rightarrow> tcp_server option" where
  "RemoveConnection in_base i s =
     (if in_base then remove_in_loop i s else Some (s\<lparr>base_q := base_q s @ [Remove i]\<rparr>))"

definition conn_ends :: "bool \<Rightarrow> nat \<Rightarrow> tcp_server \<Rightarrow> tcp_server option" where
  "conn_ends in_base i s = RemoveConnection in_base i (s\<lparr>phases := (phases s)(i \<mapsto> Gone)\<rparr>)"
  \<comment> \<open>\<^verbatim>\<open>HandleClose\<close> of connection \<open>i\<close> calls the server's close callback\<close>

definition server_GetNextLoop :: "64 word \<Rightarrow> bool \<Rightarrow> pool \<Rightarrow> nat \<times> pool" where
  "server_GetNextLoop h rr p = (if rr then pool_GetNextLoop p else (GetNextLoopWithHash h p, p))"

definition HandleNewConn :: "64 word \<Rightarrow> bool \<Rightarrow> tcp_server \<Rightarrow> tcp_server option" where
  "HandleNewConn h closes_at_once s =
     (if sstatus s = kStopping then Some s
      else do {
        require (sstatus s = kRunning);
        p \<leftarrow> tpool s;
        let (io_loop, p') = server_GetNextLoop h (round_robin s) p;
        let i = next_conn_id s + 1;
        let s = s\<lparr>tpool := Some p', next_conn_id := i, phases := (phases s)(i \<mapsto> Fresh)\<rparr>;
        s \<leftarrow> (if io_loop = base_loop p
              then (if closes_at_once then conn_ends True i s else Some (s\<lparr>phases := (phases s)(i \<mapsto> Up)\<rparr>))
              else Some s);
        Some (s\<lparr>connections := connections s @ [i]\<rparr>) })"
  \<comment> \<open>on the listening loop itself the connection is attached at once, and the user's connection
      callback may close it; another loop attaches it later\<close>

primrec close_each :: "bool \<Rightarrow> nat list \<Rightarrow> tcp_server \<Rightarrow> tcp_server option" where
  "close_each in_base [] s = Some s"
| "close_each in_base (i # is) s =
     (if phases s i = Some Up
      then if in_base then do { s \<leftarrow> conn_ends True i s; require (i \<in> set (connections s)); close_each in_base is s }
           else close_each in_base is (s\<lparr>phases := (phases s)(i \<mapsto> Ending)\<rparr>)
      else close_each in_base is s)"
  \<comment> \<open>the loop advances an iterator that stands on entry \<open>i\<close>, which must still be there\<close>

definition Server_StopInLoop :: "bool \<Rightarrow> bool \<Rightarrow> tcp_server \<Rightarrow> tcp_server option" where
  "Server_StopInLoop in_base cb s = do {
     require (listener s);
     let s = s\<lparr>listener := False\<rparr>;
     if connections s = [] then do {
       s \<leftarrow> StopThreadPool s;
       Some (s\<lparr>done_calls := done_calls s + of_bool cb, sstatus := kStopped\<rparr>) }
     else do {
       s \<leftarrow> close_each in_base (connections s) s;
       Some (s\<lparr>on_stopped := cb\<rparr>) } }"
  \<comment> \<open>\<open>in_base\<close> says whether the connections live on the listening loop\<close>

definition Server_Stop :: "bool \<Rightarrow> tcp_server \<Rightarrow> tcp_server option" where
  "Server_Stop cb s = do {
     require (sstatus s = kRunning);
     Some (s\<lparr>sstatus := kStopping, substatus := kStoppingListener, base_q := base_q s @ [StopServer cb]\<rparr>) }"
  \<comment> \<open>called outside the listening loop\<close>

primrec base_task_run :: "base_task \<Rightarrow> tcp_server \<Rightarrow> tcp_server option" where
  "base_task_run (Remove i) s = remove_in_loop i s"
| "base_task_run (StopServer cb) s = Server_StopInLoop False cb s"

definition run_base :: "tcp_server \<Rightarrow> tcp_server option" where
  "run_base s = (case base_q s of [] \<Rightarrow> Some s | t # ts \<Rightarrow> base_task_run t (s\<lparr>base_q := ts\<rparr>))"

definition TCPServer_destroy :: "tcp_server \<Rightarrow> unit option" where
  "TCPServer_destroy s = do {
     require (connections s = []);
     require (\<not> listener s);
     require (tpool s = None \<or> sstatus s = kStopped);
     Some () }"

section \<open>A server with worker threads\<close>

definition workers :: "pool \<Rightarrow> bool" where
  "workers p \<longleftrightarrow> pstatus p = kRunning \<and> threads p \<noteq> [] \<and> base_loop p \<notin> loop_id ` set (threads p)"

inductive server_step :: "tcp_server \<Rightarrow> tcp_server \<Rightarrow> bool" where
  accept: "listener s \<Longrightarrow> HandleNewConn h b s = Some s' \<Longrightarrow> server_step s s'"
| attach: "phases s i = Some Fresh \<Longrightarrow> server_step s (s\<lparr>phases := (phases s)(i \<mapsto> Up)\<rparr>)"
| ends: "phases s i = Some Up \<or> phases s i = Some Ending \<Longrightarrow> conn_ends False i s = Some s' \<Longrightarrow> server_step s s'"
| base: "base_q s \<noteq> [] \<Longrightarrow> run_base s = Some s' \<Longrightarrow> server_step s s'"
| stop: "sstatus s = kRunning \<Longrightarrow> Server_Stop cb s = Some s' \<Longrightarrow> server_step s s'"

definition server_start :: "pool \<Rightarrow> bool \<Rightarrow> tcp_server" where
  "server_start p rr = (TCPServer_new p rr)\<lparr>sstatus := kRunning, listener := True\<rparr>"

definition live :: "tcp_server \<Rightarrow> nat \<Rightarrow> bool" where
  "live s i \<longleftrightarrow> phases s i = Some Fresh \<or> phases s i = Some Up \<or> phases s i = Some Ending"

definition tracked :: "tcp_server \<Rightarrow> bool" where
  "tracked s \<longleftrightarrow> distinct (connections s) \<and> distinct (base_q s)
     \<and> (\<forall>i. i \<in> set (connections s) \<longleftrightarrow> live s i \<or> Remove i \<in> set (base_q s))
     \<and> (\<forall>i. Remove i \<in> set (base_q s) \<longrightarrow> phases s i = Some Gone)
     \<and> (\<forall>i. phases s i \<noteq> None \<longrightarrow> i \<le> next_conn_id s)"

definition staged :: "tcp_server \<Rightarrow> bool" where
  "staged s \<longleftrightarrow> (case sstatus s of
     kRunning \<Rightarrow> listener s \<and> (\<forall>b. StopServer b \<notin> set (base_q s)) \<and> done_calls s = 0
       \<and> (\<exists>p. tpool s = Some p \<and> workers p)
   | kStopping \<Rightarrow> substatus s = kStoppingListener \<and> done_calls s = 0 \<and> tpool s \<noteq> None
       \<and> (if listener s then \<exists>b. StopServer b \<in> set (base_q s) \<and> (\<forall>c. StopServer c \<in> set (base_q s) \<longrightarrow> c = b)
          else connections s \<noteq> [] \<and> (\<forall>b. StopServer b \<notin> set (base_q s)))
   | kStopped \<Rightarrow> connections s = [] \<and> done_calls s \<le> 1
   | _ \<Rightarrow> False)"

lemma next_loop_is_worker:
  assumes "workers p"
  shows "fst (server_GetNextLoop h rr p) \<noteq> base_loop p"
    and "workers (snd (server_GetNextLoop h rr p))"
proof -
  have "loop_id (threads p ! (n mod length (threads p))) \<noteq> base_loop p" for n
    using assms by (metis image_eqI length_greater_0_conv mod_less_divisor nth_mem workers_def)
  then show "fst (server_GetNextLoop h rr p) \<noteq> base_loop p"
    using assms by (auto simp: server_GetNextLoop_def pool_GetNextLoop_def GetNextLoopWithHash_def workers_def)
  show "workers (snd (server_GetNextLoop h rr p))"
    using assms by (simp add: server_GetNextLoop_def pool_GetNextLoop_def workers_def)
qed

definition server_inv :: "tcp_server \<Rightarrow> bool" where
  "server_inv s \<longleftrightarrow> tracked s \<and> staged s"

lemma accept_step:
  assumes inv: "server_inv s" and run: "HandleNewConn h b s = Some s'"
  shows "server_inv s'"
proof (cases "sstatus s = kStopping")
  case True
  then show ?thesis using assms by (simp add: HandleNewConn_def)
next
  case False
  then have st: "sstatus s = kRunning" using run by (cases "sstatus s = kRunning") (simp_all add: HandleNewConn_def)
  then obtain p where p: "tpool s = Some p" "workers p" using inv by (auto simp: server_inv_def staged_def)
  let ?i = "next_conn_id s + 1" and ?l = "server_GetNextLoop h (round_robin s) p"
  have s': "s' = s\<lparr>tpool := Some (snd ?l), next_conn_id := ?i, phases := (phases s)(?i \<mapsto> Fresh),
      connections := connections s @ [?i]\<rparr>"
    using run st p next_loop_is_worker(1) [OF p(2), of h "round_robin s"]
    by (cases ?l) (simp add: HandleNewConn_def Let_def)
  have new: "phases s ?i = None" "Remove ?i \<notin> set (base_q s)" "?i \<notin> set (connections s)"
    using inv by (auto simp: server_inv_def tracked_def live_def) (metis Suc_n_not_le_n option.distinct(1))+
  have "tracked s'" unfolding tracked_def
  proof (intro conjI allI)
    show "distinct (connections s')" "distinct (base_q s')"
      using inv new by (simp_all add: s' server_inv_def tracked_def)
    show "i \<in> set (connections s') \<longleftrightarrow> live s' i \<or> Remove i \<in> set (base_q s')" for i
      using inv by (auto simp: s' server_inv_def tracked_def live_def)
    show "Remove i \<in> set (base_q s') \<longrightarrow> phases s' i = Some Gone" for i
      using inv new by (auto simp: s' server_inv_def tracked_def)
    show "phases s' i \<noteq> None \<longrightarrow> i \<le> next_conn_id s'" for i
      using inv by (auto simp: s' server_inv_def tracked_def intro: le_SucI)
  qed
  moreover have "staged s'"
    using inv st p(2) next_loop_is_worker(2) [OF p(2)] by (auto simp: s' server_inv_def staged_def)
  ultimately show ?thesis by (simp add: server_inv_def)
qed

lemma phase_step:
  assumes inv: "server_inv s" and "live s i" and "x = Fresh \<or> x = Up \<or> x = Ending"
  shows "server_inv (s\<lparr>phases := (phases s)(i \<mapsto> x)\<rparr>)"
proof -
  have "live (s\<lparr>phases := (phases s)(i \<mapsto> x)\<rparr>) j \<longleftrightarrow> live s j" for j using assms(2,3) by (auto simp: live_def)
  moreover have "Remove i \<notin> set (base_q s)" using inv assms(2) by (auto simp: server_inv_def tracked_def live_def)
  ultimately show ?thesis using inv assms(2)
    by (auto simp: server_inv_def tracked_def staged_def live_def split: server_status.splits)
qed

lemma ends_step:
  assumes inv: "server_inv s" and i: "live s i" and run: "conn_ends False i s = Some s'"
  shows "server_inv s'"
proof -
  have s': "s' = s\<lparr>phases := (phases s)(i \<mapsto> Gone), base_q := base_q s @ [Remove i]\<rparr>"
    using run by (simp add: conn_ends_def RemoveConnection_def)
  have no: "Remove i \<notin> set (base_q s)" using inv i by (auto simp: server_inv_def tracked_def live_def)
  have "tracked s'" unfolding tracked_def
  proof (intro conjI allI)
    show "distinct (connections s')" "distinct (base_q s')"
      using inv no by (simp_all add: s' server_inv_def tracked_def)
    show "j \<in> set (connections s') \<longleftrightarrow> live s' j \<or> Remove j \<in> set (base_q s')" for j
      using inv i by (auto simp: s' server_inv_def tracked_def live_def)
    show "Remove j \<in> set (base_q s') \<longrightarrow> phases s' j = Some Gone" for j
      using inv by (auto simp: s' server_inv_def tracked_def)
    show "phases s' j \<noteq> None \<longrightarrow> j \<le> next_conn_id s'" for j
      using inv i by (auto simp: s' server_inv_def tracked_def live_def)
  qed
  moreover have "staged s'" using inv by (auto simp: s' server_inv_def staged_def split: server_status.splits)
  ultimately show ?thesis by (simp add: server_inv_def)
qed

lemma stop_step:
  assumes inv: "server_inv s" and run: "Server_Stop cb s = Some s'"
  shows "server_inv s'"
proof -
  have st: "sstatus s = kRunning" and s': "s' = s\<lparr>sstatus := kStopping, substatus := kStoppingListener,
      base_q := base_q s @ [StopServer cb]\<rparr>"
    using run by (auto simp: Server_Stop_def split: Option.bind_splits)
  have "StopServer b \<notin> set (base_q s)" for b using inv st by (simp add: server_inv_def staged_def)
  then show ?thesis using inv st
    by (auto simp: s' server_inv_def tracked_def staged_def live_def)
qed

definition asked_to_close :: "nat list \<Rightarrow> (nat \<rightharpoonup> phase) \<Rightarrow> nat \<rightharpoonup> phase" where
  "asked_to_close is ph i = (if i \<in> set is \<and> ph i = Some Up then Some Ending else ph i)"

lemma close_each_workers:
  "close_each False is s = Some (s\<lparr>phases := asked_to_close is (phases s)\<rparr>)"
proof (induction "is" arbitrary: s)
  case (Cons i "is")
  have "asked_to_close is ((phases s)(i \<mapsto> Ending)) = asked_to_close (i # is) (phases s)" if "phases s i = Some Up"
    using that by (auto simp: asked_to_close_def fun_eq_iff)
  moreover have "asked_to_close is (phases s) = asked_to_close (i # is) (phases s)" if "phases s i \<noteq> Some Up"
    using that by (auto simp: asked_to_close_def fun_eq_iff)
  ultimately show ?case using Cons.IH by (simp add: fun_upd_def)
qed (simp add: asked_to_close_def [abs_def])

lemma remove_step:
  assumes inv: "server_inv s" and q: "base_q s = Remove i # ts" and run: "remove_in_loop i (s\<lparr>base_q := ts\<rparr>) = Some s'"
  shows "server_inv s'"
proof -
  let ?c = "filter (\<lambda>j. j \<noteq> i) (connections s)"
  have i: "i \<in> set (connections s)" "phases s i = Some Gone" "Remove i \<notin> set ts" "distinct ts"
    using inv q by (auto simp: server_inv_def tracked_def)
  have live: "\<not> live s i" using i(2) by (simp add: live_def)
  have mem: "j \<in> set ?c \<longleftrightarrow> live s j \<or> Remove j \<in> set ts" for j
    using inv q i live by (auto simp: server_inv_def tracked_def)
  show ?thesis
  proof (cases "sstatus s = kStopping \<and> ?c = []")
    case True
    then have "s' = s\<lparr>base_q := ts, connections := [], tpool := None, substatus := kSubStatusNull,
        done_calls := done_calls s + of_bool (on_stopped s), on_stopped := False, sstatus := kStopped\<rparr>"
      using run by (auto simp: remove_in_loop_def StopThreadPool_def Let_def split: Option.bind_splits)
    then show ?thesis using inv True mem i
      by (auto simp: server_inv_def tracked_def staged_def live_def)
  next
    case False
    then have s': "s' = s\<lparr>base_q := ts, connections := ?c\<rparr>"
      using run by (auto simp: remove_in_loop_def Let_def)
    have "tracked s'" using inv mem i q by (auto simp: s' server_inv_def tracked_def live_def)
    moreover have "staged s'" using inv False q
      by (auto simp: s' server_inv_def staged_def split: server_status.splits if_splits)
    ultimately show ?thesis by (simp add: server_inv_def)
  qed
qed

lemma stop_in_loop_step:
  assumes inv: "server_inv s" and q: "base_q s = StopServer b # ts"
    and run: "Server_StopInLoop False b (s\<lparr>base_q := ts\<rparr>) = Some s'"
  shows "server_inv s'"
proof -
  have l: "listener s"
    using run by (auto simp: Server_StopInLoop_def split: Option.bind_splits)
  have d: "StopServer b \<notin> set ts" "distinct ts" using inv q by (auto simp: server_inv_def tracked_def)
  show ?thesis
  proof (cases "connections s = []")
    case True
    then have "sstatus s = kStopping" "s' = s\<lparr>base_q := ts, listener := False, tpool := None, substatus := kSubStatusNull,
        done_calls := done_calls s + of_bool b, sstatus := kStopped\<rparr>"
      using run l by (auto simp: Server_StopInLoop_def StopThreadPool_def Let_def split: Option.bind_splits)
    then show ?thesis using inv True q by (auto simp: server_inv_def tracked_def staged_def live_def)
  next
    case False
    then have s': "s' = s\<lparr>base_q := ts, listener := False, phases := asked_to_close (connections s) (phases s),
        on_stopped := b\<rparr>"
      using run l by (simp add: Server_StopInLoop_def Let_def close_each_workers)
    have "live s' i \<longleftrightarrow> live s i" for i by (auto simp: s' live_def asked_to_close_def)
    then have "tracked s'" using inv q by (auto simp: s' server_inv_def tracked_def asked_to_close_def)
    moreover have "staged s'" using inv False q d l
      by (auto simp: s' server_inv_def staged_def split: server_status.splits if_splits)
    ultimately show ?thesis by (simp add: server_inv_def)
  qed
qed

lemma server_inv_step: "server_step s s' \<Longrightarrow> server_inv s \<Longrightarrow> server_inv s'"
proof (induction rule: server_step.induct)
  case (attach s i)
  then show ?case using phase_step [of s i Up] by (simp add: live_def)
next
  case (ends s i s')
  then show ?case using ends_step [of s i s'] by (auto simp: live_def)
next
  case (base s s')
  then obtain t ts where q: "base_q s = t # ts" by (cases "base_q s") auto
  then have run: "base_task_run t (s\<lparr>base_q := ts\<rparr>) = Some s'" using base.hyps by (simp add: run_base_def)
  show ?case
  proof (cases t)
    case (Remove i)
    then show ?thesis using remove_step [OF base.prems, of i ts s'] q run by simp
  next
    case (StopServer b)
    then show ?thesis using stop_in_loop_step [OF base.prems, of b ts s'] q run by simp
  qed
next
  case (accept s h b s')
  then show ?case using accept_step by blast
next
  case (stop s cb s')
  then show ?case using stop_step by blast
qed

lemma server_start_inv: "workers p \<Longrightarrow> server_inv (server_start p rr)"
  by (simp add: server_inv_def server_start_def TCPServer_new_def tracked_def staged_def live_def)

interpretation server_steps: preserved server_step server_inv
  by unfold_locales (erule (1) server_inv_step)

lemma server_reachable: "server_step\<^sup>*\<^sup>* (server_start p rr) s \<Longrightarrow> workers p \<Longrightarrow> server_inv s"
  by (erule server_steps.run_inv) (rule server_start_inv)


section \<open>Runs\<close>

datatype server_act = Accept "64 word" | Attach nat | End nat | Base | Stopping bool

primrec server_do :: "server_act \<Rightarrow> tcp_server \<Rightarrow> tcp_server option" where
  "server_do (Accept h) s = (if listener s then HandleNewConn h False s else None)"
| "server_do (Attach i) s = (if phases s i = Some Fresh then Some (s\<lparr>phases := (phases s)(i \<mapsto> Up)\<rparr>) else None)"
| "server_do (End i) s = (if phases s i = Some Up \<or> phases s i = Some Ending then conn_ends False i s else None)"
| "server_do Base s = (if base_q s = [] then None else run_base s)"
| "server_do (Stopping b) s = Server_Stop b s"

primrec server_run :: "server_act list \<Rightarrow> tcp_server \<Rightarrow> tcp_server option" where
  "server_run [] s = Some s"
| "server_run (a # as) s = do { s \<leftarrow> server_do a s; server_run as s }"

lemma server_do_step: "server_do a s = Some s' \<Longrightarrow> server_step s s'"
proof (cases a)
  case (Stopping b)
  assume "server_do a s = Some s'"
  with Stopping have r: "Server_Stop b s = Some s'" by simp
  then have "sstatus s = kRunning" by (auto simp: Server_Stop_def split: Option.bind_splits)
  then show ?thesis using r by (rule server_step.stop)
qed (auto split: if_splits intro: server_step.intros)

lemma server_run_reachable: "server_run as s = Some s' \<Longrightarrow> server_step\<^sup>*\<^sup>* s s'"
proof (induction "as" arbitrary: s)
  case (Cons a "as")
  then obtain s1 where "server_do a s = Some s1" "server_run as s1 = Some s'" by (auto split: Option.bind_splits)
  with Cons.IH server_do_step show ?case by (meson converse_rtranclp_into_rtranclp)
qed simp

lemmas server_defs = server_start_def TCPServer_new_def HandleNewConn_def server_GetNextLoop_def pool_GetNextLoop_def
  GetNextLoopWithHash_def conn_ends_def RemoveConnection_def remove_in_loop_def StopThreadPool_def
  Server_Stop_def Server_StopInLoop_def run_base_def Let_def

definition one_worker :: pool where
  "one_worker = (pool_new 0 1)\<lparr>pstatus := kRunning, threads :=
     [\<lparr>loop_id = 1, tstatus = kRunning, loop_running = True, pre_done = True, post_done = False\<rparr>]\<rparr>"

lemma one_worker_works: "workers one_worker"
  by (simp add: workers_def one_worker_def pool_new_def)


section \<open>Stopping\<close>

inductive closing_step :: "tcp_server \<Rightarrow> tcp_server \<Rightarrow> bool" where
  ends: "phases s i = Some Ending \<Longrightarrow> conn_ends False i s = Some s' \<Longrightarrow> closing_step s s'"
| base: "base_q s \<noteq> [] \<Longrightarrow> run_base s = Some s' \<Longrightarrow> closing_step s s'"
  \<comment> \<open>what remains to be done once the server is stopping\<close>

lemma closing_server_step: "closing_step s s' \<Longrightarrow> server_step s s'"
  by (induction rule: closing_step.induct) (auto intro: server_step.intros)

definition shutting :: "tcp_server \<Rightarrow> bool" where
  "shutting s \<longleftrightarrow> server_inv s \<and> \<not> listener s \<and> (\<forall>i. phases s i \<noteq> Some Fresh \<and> phases s i \<noteq> Some Up)
     \<and> (\<forall>b. StopServer b \<notin> set (base_q s))
     \<and> (sstatus s = kStopping \<and> on_stopped s \<and> done_calls s = 0 \<or> sstatus s = kStopped \<and> done_calls s = 1)"

definition ending :: "tcp_server \<Rightarrow> nat set" where
  "ending s = {i. phases s i = Some Ending}"

definition shut_weight :: "tcp_server \<Rightarrow> nat" where
  "shut_weight s = 2 * card (ending s) + length (base_q s)"

lemma finite_ending: "server_inv s \<Longrightarrow> finite (ending s)"
  by (rule finite_subset [of _ "{..next_conn_id s}"]) (auto simp: ending_def server_inv_def tracked_def)

lemma shutting_base:
  assumes s: "shutting s" and q: "base_q s \<noteq> []"
  shows "\<exists>s'. run_base s = Some s' \<and> shutting s' \<and> shut_weight s' < shut_weight s"
proof -
  have inv: "server_inv s" using s by (simp add: shutting_def)
  obtain t ts where t: "base_q s = t # ts" using q by (cases "base_q s") auto
  then obtain i where "t = Remove i" using s by (cases t) (auto simp: shutting_def)
  with t have i: "base_q s = Remove i # ts" by simp
  have "i \<in> set (connections s)" using inv i by (auto simp: server_inv_def tracked_def)
  then have st: "sstatus s = kStopping" "on_stopped s" "done_calls s = 0" "substatus s = kStoppingListener" "tpool s \<noteq> None"
    using s inv by (auto simp: shutting_def server_inv_def staged_def)
  let ?s = "s\<lparr>base_q := ts, connections := filter (\<lambda>j. j \<noteq> i) (connections s)\<rparr>"
  let ?t = "?s\<lparr>tpool := None, substatus := kSubStatusNull, done_calls := 1, on_stopped := False, sstatus := kStopped\<rparr>"
  have r: "run_base s = Some (if connections ?s = [] then ?t else ?s)"
    using i st by (auto simp: run_base_def remove_in_loop_def Let_def StopThreadPool_def)
  moreover have "server_inv (if connections ?s = [] then ?t else ?s)"
    using remove_step [OF inv i] r i by (simp add: run_base_def)
  moreover have "shut_weight (if connections ?s = [] then ?t else ?s) < shut_weight s"
    using i by (simp add: shut_weight_def ending_def)
  ultimately show ?thesis using s st i by (auto simp: shutting_def)
qed

lemma shutting_ends:
  assumes s: "shutting s" and i: "phases s i = Some Ending" and run: "conn_ends False i s = Some s'"
  shows "shutting s' \<and> shut_weight s' < shut_weight s"
proof -
  have inv: "server_inv s" using s by (simp add: shutting_def)
  have s': "s' = s\<lparr>phases := (phases s)(i \<mapsto> Gone), base_q := base_q s @ [Remove i]\<rparr>"
    using run by (simp add: conn_ends_def RemoveConnection_def)
  have "ending s' = ending s - {i}" "i \<in> ending s" using i by (auto simp: s' ending_def)
  then have "card (ending s') < card (ending s)"
    using finite_ending [OF inv] by (metis card_Diff1_less)
  moreover have "server_inv s'" using ends_step [OF inv _ run] i by (simp add: live_def)
  ultimately show ?thesis using s by (auto simp: shutting_def s' shut_weight_def)
qed

lemma closing_progress: "closing_step s s' \<Longrightarrow> shutting s \<Longrightarrow> shutting s' \<and> shut_weight s' < shut_weight s"
proof (induction rule: closing_step.induct)
  case (ends s i s')
  then show ?case using shutting_ends by blast
next
  case (base s s')
  then show ?case using shutting_base [OF base.prems base.hyps(1)] by auto
qed

interpretation closing_steps: decreasing closing_step shutting shut_weight
  by unfold_locales (drule (1) closing_progress, simp)+

lemma closing_stuck:
  assumes s: "shutting s" and stuck: "\<nexists>s'. closing_step s s'"
  shows "sstatus s = kStopped \<and> connections s = [] \<and> done_calls s = 1"
proof -
  have "base_q s = []" using shutting_base [OF s] stuck closing_step.base by blast
  moreover have "phases s i \<noteq> Some Ending" for i
    using stuck closing_step.ends [of s i] by (auto simp: conn_ends_def RemoveConnection_def)
  ultimately have "connections s = []"
    using s by (auto simp: shutting_def server_inv_def tracked_def live_def)
  then show ?thesis using s by (auto simp: shutting_def server_inv_def staged_def)
qed

definition stop_now :: "tcp_server \<Rightarrow> tcp_server option" where
  "stop_now s = do { s \<leftarrow> Server_Stop True s; run_base s }"

lemma stop_now_shuts:
  assumes inv: "server_inv s" and st: "sstatus s = kRunning" and q: "base_q s = []" and "\<And>i. phases s i \<noteq> Some Fresh"
  shows "\<exists>s'. stop_now s = Some s' \<and> shutting s' \<and> shut_weight s' \<le> 2 * length (connections s)"
proof -
  obtain s1 where s1: "Server_Stop True s = Some s1" "server_inv s1"
    using stop_step [OF inv] st by (auto simp: Server_Stop_def)
  have c: "base_q s1 = [StopServer True]" "listener s1" "sstatus s1 = kStopping" "tpool s1 \<noteq> None" "done_calls s1 = 0"
      "connections s1 = connections s" "phases s1 = phases s"
    using s1(1) inv st q by (auto simp: Server_Stop_def server_inv_def staged_def split: Option.bind_splits)
  let ?run = "Server_StopInLoop False True (s1\<lparr>base_q := []\<rparr>)"
  have "\<exists>s'. ?run = Some s'"
    using c by (auto simp: Server_StopInLoop_def StopThreadPool_def Let_def close_each_workers)
  then obtain s' where s': "?run = Some s'" by blast
  have inv': "server_inv s'" using stop_in_loop_step [OF s1(2) c(1) s'] .
  have mem: "i \<in> set (connections s) \<longleftrightarrow> live s i" for i using inv q by (auto simp: server_inv_def tracked_def)
  have sh: "shutting s'" using inv' s' c assms(4) mem
    by (auto simp: shutting_def Server_StopInLoop_def StopThreadPool_def Let_def close_each_workers asked_to_close_def
        live_def split: Option.bind_splits if_splits)
  have q': "base_q s' = []" "phases s' = asked_to_close (connections s) (phases s)" using s' c
    by (cases "connections s = []";
        auto simp: Server_StopInLoop_def StopThreadPool_def Let_def close_each_workers asked_to_close_def)+
  have e: "ending s' \<subseteq> set (connections s)" unfolding ending_def q' using mem
    by (auto simp: asked_to_close_def live_def)
  have "card (ending s') \<le> length (connections s)"
    using card_mono [OF _ e] card_length [of "connections s"] by simp
  then show ?thesis using s1(1) c(1) s' sh q' by (simp add: stop_now_def run_base_def shut_weight_def)
qed



section \<open>What stopping gets wrong\<close>

text \<open>C25. \<^verbatim>\<open>Stop\<close> races with the removal of the last connection: \<^verbatim>\<open>Stop\<close> sets the status before its own
  functor runs, so a removal that is already queued finds the server stopping and without connections
  and shuts the thread pool down itself, without calling the done callback; the functor of \<^verbatim>\<open>Stop\<close> then
  fails the assertion in \<^verbatim>\<open>StopThreadPool\<close>.\<close>

theorem stop_races_with_last_removal:
  "\<exists>s. server_step\<^sup>*\<^sup>* (server_start one_worker True) s \<and> sstatus s = kStopped \<and> done_calls s = 0
     \<and> base_q s = [StopServer True] \<and> run_base s = None"
proof -
  have "\<exists>s. server_run [Accept 0, Attach 1, End 1, Stopping True, Base] (server_start one_worker True) = Some s
      \<and> sstatus s = kStopped \<and> done_calls s = 0 \<and> base_q s = [StopServer True] \<and> run_base s = None"
    by (simp add: server_defs one_worker_def pool_new_def)
  with server_run_reachable show ?thesis by blast
qed

text \<open>\<^verbatim>\<open>Stop\<close> misses a connection that has been accepted but not yet attached to its loop: it is not
  connected, so it is taken for one that is closing; it is attached afterwards, and the server
  stays in the stopping state with an open connection and nothing left to do.\<close>

lemma stop_misses_new_connection:
  "\<exists>s. server_step\<^sup>*\<^sup>* (server_start one_worker True) s \<and> sstatus s = kStopping \<and> base_q s = []
     \<and> connections s = [1] \<and> phases s 1 = Some Up \<and> (\<nexists>s'. closing_step s s')"
proof -
  have "\<exists>s. server_run [Accept 0, Stopping True, Base, Attach 1] (server_start one_worker True) = Some s
      \<and> sstatus s = kStopping \<and> base_q s = [] \<and> connections s = [1] \<and> phases s 1 = Some Up
      \<and> (\<forall>i. phases s i \<noteq> Some Ending)"
    by (simp add: server_defs one_worker_def pool_new_def)
  with server_run_reachable show ?thesis by (fastforce elim: closing_step.cases)
qed

lemma conn_ends_erases: "conn_ends True i s = Some s' \<Longrightarrow> i \<notin> set (connections s')"
  by (auto simp: conn_ends_def RemoveConnection_def remove_in_loop_def StopThreadPool_def Let_def
      split: if_splits Option.bind_splits)

lemma close_each_erases: "i \<in> set is \<Longrightarrow> phases s i = Some Up \<Longrightarrow> close_each True is s = None"
proof (induction "is")
  case (Cons j "is")
  have "(do { s \<leftarrow> conn_ends True k s; require (k \<in> set (connections s)); close_each True is s }) = None" for k
    using conn_ends_erases [of k s] by (cases "conn_ends True k s") auto
  with Cons show ?case by auto
qed simp

text \<open>A server without worker threads cannot be stopped while it has a connected client: closing
  the connection runs its removal at once, which erases the entry of the table on which the loop over
  the connections stands. And a client that the user closes in the connection callback stays in the
  table for ever, because it is entered after it has been removed.\<close>

lemma single_threaded_server:
  assumes "listener s" and "i \<in> set (connections s)" and "phases s i = Some Up"
    and "sstatus t = kRunning" and "tpool t = Some p" and "threads p = []"
  shows "Server_StopInLoop True cb s = None
     \<and> (\<exists>t'. HandleNewConn h True t = Some t' \<and> next_conn_id t' \<in> set (connections t')
          \<and> phases t' (next_conn_id t') = Some Gone \<and> base_q t' = base_q t)"
proof -
  have "close_each True (connections s) (s\<lparr>listener := False\<rparr>) = None"
    using close_each_erases [of i "connections s" "s\<lparr>listener := False\<rparr>"] assms(2,3) by simp
  then have "Server_StopInLoop True cb s = None"
    using assms(1,2) by (auto simp: Server_StopInLoop_def Let_def)
  moreover have "server_GetNextLoop h (round_robin t) p = (base_loop p, p)"
    using assms(6) by (simp add: server_GetNextLoop_def pool_GetNextLoop_def GetNextLoopWithHash_def)
  then have "\<exists>t'. HandleNewConn h True t = Some t' \<and> next_conn_id t' \<in> set (connections t')
          \<and> phases t' (next_conn_id t') = Some Gone \<and> base_q t' = base_q t"
    using assms(4,5)
    by (simp add: HandleNewConn_def Let_def conn_ends_def RemoveConnection_def remove_in_loop_def)
  ultimately show ?thesis by blast
qed

definition lonely :: pool where
  "lonely = (pool_new 0 0)\<lparr>pstatus := kRunning\<rparr>"

definition lonely_stopping :: tcp_server where
  "lonely_stopping = (server_start lonely True)\<lparr>sstatus := kStopping, connections := [1], phases := [1 \<mapsto> Up]\<rparr>"

lemma single_threaded_server_witness:
  "Server_StopInLoop True True lonely_stopping = None
     \<and> (\<exists>t'. HandleNewConn 0 True (server_start lonely True) = Some t' \<and> next_conn_id t' \<in> set (connections t')
          \<and> phases t' (next_conn_id t') = Some Gone \<and> base_q t' = base_q (server_start lonely True))"
  by (rule single_threaded_server [where i = 1 and p = lonely])
    (simp_all add: lonely_stopping_def lonely_def server_start_def TCPServer_new_def pool_new_def)

section \<open>The phases of a connection\<close>

definition phase_of :: "tcp_conn \<Rightarrow> phase" where
  "phase_of c = (case cstatus c of kConnected \<Rightarrow> Up | kDisconnecting \<Rightarrow> Ending
     | _ \<Rightarrow> if closes c = 0 then Fresh else Gone)"

definition ages :: "tcp_conn \<Rightarrow> tcp_conn \<Rightarrow> bool" where
  "ages c c' \<longleftrightarrow> cstatus c' = cstatus c \<or> cstatus c' = kDisconnected
     \<or> cstatus c = kConnected \<and> cstatus c' = kDisconnecting"

lemma HandleClose_ages: "HandleClose E c = Some c' \<Longrightarrow> cstatus c' = kDisconnected"
  by (auto simp: HandleClose_def Let_def split: if_splits Option.bind_splits)

lemma close_ages:
  "HandleClose E x = Some c' \<Longrightarrow> ages c c'" "HandleError E x = Some c' \<Longrightarrow> ages c c'"
  "DelayClose E x = Some c' \<Longrightarrow> ages c c'"
  by (auto simp: ages_def HandleError_def DelayClose_def dest: HandleClose_ages)

lemma SendInLoop_ages: "SendInLoop E r d c = Some c' \<Longrightarrow> ages c c'"
  by (auto simp: SendInLoop_def Let_def queue_task_def close_ages split: if_splits Option.bind_splits)
    (auto simp: ages_def)

lemma HandleRead_ages: "HandleRead quiet_env r c = Some c' \<Longrightarrow> ages c c'"
  by (auto simp: HandleRead_def Let_def close_ages split: read_result.splits if_splits Option.bind_splits)
    (auto simp: ages_def quiet_env_def)

lemma HandleWrite_ages: "HandleWrite E r e c = Some c' \<Longrightarrow> ages c c'"
  by (auto simp: HandleWrite_def Let_def queue_task_def close_ages
      split: send_result.splits if_splits Option.bind_splits)
    (auto simp: ages_def)

lemma ages_refl [simp]: "ages c c"
  by (simp add: ages_def)

lemma ages_trans: "ages a b \<Longrightarrow> ages b c \<Longrightarrow> ages a c"
  by (auto simp: ages_def)

lemma on_ready_ages:
  assumes "on_ready quiet_env rd wr c = Some c'"
  shows "ages c c'"
proof -
  let ?read = "case rd of None \<Rightarrow> Some c
      | Some r \<Rightarrow> if watches kReadable c \<and> callbacks_set (chan c) then HandleRead quiet_env r c else Some c"
  obtain c1 where r: "?read = Some c1" and c1: "(case wr of None \<Rightarrow> Some c1
      | Some (res, e) \<Rightarrow> if watches kWritable c \<and> callbacks_set (chan c1)
          then HandleWrite quiet_env (clamp (length (output_buffer c1)) res) e c1 else Some c1) = Some c'"
    using assms unfolding on_ready_def by (cases ?read) simp_all
  have "ages c c1" using r by (auto split: option.splits if_splits intro: HandleRead_ages)
  moreover have "ages c1 c'" using c1 by (auto split: option.splits if_splits intro: HandleWrite_ages)
  ultimately show ?thesis by (rule ages_trans)
qed

lemma run_task_ages: "run_task quiet_env r t (c\<lparr>tasks := ts\<rparr>) = Some c' \<Longrightarrow> ages c c'"
proof (cases t)
  case (SendString d)
  assume "run_task quiet_env r t (c\<lparr>tasks := ts\<rparr>) = Some c'"
  with SendString SendInLoop_ages [of quiet_env r d "c\<lparr>tasks := ts\<rparr>" c'] show ?thesis by (simp add: ages_def)
qed (auto simp: optionally_def quiet_env_def ages_def dest: HandleClose_ages)

lemma conn_do_ages:
  assumes "conn_do quiet_env x c = Some c'" and "cstatus c \<noteq> kConnecting"
  shows "ages c c'"
proof (cases x)
  case (RunTask r)
  with assms show ?thesis by (auto split: list.splits dest: run_task_ages)
next
  case CloseElsewhere
  with assms show ?thesis
    by (cases "cstatus c") (auto simp: Conn_Close_def queue_task_def ages_def split: if_splits)
qed (use assms in \<open>auto simp: on_ready_ages close_ages Send_def Send_pointer_def SendInLoop_ages Conn_Close_def
    queue_task_def split: if_splits\<close>, auto simp: ages_def)

text \<open>The phases the server's model moves a connection through are those of the full model of a
  connection: they never go back, and the close callback has been called exactly in the last one.\<close>

lemma phases_of_connection:
  assumes c: "conn_inv quiet_env c" and run: "conn_do quiet_env x c = Some c'"
  shows "(phase_of c = Up \<or> phase_of c = Ending \<and> phase_of c' \<in> {Ending, Gone} \<or> phase_of c = Gone \<and> phase_of c' = Gone)
     \<and> phase_of c' \<noteq> Fresh \<and> closes c' = of_bool (phase_of c' = Gone)"
proof -
  have c': "conn_inv quiet_env c'" using quiet_user.conn_do_kept [OF c, of x] run by (simp add: kept_def)
  have shape: "if cstatus y = kDisconnected then closes y = 1 else closes y = 0 \<and> cstatus y \<in> {kConnected, kDisconnecting}"
    if "conn_inv quiet_env y" for y
    using open_or_shut [OF that] by (auto simp: shut_inv_def open_inv_def quiet_env_def)
  show ?thesis using shape [OF c] shape [OF c'] conn_do_ages [OF run]
    by (auto simp: phase_of_def ages_def split: if_splits)
qed

end
