(* ===== verification/Connector.thy ===== *)
theory Connector
  imports FdChannel
begin

text \<open>
  \<^verbatim>\<open>Connector\<close> (\<^verbatim>\<open>src/evpp/connector.cc\<close>): establishing a connection, with name resolution, a time limit and
  reconnection. The kernel's answers to \<^verbatim>\<open>bind\<close>, \<^verbatim>\<open>connect\<close> and \<^verbatim>\<open>getsockopt\<close> and the resolver's answer come
  with the events; the new-connection callback only records what it is told. A failed assertion or
  the use of a null pointer is \<^const>\<open>None\<close>. The members \<open>opened\<close>, \<open>closed\<close> and \<open>given\<close> count the descriptors
  created, closed, and handed over to a connection.
\<close>

section \<open>State\<close>

datatype connector_status = kcDisconnected | kDNSResolving | kDNSResolved | kcConnecting | kcConnected

datatype attempt = Pending | Immediate bool
  \<comment> \<open>\<^verbatim>\<open>connect\<close> succeeds or is in progress, or \<^verbatim>\<open>bind\<close> or \<^verbatim>\<open>connect\<close> fails at once, refused or otherwise\<close>

record connector =
  kstatus :: connector_status
  auto_reconnect :: bool
  zero_address :: bool
  has_fd :: bool
  own_fd :: bool
  cchan :: "fd_channel option"
  ctimer :: bool
  resolver :: "bool option"
  retries :: nat
  reports :: "bool list"
  opened :: nat
  closed :: nat
  given :: nat
  \<comment> \<open>\<open>resolver\<close> says whether \<^verbatim>\<open>dns_resolver_\<close> is set and still has its callback, \<open>retries\<close> counts the pending
      calls of \<^verbatim>\<open>Start\<close>, \<open>reports\<close> holds the calls of \<^verbatim>\<open>conn_fn_\<close>, true for a descriptor\<close>

definition Connector_new :: "bool \<Rightarrow> bool \<Rightarrow> connector" where
  "Connector_new ar host = \<lparr>kstatus = kcDisconnected, auto_reconnect = ar, zero_address = host, has_fd = False,
     own_fd = False, cchan = None, ctimer = False, resolver = None, retries = 0, reports = [],
     opened = 0, closed = 0, given = 0\<rparr>"
  \<comment> \<open>\<open>host\<close>: the remote address is not numeric\<close>

section \<open>Operations\<close>

definition close_channel :: "fd_channel \<Rightarrow> fd_channel option" where
  "close_channel ch = do { ch \<leftarrow> DisableAllEvent libevent_works ch; FdChannel_Close ch }"

definition report :: "bool \<Rightarrow> connector \<Rightarrow> connector" where
  "report ok c = c\<lparr>reports := reports c @ [ok]\<rparr>"

definition Connector_HandleError :: "bool \<Rightarrow> connector \<Rightarrow> connector option" where
  "Connector_HandleError refused c = do {
     let c = c\<lparr>kstatus := kcDisconnected\<rparr>;
     c \<leftarrow> (case cchan c of None \<Rightarrow> Some c
          | Some ch \<Rightarrow> do { require (has_fd c); ch \<leftarrow> close_channel ch; Some (c\<lparr>cchan := Some ch\<rparr>) });
     let c = c\<lparr>resolver := None\<rparr>;
     require (ctimer c);
     let c = c\<lparr>ctimer := False\<rparr>;
     let c = (if refused \<or> \<not> auto_reconnect c then report False c else c);
     if auto_reconnect c then do {
       c \<leftarrow> (if has_fd c then do { require (own_fd c); Some (c\<lparr>has_fd := False, closed := closed c + 1\<rparr>) } else Some c);
       Some (c\<lparr>retries := retries c + 1\<rparr>) }
     else Some c }"

definition Connector_Connect :: "attempt \<Rightarrow> connector \<Rightarrow> connector option" where
  "Connector_Connect a c = do {
     require (\<not> has_fd c);
     let c = c\<lparr>has_fd := True, own_fd := True, opened := opened c + 1\<rparr>;
     case a of
       Immediate refused \<Rightarrow> Connector_HandleError refused c
     | Pending \<Rightarrow> do {
         let c = c\<lparr>kstatus := kcConnecting\<rparr>;
         (case cchan c of None \<Rightarrow> Some () | Some old \<Rightarrow> FdChannel_destroy old);
         ch \<leftarrow> AttachToLoop libevent_works (SetCallbacks (FdChannel_new False True));
         Some (c\<lparr>cchan := Some ch\<rparr>) } }"
  \<comment> \<open>replacing \<^verbatim>\<open>chan_\<close> runs the destructor of the old channel\<close>

definition Connector_Start :: "attempt \<Rightarrow> connector \<Rightarrow> connector option" where
  "Connector_Start a c =
     (let c = c\<lparr>ctimer := True\<rparr>
      in if \<not> zero_address c then Connector_Connect a c
         else Some (c\<lparr>kstatus := kDNSResolving, resolver := Some True\<rparr>))"

definition Connector_HandleWrite :: "bool option \<Rightarrow> connector \<Rightarrow> connector option" where
  "Connector_HandleWrite so_error c =
     (if kstatus c = kcDisconnected then (case cchan c of None \<Rightarrow> None | Some _ \<Rightarrow> Some c)
      else do {
        require (kstatus c = kcConnecting);
        ch \<leftarrow> cchan c;
        case so_error of
          Some refused \<Rightarrow> Connector_HandleError refused c
        | None \<Rightarrow> do {
            require (has_fd c);
            let c = report True (c\<lparr>given := given c + 1\<rparr>);
            require (ctimer c);
            ch \<leftarrow> close_channel ch;
            Some (c\<lparr>ctimer := False, cchan := Some ch, own_fd := False, has_fd := False, kstatus := kcConnected\<rparr>) } })"
  \<comment> \<open>\<open>so_error\<close> is \<^const>\<open>None\<close> for no error, otherwise whether the connection was refused\<close>

definition OnConnectTimeout :: "connector \<Rightarrow> connector option" where
  "OnConnectTimeout c = do {
     require (kstatus c = kcConnecting \<or> kstatus c = kDNSResolving);
     Connector_HandleError False c }"

definition OnDNSResolved :: "bool \<Rightarrow> bool \<Rightarrow> attempt \<Rightarrow> connector \<Rightarrow> connector option" where
  "OnDNSResolved found refused a c =
     (if \<not> found then do { require (resolver c \<noteq> None); Connector_HandleError refused c }
      else Connector_Connect a (c\<lparr>zero_address := False, kstatus := kDNSResolved\<rparr>))"
  \<comment> \<open>without an address, \<^verbatim>\<open>HandleError\<close> looks at whatever \<^verbatim>\<open>errno\<close> is\<close>

definition Connector_Cancel :: "connector \<Rightarrow> connector option" where
  "Connector_Cancel c = do {
     let c = c\<lparr>resolver := None\<rparr>;
     require (ctimer c);
     let c = c\<lparr>ctimer := False\<rparr>;
     c \<leftarrow> (if kstatus c = kDNSResolving then do { require (cchan c = None); Some (report False c) } else Some c);
     case cchan c of None \<Rightarrow> Some c
     | Some ch \<Rightarrow> do { ch \<leftarrow> close_channel ch; Some (c\<lparr>cchan := Some ch\<rparr>) } }"

definition Connector_destroy :: "connector \<Rightarrow> connector option" where
  "Connector_destroy c = do {
     c \<leftarrow> (if kstatus c = kDNSResolving
          then do { require (cchan c = None); require (resolver c = None); require (\<not> ctimer c); Some c }
          else if kstatus c \<noteq> kcConnected
          then do { require (cchan c \<noteq> None); require (own_fd c); require (has_fd c);
                    Some (c\<lparr>has_fd := False, closed := closed c + 1\<rparr>) }
          else Some c);
     require (\<not> has_fd c);
     (case cchan c of None \<Rightarrow> Some () | Some ch \<Rightarrow> FdChannel_destroy ch);
     Some (c\<lparr>cchan := None\<rparr>) }"

section \<open>Events\<close>

datatype connector_event =
    Retry attempt
  | Resolved bool bool attempt
  | TimeLimit
  | WritableEv "bool option"

definition watched :: "connector \<Rightarrow> bool" where
  "watched c \<longleftrightarrow> (case cchan c of None \<Rightarrow> False | Some ch \<Rightarrow> registered ch = Some {kWritable} \<and> callbacks_set ch)"

primrec connector_do :: "connector_event \<Rightarrow> connector \<Rightarrow> connector option" where
  "connector_do (Retry a) c = (if retries c = 0 then Some c else Connector_Start a (c\<lparr>retries := retries c - 1\<rparr>))"
| "connector_do (Resolved found refused a) c =
     (if resolver c = Some True then OnDNSResolved found refused a (c\<lparr>resolver := Some False\<rparr>) else Some c)"
| "connector_do TimeLimit c = (if ctimer c then OnConnectTimeout c else Some c)"
| "connector_do (WritableEv e) c = (if watched c then Connector_HandleWrite e c else Some c)"
  \<comment> \<open>an event that cannot happen changes nothing\<close>

primrec connector_run :: "connector_event list \<Rightarrow> connector \<Rightarrow> connector option" where
  "connector_run [] c = Some c"
| "connector_run (x # xs) c = do { c \<leftarrow> connector_do x c; connector_run xs c }"

primrec in_progress :: "connector_event \<Rightarrow> bool" where
  "in_progress (Retry a) \<longleftrightarrow> a = Pending"
| "in_progress (Resolved found refused a) \<longleftrightarrow> a = Pending"
| "in_progress TimeLimit \<longleftrightarrow> True"
| "in_progress (WritableEv e) \<longleftrightarrow> True"
  \<comment> \<open>\<^verbatim>\<open>bind\<close> and \<^verbatim>\<open>connect\<close> do not fail at once\<close>

definition idle_channel :: "fd_channel option \<Rightarrow> bool" where
  "idle_channel x \<longleftrightarrow> (case x of None \<Rightarrow> True | Some ch \<Rightarrow> \<not> has_event ch \<and> registered ch = None)"

definition busy_channel :: "fd_channel option \<Rightarrow> bool" where
  "busy_channel x \<longleftrightarrow> (case x of None \<Rightarrow> False
     | Some ch \<Rightarrow> chan_ok ch \<and> events ch = {kWritable} \<and> callbacks_set ch)"

definition connector_inv :: "connector \<Rightarrow> bool" where
  "connector_inv c \<longleftrightarrow> auto_reconnect c \<and> opened c = closed c + given c + of_bool (has_fd c)
     \<and> (kstatus c = kcConnecting \<and> ctimer c \<and> has_fd c \<and> own_fd c \<and> busy_channel (cchan c) \<and> retries c = 0
          \<and> resolver c \<noteq> Some True \<and> given c = 0 \<and> \<not> zero_address c
       \<or> kstatus c = kDNSResolving \<and> ctimer c \<and> \<not> has_fd c \<and> cchan c = None \<and> retries c = 0 \<and> resolver c = Some True
          \<and> given c = 0
       \<or> kstatus c = kcDisconnected \<and> \<not> ctimer c \<and> \<not> has_fd c \<and> idle_channel (cchan c) \<and> retries c = 1 \<and> resolver c = None
          \<and> given c = 0 \<and> (zero_address c \<longrightarrow> cchan c = None)
       \<or> kstatus c = kcConnected \<and> \<not> ctimer c \<and> \<not> has_fd c \<and> idle_channel (cchan c) \<and> retries c = 0
          \<and> resolver c \<noteq> Some True \<and> given c = 1)"

lemma new_channel: "\<exists>ch. AttachToLoop libevent_works (SetCallbacks (FdChannel_new False True)) = Some ch
    \<and> busy_channel (Some ch)"
  by (simp add: FdChannel_new_def channel_defs busy_channel_def chan_ok_def)

lemma busy_closes:
  assumes "busy_channel (Some ch)"
  shows "\<exists>ch'. close_channel ch = Some ch' \<and> idle_channel (Some ch')"
  using assms
  by (auto simp: close_channel_def busy_channel_def idle_channel_def chan_ok_def DisableAllEvent_def channel_defs
      FdChannel_Close_def)

lemma idle_stays: "idle_channel x \<Longrightarrow> (case x of None \<Rightarrow> Some () | Some old \<Rightarrow> FdChannel_destroy old) = Some ()"
  by (auto simp: idle_channel_def FdChannel_destroy_def split: option.splits)

definition kept_connector :: "connector option \<Rightarrow> bool" where
  "kept_connector r \<longleftrightarrow> (\<exists>c. r = Some c \<and> connector_inv c)"

lemma connect_kept:
  assumes "auto_reconnect c" "opened c = closed c + given c" "ctimer c" "\<not> has_fd c" "idle_channel (cchan c)"
    "retries c = 0" "resolver c \<noteq> Some True" "given c = 0" "\<not> zero_address c"
  shows "kept_connector (Connector_Connect Pending c)"
proof -
  obtain ch where "AttachToLoop libevent_works (SetCallbacks (FdChannel_new False True)) = Some ch"
      "busy_channel (Some ch)"
    using new_channel by blast
  with assms idle_stays [of "cchan c"] show ?thesis
    by (simp add: Connector_Connect_def Let_def kept_connector_def connector_inv_def)
qed

lemma error_kept_connecting:
  assumes "connector_inv c" "kstatus c = kcConnecting"
  shows "kept_connector (Connector_HandleError refused c)"
proof -
  obtain ch where ch: "cchan c = Some ch" "busy_channel (Some ch)"
    using assms by (cases "cchan c") (auto simp: connector_inv_def busy_channel_def)
  obtain ch' where "close_channel ch = Some ch'" "idle_channel (Some ch')" using busy_closes [OF ch(2)] by blast
  with assms ch(1) show ?thesis
    by (auto simp: connector_inv_def kept_connector_def Connector_HandleError_def Let_def report_def)
qed

lemma error_kept_resolving:
  assumes "auto_reconnect c" "opened c = closed c + given c" "ctimer c" "\<not> has_fd c" "cchan c = None"
    "retries c = 0" "given c = 0"
  shows "kept_connector (Connector_HandleError refused c)"
  using assms by (auto simp: connector_inv_def kept_connector_def Connector_HandleError_def Let_def report_def
      idle_channel_def)

lemma connector_do_kept:
  assumes c: "connector_inv c" and x: "in_progress x"
  shows "kept_connector (connector_do x c)"
proof (cases x)
  case (Retry a)
  show ?thesis
  proof (cases "retries c = 0")
    case True
    with Retry c show ?thesis by (simp add: kept_connector_def)
  next
    case False
    then have d: "kstatus c = kcDisconnected" "retries c = 1" "idle_channel (cchan c)" "\<not> has_fd c" "auto_reconnect c"
        "resolver c = None" "given c = 0" "opened c = closed c + given c" "zero_address c \<longrightarrow> cchan c = None"
      using c by (auto simp: connector_inv_def)
    show ?thesis
    proof (cases "zero_address c")
      case True
      with Retry d show ?thesis by (simp add: Connector_Start_def kept_connector_def connector_inv_def Let_def)
    next
      case False
      with Retry x d connect_kept [of "c\<lparr>retries := 0, ctimer := True\<rparr>"] show ?thesis
        by (simp add: Connector_Start_def Let_def)
    qed
  qed
next
  case (Resolved found refused a)
  show ?thesis
  proof (cases "resolver c = Some True")
    case False
    with Resolved c show ?thesis by (simp add: kept_connector_def)
  next
    case True
    then have d: "kstatus c = kDNSResolving" "ctimer c" "\<not> has_fd c" "cchan c = None" "retries c = 0" "auto_reconnect c"
        "given c = 0" "opened c = closed c + given c"
      using c by (auto simp: connector_inv_def)
    show ?thesis
      using Resolved x True d error_kept_resolving [of "c\<lparr>resolver := Some False\<rparr>" refused]
        connect_kept [of "c\<lparr>resolver := Some False, zero_address := False, kstatus := kDNSResolved\<rparr>"]
      by (simp add: OnDNSResolved_def idle_channel_def)
  qed
next
  case TimeLimit
  show ?thesis
  proof (cases "ctimer c")
    case False
    with TimeLimit c show ?thesis by (simp add: kept_connector_def)
  next
    case True
    then have "kstatus c = kcConnecting \<or> kstatus c = kDNSResolving" using c by (auto simp: connector_inv_def)
    with TimeLimit True c error_kept_connecting [OF c] error_kept_resolving [of c] show ?thesis
      by (auto simp: OnConnectTimeout_def connector_inv_def)
  qed
next
  case (WritableEv e)
  show ?thesis
  proof (cases "watched c")
    case False
    with WritableEv c show ?thesis by (simp add: kept_connector_def)
  next
    case True
    then obtain ch where ch: "cchan c = Some ch" "registered ch = Some {kWritable}"
      by (auto simp: watched_def split: option.splits)
    then have st: "kstatus c = kcConnecting" "busy_channel (Some ch)"
      using c by (auto simp: connector_inv_def idle_channel_def)
    obtain ch' where ch': "close_channel ch = Some ch'" "idle_channel (Some ch')" using busy_closes [OF st(2)] by blast
    show ?thesis
    proof (cases e)
      case None
      with WritableEv True ch(1) st(1) ch' c show ?thesis
        by (auto simp: Connector_HandleWrite_def Let_def report_def kept_connector_def connector_inv_def)
    next
      case (Some refused)
      with WritableEv True ch(1) st(1) error_kept_connecting [OF c st(1)] show ?thesis
        by (simp add: Connector_HandleWrite_def)
    qed
  qed
qed

lemma connector_run_kept: "connector_inv c \<Longrightarrow> list_all in_progress xs \<Longrightarrow> kept_connector (connector_run xs c)"
proof (induction xs arbitrary: c)
  case (Cons x xs)
  then obtain c1 where "connector_do x c = Some c1" "connector_inv c1"
    using connector_do_kept [of c x] by (auto simp: kept_connector_def)
  with Cons show ?case by simp
qed (simp add: kept_connector_def)

lemma connector_starts:
  "kept_connector (Connector_Start Pending (Connector_new True host))"
proof (cases host)
  case True
  then show ?thesis
    by (simp add: Connector_Start_def Connector_new_def kept_connector_def connector_inv_def Let_def)
next
  case False
  then show ?thesis using connect_kept [of "(Connector_new True host)\<lparr>ctimer := True\<rparr>"]
    by (simp add: Connector_Start_def Connector_new_def idle_channel_def Let_def)
qed

text \<open>C26. A connector that reconnects never gives up and never leaks: under every sequence of
  resolver answers, time limits, writable events and socket errors, as long as the kernel does not fail
  \<^verbatim>\<open>bind\<close> or \<^verbatim>\<open>connect\<close> at once, no assertion fails; at every moment exactly one of three things holds, it is
  connected, an attempt with a time limit is under way, or a retry is scheduled; and every descriptor
  it created was closed or handed over, except the one of the attempt under way.\<close>

theorem connector_keeps_trying:
  assumes "list_all in_progress xs"
  shows "\<exists>c0 c. Connector_Start Pending (Connector_new True host) = Some c0 \<and> connector_run xs c0 = Some c
     \<and> of_bool (kstatus c = kcConnected) + of_bool (ctimer c) + retries c = 1
     \<and> given c = of_bool (kstatus c = kcConnected)
     \<and> opened c = closed c + given c + of_bool (kstatus c = kcConnecting)"
proof -
  obtain c0 where c0: "Connector_Start Pending (Connector_new True host) = Some c0" "connector_inv c0"
    using connector_starts [of host] by (auto simp: kept_connector_def)
  obtain c where "connector_run xs c0 = Some c" "connector_inv c"
    using connector_run_kept [OF c0(2) assms] by (auto simp: kept_connector_def)
  with c0(1) show ?thesis by (auto simp: connector_inv_def)
qed

theorem connector_keeps_trying_witness:
  "\<exists>c0 c. Connector_Start Pending (Connector_new True True) = Some c0
     \<and> connector_run [Resolved False False Pending, Retry Pending, Resolved True False Pending, WritableEv (Some True),
          Retry Pending, WritableEv None] c0 = Some c
     \<and> of_bool (kstatus c = kcConnected) + of_bool (ctimer c) + retries c = 1
     \<and> given c = of_bool (kstatus c = kcConnected)
     \<and> opened c = closed c + given c + of_bool (kstatus c = kcConnecting)"
  by (rule connector_keeps_trying) simp

text \<open>Reconnecting after a failure is fatal when the next attempt fails at once: the channel of the
  first attempt is closed but kept, \<^verbatim>\<open>HandleError\<close> closes it again, and the assertion of
  \<^verbatim>\<open>FdChannel::Close\<close> fails.\<close>

lemma second_failure_is_fatal:
  "\<exists>c0 c. Connector_Start Pending (Connector_new True False) = Some c0 \<and> connector_run [TimeLimit] c0 = Some c
     \<and> retries c = 1 \<and> connector_do (Retry (Immediate refused)) c = None"
  by (simp add: Connector_Start_def Connector_Connect_def Connector_new_def FdChannel_new_def channel_defs
      OnConnectTimeout_def Connector_HandleError_def close_channel_def DisableAllEvent_def FdChannel_Close_def Let_def)

text \<open>The user is not told about a failed attempt that timed out: with automatic
  reconnection, which is the default, only a refused connection is reported.\<close>

lemma timeout_is_silent:
  assumes "auto_reconnect c" and "OnConnectTimeout c = Some c'"
  shows "reports c' = reports c \<and> retries c' = retries c + 1"
  using assms
  by (auto simp: OnConnectTimeout_def Connector_HandleError_def Let_def report_def
      split: option.splits if_splits Option.bind_splits)

end
