(* ===== verification/Framing.thy ===== *)
theory Framing
  imports Prelude
begin

text \<open>
  A protocol over a byte stream, as \<^verbatim>\<open>TCPConn\<close> delivers it: every piece of input is appended to the buffer and
  the message callback takes as many complete frames from it as there are. The locale \<open>framing\<close> is the
  contract of such a callback; whoever fulfils it reads a stream of frames exactly, however it is cut.
\<close>

primrec feed_pieces :: "(byte list \<Rightarrow> 's \<Rightarrow> (byte list \<times> 's) option) \<Rightarrow> byte list list \<Rightarrow> byte list \<times> 's \<Rightarrow> (byte list \<times> 's) option" where
  "feed_pieces recv [] s = Some s"
| "feed_pieces recv (d # ds) s = do { s \<leftarrow> recv (fst s @ d) (snd s); feed_pieces recv ds s }"
  \<comment> \<open>the pieces in which the bytes arrive\<close>

primrec ok_run :: "('m \<Rightarrow> 's \<Rightarrow> bool) \<Rightarrow> ('m \<Rightarrow> 's \<Rightarrow> 's) \<Rightarrow> 'm list \<Rightarrow> 's \<Rightarrow> bool" where
  "ok_run ok act [] s = True"
| "ok_run ok act (m # ms) s = (ok m s \<and> ok_run ok act ms (act m s))"
  \<comment> \<open>every frame is acceptable when its turn comes\<close>

lemma ok_run_append [simp]: "ok_run ok act (ms @ ns) s \<longleftrightarrow> ok_run ok act ms s \<and> ok_run ok act ns (fold act ms s)"
  by (induction ms arbitrary: s) auto

definition settled :: "('m \<Rightarrow> byte list) \<Rightarrow> byte list \<Rightarrow> 'm list \<Rightarrow> bool" where
  "settled enc b ms \<longleftrightarrow> (case ms of [] \<Rightarrow> b = [] | m # _ \<Rightarrow> strict_prefix b (enc m))"
  \<comment> \<open>no complete frame is left in the buffer\<close>

lemma split_stream:
  "prefix p (concat (map enc ms)) \<Longrightarrow>
    \<exists>ms1 ms2 b. ms = ms1 @ ms2 \<and> p = concat (map enc ms1) @ b \<and> settled enc b ms2"
proof (induction ms arbitrary: p)
  case Nil
  then show ?case by (simp add: settled_def)
next
  case (Cons m ms)
  show ?case
  proof (cases "strict_prefix p (enc m)")
    case True
    then have "m # ms = [] @ m # ms \<and> p = concat (map enc []) @ p \<and> settled enc p (m # ms)" by (simp add: settled_def)
    then show ?thesis by blast
  next
    case False
    have "prefix p (enc m @ concat (map enc ms))" using Cons.prems by simp
    then obtain q where q: "p = enc m @ q" "prefix q (concat (map enc ms))"
      using False by (auto simp: prefix_append strict_prefix_def)
    obtain ms1 ms2 b where "ms = ms1 @ ms2" "q = concat (map enc ms1) @ b" "settled enc b ms2"
      using Cons.IH [OF q(2)] by blast
    with q(1) have "m # ms = (m # ms1) @ ms2 \<and> p = concat (map enc (m # ms1)) @ b \<and> settled enc b ms2" by simp
    then show ?thesis by blast
  qed
qed

locale framing =
  fixes recv :: "byte list \<Rightarrow> 's \<Rightarrow> (byte list \<times> 's) option"
    and enc :: "'m \<Rightarrow> byte list" and ok :: "'m \<Rightarrow> 's \<Rightarrow> bool" and act :: "'m \<Rightarrow> 's \<Rightarrow> 's"
  assumes no_input: "recv [] s = Some ([], s)"
    and whole_frame: "ok m s \<Longrightarrow> recv (enc m @ rest) s = recv rest (act m s)"
    and partial_frame: "ok m s \<Longrightarrow> strict_prefix b (enc m) \<Longrightarrow> recv b s = Some (b, s)"
    and frame_nonempty: "ok m s \<Longrightarrow> enc m \<noteq> []"
begin

lemma recv_complete:
  "ok_run ok act (ms @ ms') s \<Longrightarrow> settled enc b ms' \<Longrightarrow>
    recv (concat (map enc ms) @ b) s = Some (b, fold act ms s)"
proof (induction ms arbitrary: s)
  case Nil
  then show ?case using no_input partial_frame by (cases ms') (auto simp: settled_def)
qed (auto simp: whole_frame)

lemma feed_settled:
  "ok_run ok act ms s \<Longrightarrow> settled enc b ms \<Longrightarrow> b @ concat ds = concat (map enc ms) \<Longrightarrow>
    feed_pieces recv ds (b, s) = Some ([], fold act ms s)"
proof (induction ds arbitrary: b s ms)
  case Nil
  show ?case
  proof (cases ms)
    case (Cons m ns)
    then have "strict_prefix (enc m @ concat (map enc ns)) (enc m)" using Nil.prems by (simp add: settled_def)
    then have False by (metis append_Nil2 prefixI prefix_order.less_le_not_le)
    then show ?thesis ..
  qed (use Nil.prems in \<open>simp add: settled_def\<close>)
next
  case (Cons d ds)
  have "prefix (b @ d) (concat (map enc ms))" using Cons.prems(3) by (metis append.assoc concat.simps(2) prefixI)
  then obtain ms1 ms2 b' where s: "ms = ms1 @ ms2" "b @ d = concat (map enc ms1) @ b'" "settled enc b' ms2"
    using split_stream by blast
  have r: "recv (b @ d) s = Some (b', fold act ms1 s)"
    using recv_complete [of ms1 ms2 s b'] Cons.prems(1) s by simp
  have "b @ d @ concat ds = concat (map enc ms1) @ concat (map enc ms2)" using Cons.prems(3) s(1) by simp
  then have "b' @ concat ds = concat (map enc ms2)" using s(2) by (metis append.assoc same_append_eq)
  with Cons.IH [of ms2 "fold act ms1 s" b'] Cons.prems(1) s r show ?case by simp
qed

lemma feed_frames:
  assumes "ok_run ok act ms s" and "concat ds = concat (map enc ms)"
  shows "feed_pieces recv ds ([], s) = Some ([], fold act ms s)"
proof (rule feed_settled [OF assms(1)])
  show "settled enc [] ms"
    using assms(1) by (cases ms) (auto simp: settled_def strict_prefix_def dest: frame_nonempty)
qed (simp add: assms(2))

end

end
