(* ===== verification/Nsq.thy ===== *)
theory Nsq
  imports Buffer Framing
begin

text \<open>
  The NSQ client (\<^verbatim>\<open>src/apps/evnsq\<close>): \<^verbatim>\<open>Command\<close> and its wire format, \<^verbatim>\<open>Message::Decode\<close>, and \<^verbatim>\<open>NSQConn\<close>, which
  splits the input of a connection into frames and answers them. The input buffer is its readable
  bytes. The JSON parser is a parameter, as are the user's message callback and the options. The
  connection callback is \<^verbatim>\<open>Client::OnConnection\<close>, the publish callback only records its calls. Disconnecting
  in the loop thread closes the connection at once and calls \<^verbatim>\<open>OnTCPConnectionEvent\<close>. \<^const>\<open>None\<close> is a failed
  assertion, a read outside the buffer, or a loop that does not end.
\<close>

section \<open>Commands\<close>

record nsq_command =
  publish :: bool
  retried_time :: nat
  cmd_name :: "byte list"
  params :: "byte list list"
  cmd_body :: "byte list list"

definition Command_new :: nsq_command where
  "Command_new = \<lparr>publish = False, retried_time = 0, cmd_name = [], params = [], cmd_body = []\<rparr>"

definition kMessageIDLen :: nat where
  "kMessageIDLen = 16"

definition cmd_Identify :: "byte list \<Rightarrow> nsq_command \<Rightarrow> nsq_command" where
  "cmd_Identify js c = c\<lparr>cmd_name := ''IDENTIFY'', cmd_body := cmd_body c @ [js]\<rparr>"

definition cmd_Auth :: "byte list \<Rightarrow> nsq_command \<Rightarrow> nsq_command" where
  "cmd_Auth secret c = c\<lparr>cmd_name := ''AUTH'', cmd_body := cmd_body c @ [secret]\<rparr>"

definition cmd_Register :: "byte list \<Rightarrow> byte list \<Rightarrow> nsq_command \<Rightarrow> nsq_command option" where
  "cmd_Register topic channel c = do {
     require (topic \<noteq> []);
     Some (c\<lparr>cmd_name := ''REGISTER'', params := params c @ topic # (if channel \<noteq> [] then [channel] else [])\<rparr>) }"

definition cmd_UnRegister :: "byte list \<Rightarrow> byte list \<Rightarrow> nsq_command \<Rightarrow> nsq_command option" where
  "cmd_UnRegister topic channel c = do {
     require (topic \<noteq> []);
     Some (c\<lparr>cmd_name := ''UNREGISTER'', params := params c @ topic # (if channel \<noteq> [] then [channel] else [])\<rparr>) }"

definition cmd_Ping :: "nsq_command \<Rightarrow> nsq_command" where
  "cmd_Ping c = c\<lparr>cmd_name := ''PING''\<rparr>"

definition cmd_Publish :: "byte list \<Rightarrow> byte list \<Rightarrow> nsq_command \<Rightarrow> nsq_command option" where
  "cmd_Publish topic message c = do {
     require (topic \<noteq> []);
     Some (c\<lparr>publish := True, cmd_name := ''PUB'', params := params c @ [topic], cmd_body := cmd_body c @ [message]\<rparr>) }"

definition cmd_MultiPublish :: "byte list \<Rightarrow> byte list list \<Rightarrow> nsq_command \<Rightarrow> nsq_command option" where
  "cmd_MultiPublish topic messages c = do {
     require (topic \<noteq> []);
     require (length messages > 1);
     Some (c\<lparr>publish := True, cmd_name := ''MPUB'', params := params c @ [topic], cmd_body := messages\<rparr>) }"

definition cmd_Subscribe :: "byte list \<Rightarrow> byte list \<Rightarrow> nsq_command \<Rightarrow> nsq_command option" where
  "cmd_Subscribe topic channel c = do {
     require (topic \<noteq> []);
     require (channel \<noteq> []);
     Some (c\<lparr>cmd_name := ''SUB'', params := params c @ [topic, channel]\<rparr>) }"

definition cmd_Ready :: "int \<Rightarrow> nsq_command \<Rightarrow> nsq_command" where
  "cmd_Ready n c = c\<lparr>cmd_name := ''RDY'', params := params c @ [print_d n]\<rparr>"

definition cmd_Finish :: "byte list \<Rightarrow> nsq_command \<Rightarrow> nsq_command option" where
  "cmd_Finish i c = do {
     require (length i = kMessageIDLen);
     Some (c\<lparr>cmd_name := ''FIN'', params := params c @ [i]\<rparr>) }"

definition cmd_Requeue :: "byte list \<Rightarrow> int \<Rightarrow> nsq_command \<Rightarrow> nsq_command option" where
  "cmd_Requeue i ms c = do {
     require (length i = kMessageIDLen);
     Some (c\<lparr>cmd_name := ''REQ'', params := params c @ [i, print_d ms]\<rparr>) }"

definition cmd_Touch :: "byte list \<Rightarrow> nsq_command \<Rightarrow> nsq_command" where
  "cmd_Touch i c = c\<lparr>cmd_name := ''TOUCH'', params := params c @ [i]\<rparr>"

definition cmd_StartClose :: "nsq_command \<Rightarrow> nsq_command" where
  "cmd_StartClose c = c\<lparr>cmd_name := ''CLS''\<rparr>"

definition cmd_Nop :: "nsq_command \<Rightarrow> nsq_command" where
  "cmd_Nop c = c\<lparr>cmd_name := ''NOP''\<rparr>"

definition cmd_Reset :: "nsq_command \<Rightarrow> nsq_command" where
  "cmd_Reset c = c\<lparr>publish := False, cmd_name := [], params := [], cmd_body := []\<rparr>"

definition sized :: "byte list \<Rightarrow> byte list" where
  "sized d = be 4 (length d) @ d"

definition WriteTo :: "nsq_command \<Rightarrow> byte list option" where
  "WriteTo c =
     (let line = cmd_name c @ concat (map (\<lambda>p. CHR '' '' # p) (params c)) @ [LF]
      in case cmd_body c of
           [] \<Rightarrow> Some line
         | [d] \<Rightarrow> Some (line @ sized d)
         | ds \<Rightarrow> do {
             require (cmd_name c = ''MPUB'');
             Some (line @ be 4 (4 + sum_list (map (\<lambda>d. 4 + length d) ds)) @ be 4 (length ds) @ concat (map sized ds)) })"

section \<open>Messages\<close>

record nsq_message =
  timestamp_ns :: nat
  attempts :: nat
  msg_id :: "byte list"
  msg_body :: "byte list"

definition size_minus :: "nat \<Rightarrow> nat \<Rightarrow> nat" where
  "size_minus a b = (a + 2 ^ 64 - b) mod 2 ^ 64"
  \<comment> \<open>the difference of two values of type \<^verbatim>\<open>size_t\<close>\<close>

definition Decode :: "nat \<Rightarrow> byte list \<Rightarrow> (nsq_message \<times> byte list) option" where
  "Decode message_len buf = do {
     require (length buf \<ge> message_len);
     require (length buf \<ge> 8);
     let ts = be_value (take 8 buf);
     let buf = drop 8 buf;
     require (length buf \<ge> 2);
     let at = be_value (take 2 buf);
     let buf = drop 2 buf;
     let i = take kMessageIDLen buf;
     let buf = drop kMessageIDLen buf;
     let body_len = size_minus message_len (8 + 2 + kMessageIDLen);
     require (body_len \<le> length buf);
     Some (\<lparr>timestamp_ns = ts, attempts = at, msg_id = i, msg_body = take body_len buf\<rparr>, drop body_len buf) }"
  \<comment> \<open>the body is a slice of \<open>body_len\<close> bytes of the buffer\<close>

section \<open>The connection\<close>

datatype nsq_status = nDisconnected | nConnecting | nIdentifying | nAuthenticating | nConnected | nSubscribing
  | nReady | nDisconnecting

record nsq_env =
  negotiation :: bool
  is_producer :: bool
  topic :: "byte list"
  channel :: "byte list"
  identify_json :: "byte list"
  auth_secret :: "byte list"
  auth_required :: "byte list \<Rightarrow> bool option"
  auth_reply_ok :: "byte list \<Rightarrow> bool"
  nsq_msg_fn :: "(nsq_message \<Rightarrow> int) option"
  ack_limit :: nat
  \<comment> \<open>\<open>auth_required\<close> is the member of the parsed reply, \<^const>\<open>None\<close> if parsing fails\<close>

record nsq_conn =
  nstatus :: nsq_status
  wait_ack :: "nsq_command list"
  published_count :: nat
  published_ok_count :: nat
  published_failed_count :: nat
  out :: "byte list list"
  delivered :: "nsq_message list"
  responses :: "(nsq_command option \<times> bool) list"

definition NSQConn_new :: nsq_conn where
  "NSQConn_new = \<lparr>nstatus = nDisconnected, wait_ack = [], published_count = 0, published_ok_count = 0,
     published_failed_count = 0, out = [], delivered = [], responses = []\<rparr>"

definition WriteCommand :: "nsq_command \<Rightarrow> nsq_conn \<Rightarrow> nsq_conn option" where
  "WriteCommand cmd c = do { d \<leftarrow> WriteTo cmd; Some (c\<lparr>out := out c @ [d]\<rparr>) }"

definition nsq_Connect :: "nsq_conn \<Rightarrow> nsq_conn" where
  "nsq_Connect c = c\<lparr>nstatus := nConnecting\<rparr>"

definition tcp_disconnected :: "nsq_conn \<Rightarrow> nsq_conn option" where
  "tcp_disconnected c = do { require (nstatus c = nDisconnecting); Some (c\<lparr>nstatus := nDisconnected\<rparr>) }"
  \<comment> \<open>\<^verbatim>\<open>TCPClient::Disconnect\<close> turns reconnection off, closes the connection and so calls
      \<^verbatim>\<open>OnTCPConnectionEvent\<close>\<close>

definition nsq_Close :: "nsq_conn \<Rightarrow> nsq_conn option" where
  "nsq_Close c = tcp_disconnected (c\<lparr>nstatus := nDisconnecting\<rparr>)"

definition nsq_Reconnect :: "nsq_conn \<Rightarrow> nsq_conn option" where
  "nsq_Reconnect c = do {
     let c = c\<lparr>published_failed_count := published_failed_count c + length (wait_ack c), wait_ack := []\<rparr>;
     c \<leftarrow> tcp_disconnected c;
     Some (nsq_Connect c) }"

definition nsq_Identify :: "nsq_env \<Rightarrow> nsq_conn \<Rightarrow> nsq_conn option" where
  "nsq_Identify E c = do {
     let c = c\<lparr>out := out c @ [''  V2'']\<rparr>;
     c \<leftarrow> WriteCommand (cmd_Identify (identify_json E) Command_new) c;
     Some (c\<lparr>nstatus := nIdentifying\<rparr>) }"

definition OnTCPConnectionEvent :: "nsq_env \<Rightarrow> bool \<Rightarrow> bool \<Rightarrow> nsq_conn \<Rightarrow> nsq_conn option" where
  "OnTCPConnectionEvent E is_connected reconnecting c =
     (if is_connected
      then if nstatus c = nConnecting then nsq_Identify E c
           else do { require (nstatus c = nDisconnecting); Some c }
      else if reconnecting then Some (c\<lparr>nstatus := nConnecting\<rparr>)
      else tcp_disconnected c)"

definition nsq_Subscribe :: "nsq_env \<Rightarrow> nsq_conn \<Rightarrow> nsq_conn option" where
  "nsq_Subscribe E c = do {
     cmd \<leftarrow> cmd_Subscribe (topic E) (channel E) Command_new;
     c \<leftarrow> WriteCommand cmd c;
     Some (c\<lparr>nstatus := nSubscribing\<rparr>) }"

definition OnConnectedOK :: "nsq_env \<Rightarrow> nsq_conn \<Rightarrow> nsq_conn option" where
  "OnConnectedOK E c =
     (let c = c\<lparr>nstatus := nConnected\<rparr>
      in if is_producer E then Some (c\<lparr>nstatus := nReady\<rparr>) else nsq_Subscribe E c)"
  \<comment> \<open>\<^verbatim>\<open>Client::OnConnection\<close> in the state \<^verbatim>\<open>kConnected\<close>\<close>

definition Authenticate :: "nsq_env \<Rightarrow> nsq_conn \<Rightarrow> nsq_conn option" where
  "Authenticate E c = do {
     c \<leftarrow> WriteCommand (cmd_Auth (auth_secret E) Command_new) c;
     Some (c\<lparr>nstatus := nAuthenticating\<rparr>) }"

definition nsq_Finish :: "byte list \<Rightarrow> nsq_conn \<Rightarrow> nsq_conn option" where
  "nsq_Finish i c = do { cmd \<leftarrow> cmd_Finish i Command_new; WriteCommand cmd c }"

definition nsq_Requeue :: "byte list \<Rightarrow> nsq_conn \<Rightarrow> nsq_conn option" where
  "nsq_Requeue i c = do { cmd \<leftarrow> cmd_Requeue i 0 Command_new; WriteCommand cmd c }"

definition UpdateReady :: "int \<Rightarrow> nsq_conn \<Rightarrow> nsq_conn option" where
  "UpdateReady n c = WriteCommand (cmd_Ready n Command_new) c"

definition PushWaitACKCommand :: "nsq_command \<Rightarrow> nsq_conn \<Rightarrow> nsq_conn" where
  "PushWaitACKCommand cmd c = c\<lparr>wait_ack := wait_ack c @ [cmd], published_count := published_count c + 1\<rparr>"

definition PopWaitACKCommand :: "nsq_conn \<Rightarrow> nsq_command option \<times> nsq_conn" where
  "PopWaitACKCommand c = (case wait_ack c of [] \<Rightarrow> (None, c) | cmd # w \<Rightarrow> (Some cmd, c\<lparr>wait_ack := w\<rparr>))"

definition WritePublishCommand :: "nsq_env \<Rightarrow> nsq_command \<Rightarrow> nsq_conn \<Rightarrow> (bool \<times> nsq_conn) option" where
  "WritePublishCommand E cmd c = do {
     require (publish cmd);
     require (is_producer E);
     if length (wait_ack c) \<ge> ack_limit E then Some (False, c)
     else do { c \<leftarrow> WriteCommand cmd c; Some (True, PushWaitACKCommand cmd c) } }"

definition OnPublishResponse :: "nsq_env \<Rightarrow> byte list \<Rightarrow> nsq_conn \<Rightarrow> nsq_conn option" where
  "OnPublishResponse E d c =
     (let (cmd, c) = PopWaitACKCommand c
      in if d = ''OK'' then Some (c\<lparr>published_ok_count := published_ok_count c + 1, responses := responses c @ [(cmd, True)]\<rparr>)
         else case cmd of None \<Rightarrow> Some c
           | Some k \<Rightarrow>
               let c = c\<lparr>published_failed_count := published_failed_count c + 1\<rparr>
               in if retried_time k \<ge> 2 then Some (c\<lparr>responses := responses c @ [(cmd, False)]\<rparr>)
                  else do { (b, c) \<leftarrow> WritePublishCommand E (k\<lparr>retried_time := retried_time k + 1\<rparr>) c; Some c })"

definition nsq_OnMessage :: "nsq_env \<Rightarrow> nat \<Rightarrow> nat \<Rightarrow> byte list \<Rightarrow> nsq_conn \<Rightarrow> (byte list \<times> nsq_conn) option" where
  "nsq_OnMessage E len frame_type buf c =
     (if frame_type = 0 \<and> len = 11 \<and> take 11 buf = ''_heartbeat_''
      then do { c \<leftarrow> WriteCommand (cmd_Nop Command_new) c; Some (drop len buf, c) }
      else if frame_type = 0 then do {
        require (len \<le> length buf);
        c \<leftarrow> (if is_producer E then OnPublishResponse E (take len buf) c else Some c);
        Some (drop len buf, c) }
      else if frame_type = 2 then do {
        (msg, buf) \<leftarrow> Decode len buf;
        case nsq_msg_fn E of None \<Rightarrow> Some (buf, c)
        | Some f \<Rightarrow> do {
            let c = c\<lparr>delivered := delivered c @ [msg]\<rparr>;
            c \<leftarrow> (if f msg = 0 then nsq_Finish (msg_id msg) c else nsq_Requeue (msg_id msg) c);
            Some (buf, c) } }
      else if frame_type = 1 then do {
        require (len \<le> length buf);
        c \<leftarrow> (if prefix ''E_UNAUTHORIZED AUTH'' (take len buf) then nsq_Close c
              else if nstatus c \<noteq> nDisconnecting then nsq_Reconnect c else Some c);
        Some (buf, c) }
      else Some (buf, c))"

definition handle_frame :: "nsq_env \<Rightarrow> nat \<Rightarrow> nat \<Rightarrow> byte list \<Rightarrow> nsq_conn \<Rightarrow> (byte list \<times> nsq_conn) option" where
  "handle_frame E body_len frame_type buf c =
     (let msg = take body_len buf; rest = drop body_len buf
      in case nstatus c of
           nIdentifying \<Rightarrow>
             (if negotiation E
              then case auth_required E msg of
                     None \<Rightarrow> None
                   | Some b \<Rightarrow> do { c \<leftarrow> (if b then Authenticate E c else OnConnectedOK E c); Some (rest, c) }
              else do { c \<leftarrow> (if msg = ''OK'' then OnConnectedOK E c else nsq_Close c); Some (rest, c) })
         | nAuthenticating \<Rightarrow> do {
             c \<leftarrow> (if take 2 msg = ''E_'' \<or> \<not> auth_reply_ok E msg then nsq_Close c else OnConnectedOK E c);
             Some (rest, c) }
         | nConnected \<Rightarrow> None
         | nSubscribing \<Rightarrow>
             (if msg = ''OK'' then do { c \<leftarrow> UpdateReady 100 (c\<lparr>nstatus := nReady\<rparr>); Some (rest, c) }
              else do { c \<leftarrow> nsq_Reconnect c; Some (rest, c) })
         | nReady \<Rightarrow> nsq_OnMessage E body_len frame_type buf c
         | _ \<Rightarrow> Some (buf, c))"
  \<comment> \<open>after a parse error of the reply to \<^verbatim>\<open>IDENTIFY\<close> the code goes on to read a member of the failed document\<close>

definition int32_size :: "nat \<Rightarrow> nat" where
  "int32_size n = (if n < 2 ^ 31 then n else n + 2 ^ 64 - 2 ^ 32)"
  \<comment> \<open>an \<^verbatim>\<open>int32_t\<close> converted to \<^verbatim>\<open>size_t\<close>\<close>

partial_function (option) OnRecv :: "nsq_env \<Rightarrow> byte list \<Rightarrow> nsq_conn \<Rightarrow> (byte list \<times> nsq_conn) option" where
  "OnRecv E buf c =
     (if length buf \<le> 4 then Some (buf, c)
      else let size = int32_size (be_value (take 4 buf))
           in if length buf < size_t (size + 4) then Some (buf, c)
              else do {
                require (length buf \<ge> 8);
                (b, c') \<leftarrow> handle_frame E (size_minus size 4) (be_value (take 4 (drop 4 buf))) (drop 8 buf) c;
                OnRecv E b c' })"

section \<open>A stream of message frames\<close>

lemma size_minus_ok: "b \<le> a \<Longrightarrow> a < 2 ^ 64 \<Longrightarrow> size_minus a b = a - b"
proof -
  assume "b \<le> a" "a < 2 ^ 64"
  then have "a + 2 ^ 64 - b = (a - b) + 2 ^ 64" "a - b < 2 ^ 64" by simp_all
  then show ?thesis unfolding size_minus_def by (metis mod_add_self2 mod_less)
qed

definition encode_message :: "nsq_message \<Rightarrow> byte list" where
  "encode_message m = be 4 (30 + length (msg_body m)) @ be 4 2 @ be 8 (timestamp_ns m) @ be 2 (attempts m)
     @ msg_id m @ msg_body m"
  \<comment> \<open>a message frame as the protocol lays it out\<close>

definition message_ok :: "nsq_message \<Rightarrow> bool" where
  "message_ok m \<longleftrightarrow> timestamp_ns m < 2 ^ 64 \<and> attempts m < 2 ^ 16 \<and> length (msg_id m) = 16
     \<and> length (msg_body m) + 34 < 2 ^ 31"

definition answer :: "nsq_env \<Rightarrow> nsq_message \<Rightarrow> byte list" where
  "answer E m = (if (\<exists>f. nsq_msg_fn E = Some f \<and> f m = 0) then ''FIN '' @ msg_id m @ [LF]
     else ''REQ '' @ msg_id m @ '' 0'' @ [LF])"

definition deliver :: "nsq_env \<Rightarrow> nsq_message \<Rightarrow> nsq_conn \<Rightarrow> nsq_conn" where
  "deliver E m c = c\<lparr>delivered := delivered c @ [m], out := out c @ [answer E m]\<rparr>"

lemma length_encode: "message_ok m \<Longrightarrow> length (encode_message m) = 34 + length (msg_body m)"
  by (simp add: encode_message_def message_ok_def)

lemma frame_size:
  assumes "message_ok m"
  shows "int32_size (be_value (be 4 (30 + length (msg_body m)))) = 30 + length (msg_body m)"
  using assms by (simp add: be_value_be int32_size_def message_ok_def)

lemma Decode_message:
  assumes "message_ok m"
  shows "Decode (26 + length (msg_body m)) (be 8 (timestamp_ns m) @ be 2 (attempts m) @ msg_id m @ msg_body m @ rest)
     = Some (m, rest)"
  using assms by (simp add: Decode_def Let_def message_ok_def be_value_be kMessageIDLen_def size_minus_def)

lemma print_zero: "print_d 0 = ''0''"
proof -
  have "char_of (48 :: nat) = CHR ''0''" by code_simp
  then show ?thesis by (simp add: print_d_def digits.simps digit_char_def)
qed

lemma answer_written:
  assumes "message_ok m" and "nsq_msg_fn E = Some f"
  shows "(if f m = 0 then nsq_Finish (msg_id m) c else nsq_Requeue (msg_id m) c)
     = Some (c\<lparr>out := out c @ [answer E m]\<rparr>)"
  using assms
  by (simp add: nsq_Finish_def nsq_Requeue_def cmd_Finish_def cmd_Requeue_def kMessageIDLen_def message_ok_def
      WriteCommand_def WriteTo_def Command_new_def answer_def print_zero)

lemma OnRecv_step:
  assumes "int32_size (be_value (take 4 buf)) = n" and "\<not> length buf < size_t (n + 4)" and "8 \<le> length buf"
    and "handle_frame E (size_minus n 4) (be_value (take 4 (drop 4 buf))) (drop 8 buf) c = Some (b, c')"
  shows "OnRecv E buf c = OnRecv E b c'"
  by (subst OnRecv.simps) (use assms in simp)

lemma OnRecv_frame:
  assumes m: "message_ok m" and r: "nstatus c = nReady" and f: "nsq_msg_fn E = Some f"
  shows "OnRecv E (encode_message m @ rest) c = OnRecv E rest (deliver E m c)"
proof -
  let ?buf = "encode_message m @ rest" and ?n = "length (msg_body m)"
  have len: "length ?buf = 34 + ?n + length rest" using length_encode [OF m] by simp
  have small: "?n + 34 < 2 ^ 31" using m by (simp add: message_ok_def)
  have size: "int32_size (be_value (take 4 ?buf)) = 30 + ?n"
    using frame_size [OF m] by (simp add: encode_message_def)
  have ft: "be_value (take 4 (drop 4 ?buf)) = 2" by (simp add: encode_message_def be_value_be)
  have body: "drop 8 ?buf = be 8 (timestamp_ns m) @ be 2 (attempts m) @ msg_id m @ msg_body m @ rest"
    by (simp add: encode_message_def)
  have fits: "\<not> length ?buf < size_t (30 + ?n + 4)" using len small by (simp add: size_t_def)
  have bl: "size_minus (30 + ?n) 4 = 26 + ?n" using small by (simp add: size_minus_ok)
  have "handle_frame E (size_minus (30 + ?n) 4) (be_value (take 4 (drop 4 ?buf))) (drop 8 ?buf) c
      = Some (rest, deliver E m c)"
    unfolding bl ft body handle_frame_def using r f Decode_message [OF m, of rest]
      answer_written [OF m f, of "c\<lparr>delivered := delivered c @ [m]\<rparr>"]
    by (simp add: nsq_OnMessage_def deliver_def Let_def)
  then show ?thesis using len by (intro OnRecv_step [OF size fits]) simp_all
qed

lemma OnRecv_partial:
  assumes m: "message_ok m" and p: "strict_prefix b (encode_message m)"
  shows "OnRecv E b c = Some (b, c)"
proof (cases "length b \<le> 4")
  case True
  then show ?thesis by (subst OnRecv.simps) simp
next
  case False
  obtain z where z: "encode_message m = b @ z" "z \<noteq> []" using p by (auto elim: strict_prefixE')
  have "take 4 b = take 4 (encode_message m)" using False z(1) by simp
  then have size: "int32_size (be_value (take 4 b)) = 30 + length (msg_body m)"
    using frame_size [OF m] by (simp add: encode_message_def)
  have "length b < 34 + length (msg_body m)"
    using z length_encode [OF m] by (metis length_append length_greater_0_conv less_add_same_cancel1)
  moreover have "size_t (30 + length (msg_body m) + 4) = 34 + length (msg_body m)"
    using m by (simp add: message_ok_def size_t_def)
  ultimately show ?thesis using False by (subst OnRecv.simps) (simp add: size Let_def)
qed

abbreviation encode_all :: "nsq_message list \<Rightarrow> byte list" where
  "encode_all ms \<equiv> concat (map encode_message ms)"

lemma nstatus_deliver [simp]: "nstatus (deliver E m c) = nstatus c"
  by (simp add: deliver_def)

lemma encode_nonempty: "encode_message m \<noteq> []"
  by (metis encode_message_def append_is_Nil_conv length_be list.size(3) numeral_eq_iff zero_neq_numeral)

definition frame_ok :: "nsq_env \<Rightarrow> nsq_message \<Rightarrow> nsq_conn \<Rightarrow> bool" where
  "frame_ok E m c \<longleftrightarrow> message_ok m \<and> nstatus c = nReady \<and> nsq_msg_fn E \<noteq> None"

interpretation nsq_frames: framing "OnRecv E" encode_message "frame_ok E" "deliver E" for E
proof unfold_locales
  show "OnRecv E [] c = Some ([], c)" for c by (subst OnRecv.simps) simp
qed (auto simp: frame_ok_def OnRecv_frame OnRecv_partial encode_nonempty)

lemma nstatus_fold [simp]: "nstatus (fold (deliver E) ms c) = nstatus c"
  by (induction ms arbitrary: c) simp_all

lemma messages_ok_run:
  "list_all message_ok ms \<Longrightarrow> nstatus c = nReady \<Longrightarrow> nsq_msg_fn E \<noteq> None \<Longrightarrow> ok_run (frame_ok E) (deliver E) ms c"
  by (induction ms arbitrary: c) (auto simp: frame_ok_def)

lemma fold_delivered:
  "delivered (fold (deliver E) ms c) = delivered c @ ms \<and> out (fold (deliver E) ms c) = out c @ map (answer E) ms"
  by (induction ms arbitrary: c) (simp_all add: deliver_def)

text \<open>C27. A subscribed consumer reads a stream of message frames exactly: in whatever pieces the bytes
  arrive, \<^verbatim>\<open>OnRecv\<close> returns on each of them, the message callback is called with exactly the messages
  that were sent, in order, each is answered by one \<^verbatim>\<open>FIN\<close> or \<^verbatim>\<open>REQ\<close> command with its id, and no byte is left
  over.\<close>

theorem nsq_messages_roundtrip:
  assumes "nsq_msg_fn E = Some f" and "nstatus c = nReady" and "list_all message_ok ms"
    and "concat ds = encode_all ms"
  shows "\<exists>c'. feed_pieces (OnRecv E) ds ([], c) = Some ([], c') \<and> delivered c' = delivered c @ ms
     \<and> out c' = out c @ map (answer E) ms \<and> nstatus c' = nReady"
  using nsq_frames.feed_frames [OF messages_ok_run [OF assms(3,2)] assms(4)] assms(1,2) fold_delivered by simp

definition one_message :: nsq_message where
  "one_message = \<lparr>timestamp_ns = 7, attempts = 1, msg_id = replicate 16 (CHR ''0''), msg_body = ''hi''\<rparr>"

definition consumer_env :: nsq_env where
  "consumer_env = \<lparr>negotiation = False, is_producer = False, topic = ''t'', channel = ''c'', identify_json = [],
     auth_secret = [], auth_required = Map.empty, auth_reply_ok = (\<lambda>m. True), nsq_msg_fn = Some (\<lambda>m. 0), ack_limit = 0\<rparr>"

theorem nsq_messages_roundtrip_witness:
  "\<exists>c'. feed_pieces (OnRecv consumer_env) [take 5 (encode_message one_message), drop 5 (encode_message one_message)]
       ([], NSQConn_new\<lparr>nstatus := nReady\<rparr>) = Some ([], c') \<and> delivered c' = [one_message]"
  using nsq_messages_roundtrip [of consumer_env "\<lambda>m. 0" "NSQConn_new\<lparr>nstatus := nReady\<rparr>" "[one_message]"
      "[take 5 (encode_message one_message), drop 5 (encode_message one_message)]"]
  by (auto simp: consumer_env_def NSQConn_new_def message_ok_def one_message_def)



end
