(* ===== verification/Vbucket.thy ===== *)
theory Vbucket
  imports Prelude
begin

text \<open>
  The server map of the memcached client (\<^verbatim>\<open>vbucket_config.h\<close>, \<^verbatim>\<open>vbucket_config.cc\<close>, \<^verbatim>\<open>random.h\<close> in
  \<^verbatim>\<open>src/apps/evmc\<close>): the pseudo-random generator, the choice among the servers of a bucket by their
  health, and the two modes of \<^verbatim>\<open>MultiModeVbucketConfig\<close>. The digest of a key, the text of the
  configuration and its JSON parser are parameters.
\<close>

section \<open>Random numbers\<close>

definition Random_new :: "32 word \<Rightarrow> 32 word" where
  "Random_new s = s AND 0x7fffffff"

definition Random_Next :: "32 word \<Rightarrow> 32 word" where
  "Random_Next seed =
     (let product = (ucast seed :: 64 word) * 16807;
          seed' = ucast (drop_bit 31 product + (product AND 2147483647)) :: 32 word
      in if seed' > 2147483647 then seed' - 2147483647 else seed')"
  \<comment> \<open>the new seed, which is also the value returned\<close>

definition Random_Uniform :: "int \<Rightarrow> 32 word \<Rightarrow> (32 word \<times> 32 word) option" where
  "Random_Uniform n seed = do {
     require (n > 0);
     let s = Random_Next seed;
     Some (s mod word_of_int n, s) }"

definition Random_Onein :: "int \<Rightarrow> 32 word \<Rightarrow> (bool \<times> 32 word) option" where
  "Random_Onein n seed = do {
     require (n > 0);
     let s = Random_Next seed;
     Some (s mod word_of_int n = 0, s) }"

definition Random_Skewed :: "int \<Rightarrow> 32 word \<Rightarrow> (32 word \<times> 32 word) option" where
  "Random_Skewed max_log seed = do {
     (b, s) \<leftarrow> Random_Uniform (max_log + 1) seed;
     require (unat b < 31);
     Random_Uniform (2 ^ unat b) s }"
  \<comment> \<open>a shift of an \<^verbatim>\<open>int\<close> by 31 or more overflows\<close>

lemma unat_Random_Next:
  assumes "unat s \<le> 2147483647"
  shows "unat (Random_Next s) =
    (let p = unat s * 16807; x = p div 2 ^ 31 + p mod 2 ^ 31 in if x > 2147483647 then x - 2147483647 else x)"
proof -
  define p where "p = unat s * 16807"
  let ?P = "(ucast s :: 64 word) * 16807"
  have le: "p \<le> 2147483647 * 16807" using assms by (simp add: p_def)
  have P: "unat ?P = p" using le by (simp add: unat_word_ariths unsigned_ucast_eq take_bit_eq_mod p_def)
  have hi: "unat (drop_bit 31 ?P) = p div 2 ^ 31" by (simp only: unat_drop_bit_eq P) (rule drop_bit_eq_div)
  have "(2147483647 :: 64 word) = mask 31" by (simp add: mask_eq_exp_minus_1)
  then have "?P AND 2147483647 = take_bit 31 ?P" by (simp only: take_bit_eq_mask)
  then have lo: "unat (?P AND 2147483647) = p mod 2 ^ 31"
    by (simp only: unsigned_take_bit_eq P) (rule take_bit_eq_mod)
  define x where "x = p div 2 ^ 31 + p mod 2 ^ 31"
  have "p div 2 ^ 31 \<le> 2147483647 * 16807 div 2 ^ 31" using le by (rule div_le_mono)
  moreover have "p mod 2 ^ 31 < 2 ^ 31" by simp
  ultimately have x: "x < 2147500455" by (simp add: x_def)
  have "unat (drop_bit 31 ?P + (?P AND 2147483647)) = x"
    unfolding unat_word_ariths hi lo x_def [symmetric] using x by simp
  then have "unat (ucast (drop_bit 31 ?P + (?P AND 2147483647)) :: 32 word) = x"
    using x by (simp add: unsigned_ucast_eq take_bit_eq_mod)
  then show ?thesis
    by (simp add: Random_Next_def Let_def word_less_nat_alt unat_sub_if_size word_size
        x_def p_def [symmetric])
qed

text \<open>C36. \<^verbatim>\<open>Random::Next\<close>, which avoids a division, computes \<open>16807\<close> times the seed modulo \<open>2 ^ 31 - 1\<close>, and the
  seed never becomes \<open>0\<close> or \<open>2 ^ 31 - 1\<close>, the two values that the comment in the code excludes, unless it
  is one of them to begin with; those two it never leaves.\<close>

theorem random_next_is_modular:
  "(0 < unat s \<and> unat s < 2147483647 \<longrightarrow>
      unat (Random_Next s) = (unat s * 16807) mod 2147483647
      \<and> 0 < unat (Random_Next s) \<and> unat (Random_Next s) < 2147483647)
   \<and> Random_Next 0 = 0 \<and> Random_Next 2147483647 = 2147483647"
proof (intro conjI impI)
  show "Random_Next 0 = 0" "Random_Next 2147483647 = 2147483647" by code_simp+
next
  assume s: "0 < unat s \<and> unat s < 2147483647"
  define p where "p = unat s * 16807"
  define x where "x = p div 2 ^ 31 + p mod 2 ^ 31"
  have p: "p = x + 2147483647 * (p div 2 ^ 31)"
    using div_mult_mod_eq [of p "2 ^ 31"] by (simp add: x_def)
  have "gcd (2147483647 :: nat) 7 = 1" by (subst gcd_red_nat) simp
  then have "coprime (2147483647 :: nat) (7 ^ 5)" unfolding coprime_power_right_iff by (simp add: coprime_iff_gcd_eq_1)
  then have "coprime (2147483647 :: nat) 16807" by simp
  then have "\<not> 2147483647 dvd p"
    using s by (auto simp: p_def coprime_dvd_mult_left_iff dest: dvd_imp_le)
  moreover have "2147483647 dvd p \<longleftrightarrow> 2147483647 dvd x" by (subst p) (simp add: dvd_add_left_iff)
  ultimately have nd: "\<not> 2147483647 dvd x" by simp
  have "p div 2 ^ 31 \<le> 2147483647 * 16807 div 2 ^ 31" by (rule div_le_mono) (use s in \<open>simp add: p_def\<close>)
  moreover have "p mod 2 ^ 31 < 2 ^ 31" by simp
  ultimately have x: "x < 2 * 2147483647" by (simp add: x_def)
  have val: "unat (Random_Next s) = (if x > 2147483647 then x - 2147483647 else x)"
    using unat_Random_Next [of s] s by (simp add: p_def [symmetric] x_def Let_def)
  also have "\<dots> = x mod 2147483647"
    using x nd by (cases "x = 2147483647") (auto simp: mod_if not_less)
  also have "\<dots> = p mod 2147483647" by (subst p) simp
  finally show eq: "unat (Random_Next s) = (unat s * 16807) mod 2147483647" by (simp add: p_def)
  show "unat (Random_Next s) < 2147483647" unfolding eq by simp
  show "0 < unat (Random_Next s)"
    unfolding eq p_def [symmetric] using \<open>\<not> 2147483647 dvd p\<close> by (simp add: dvd_eq_mod_eq_0)
qed

theorem random_next_is_modular_witness:
  "unat (Random_Next 2000000000) = 1585957156"
  using random_next_is_modular [of 2000000000] by simp

section \<open>The map from buckets to servers\<close>

record vbucket_config =
  replicas :: int
  algorithm :: "byte list"
  server_list :: "byte list list"
  server_health :: "int list"
  rand :: "32 word"
  vbucket_map :: "int list list"

definition BAD_SERVER_ID :: nat where
  "BAD_SERVER_ID = 65535"

definition INIT_WEIGHT :: int where "INIT_WEIGHT = 1000"
definition MAX_WEIGHT :: int where "MAX_WEIGHT = 1000000"
definition MIN_WEIGHT :: int where "MIN_WEIGHT = 100"

lemmas weights = INIT_WEIGHT_def MAX_WEIGHT_def MIN_WEIGHT_def

definition VbucketConfig_new :: "32 word \<Rightarrow> vbucket_config" where
  "VbucketConfig_new time = \<lparr>replicas = 0, algorithm = [], server_list = [], server_health = [],
     rand = Random_new time, vbucket_map = []\<rparr>"

definition VbucketConfig_clear :: "vbucket_config \<Rightarrow> vbucket_config" where
  "VbucketConfig_clear c = c\<lparr>replicas := 0, algorithm := [], server_health := [], server_list := [], vbucket_map := []\<rparr>"

definition vec_at :: "'a list \<Rightarrow> int \<Rightarrow> 'a option" where
  "vec_at xs i = (if 0 \<le> i \<and> nat i < length xs then Some (xs ! nat i) else None)"
  \<comment> \<open>\<^verbatim>\<open>operator[]\<close> of a vector\<close>

definition bucket :: "nat \<Rightarrow> vbucket_config \<Rightarrow> int list option" where
  "bucket vb c = do {
     require (vbucket_map c \<noteq> []);
     Some (vbucket_map c ! (vb mod length (vbucket_map c))) }"

definition SelectServerFirstId :: "nat \<Rightarrow> vbucket_config \<Rightarrow> nat option" where
  "SelectServerFirstId vb c = do {
     ids \<leftarrow> bucket vb c;
     i \<leftarrow> vec_at ids 0;
     Some (nat (i mod 65536)) }"

type_synonym weighted = "(int \<times> nat) list"
  \<comment> \<open>\<^verbatim>\<open>std::map<int64_t, uint16_t>\<close>, in the order of its keys\<close>

definition map_put :: "int \<Rightarrow> nat \<Rightarrow> weighted \<Rightarrow> weighted" where
  "map_put k v m = insort_key fst (k, v) (filter (\<lambda>e. fst e \<noteq> k) m)"

definition upper_bound :: "int \<Rightarrow> weighted \<Rightarrow> (int \<times> nat) option" where
  "upper_bound k m = find (\<lambda>e. k < fst e) m"

fun weigh :: "int list \<Rightarrow> nat \<Rightarrow> int list \<Rightarrow> int \<Rightarrow> weighted \<Rightarrow> (int \<times> weighted) option" where
  "weigh health last_id [] total_weight items = Some (total_weight, items)"
| "weigh health last_id (i # ids) total_weight items =
     (if i = int last_id then weigh health last_id ids total_weight items
      else do {
        w \<leftarrow> vec_at health i;
        let total_weight = total_weight + w;
        weigh health last_id ids total_weight (map_put total_weight (nat (i mod 65536)) items) })"

definition raise_health :: "nat \<Rightarrow> int list \<Rightarrow> int list option" where
  "raise_health i h = do {
     w \<leftarrow> vec_at h (int i);
     Some (h[i := (if w + 1000 > MAX_WEIGHT then MAX_WEIGHT else w + 1000)]) }"

definition halve :: "int \<Rightarrow> int" where
  "halve w = sgn w * (\<bar>w\<bar> div 2)"
  \<comment> \<open>division of C++, which rounds towards zero\<close>

definition lower_health :: "nat \<Rightarrow> int list \<Rightarrow> int list" where
  "lower_health i h =
     (if i < length h then h[i := (if halve (h ! i) \<le> MIN_WEIGHT then 100 else halve (h ! i))] else h)"

definition SelectServerId :: "nat \<Rightarrow> nat \<Rightarrow> vbucket_config \<Rightarrow> (nat \<times> vbucket_config) option" where
  "SelectServerId vb last_id c = do {
     ids \<leftarrow> bucket vb c;
     (total_weight, items) \<leftarrow> weigh (server_health c) last_id ids 0 [];
     if total_weight > 0 then do {
       let s = Random_Next (rand c);
       (k, server_id) \<leftarrow> upper_bound (uint s mod total_weight) items;
       h \<leftarrow> raise_health server_id (server_health c);
       Some (server_id, c\<lparr>rand := s, server_health := lower_health last_id h\<rparr>) }
     else Some (BAD_SERVER_ID, c) }"

definition GetVbucketByKey :: "(byte list \<Rightarrow> byte list \<Rightarrow> nat) \<Rightarrow> byte list \<Rightarrow> vbucket_config \<Rightarrow> nat option" where
  "GetVbucketByKey digest key c = do {
     require (vbucket_map c \<noteq> []);
     Some (digest (algorithm c) key mod length (vbucket_map c) mod 65536) }"
  \<comment> \<open>\<open>digest\<close> is the hash of the key by the algorithm of that name\<close>

definition GetServerAddrById :: "nat \<Rightarrow> vbucket_config \<Rightarrow> byte list option" where
  "GetServerAddrById i c = vec_at (server_list c) (int i)"

record conf_doc =
  numReplicas :: int
  hashAlgorithm :: "byte list"
  serverList :: "byte list list"
  vBucketMap :: "int list list"
  \<comment> \<open>the members of the parsed configuration that are read\<close>

definition VbucketConfig_Load :: "conf_doc \<Rightarrow> vbucket_config \<Rightarrow> vbucket_config" where
  "VbucketConfig_Load d c = c\<lparr>replicas := numReplicas d, algorithm := hashAlgorithm d,
     server_list := server_list c @ serverList d,
     server_health := server_health c @ replicate (length (serverList d)) INIT_WEIGHT,
     vbucket_map := vbucket_map c @ vBucketMap d\<rparr>"

section \<open>The two modes\<close>

datatype conf_mode = CLUSTER_MODE | STAND_ALONE_MODE

record multi_config =
  conf :: vbucket_config
  mode :: conf_mode
  single_server :: "byte list list"

fun scan_server :: "byte list \<Rightarrow> bool \<Rightarrow> bool" where
  "scan_server [] has_semicolon = has_semicolon"
| "scan_server (c # cs) has_semicolon =
     (if c = CHR ''/'' then False else scan_server cs (has_semicolon \<or> c = CHR '':''))"

definition IsStandAlone :: "byte list \<Rightarrow> bool" where
  "IsStandAlone serv = scan_server serv False"

definition Multi_Load :: "(byte list \<Rightarrow> byte list option) \<Rightarrow> (byte list \<Rightarrow> conf_doc option) \<Rightarrow> byte list \<Rightarrow> multi_config
    \<Rightarrow> (bool \<times> multi_config) option" where
  "Multi_Load context parse file m =
     (if IsStandAlone file
      then Some (True, m\<lparr>mode := STAND_ALONE_MODE, single_server := single_server m @ [file]\<rparr>)
      else let m = m\<lparr>mode := CLUSTER_MODE\<rparr>
           in case context file of
                None \<Rightarrow> Some (False, m)
              | Some t \<Rightarrow> do { d \<leftarrow> parse t; Some (True, m\<lparr>conf := VbucketConfig_Load d (conf m)\<rparr>) })"

definition Multi_clear :: "multi_config \<Rightarrow> multi_config" where
  "Multi_clear m = m\<lparr>single_server := [], conf := VbucketConfig_clear (conf m)\<rparr>"

definition Multi_GetVbucketByKey :: "(byte list \<Rightarrow> byte list \<Rightarrow> nat) \<Rightarrow> byte list \<Rightarrow> multi_config \<Rightarrow> nat option" where
  "Multi_GetVbucketByKey digest key m =
     (if mode m \<noteq> STAND_ALONE_MODE then GetVbucketByKey digest key (conf m) else Some 0)"

definition Multi_SelectServerFirstId :: "nat \<Rightarrow> multi_config \<Rightarrow> nat option" where
  "Multi_SelectServerFirstId vb m =
     (if mode m \<noteq> STAND_ALONE_MODE then SelectServerFirstId vb (conf m) else Some 0)"

definition Multi_SelectServerId :: "nat \<Rightarrow> nat \<Rightarrow> multi_config \<Rightarrow> (nat \<times> multi_config) option" where
  "Multi_SelectServerId vb last_id m =
     (if mode m \<noteq> STAND_ALONE_MODE
      then do { (i, c) \<leftarrow> SelectServerId vb last_id (conf m); Some (i, m\<lparr>conf := c\<rparr>) }
      else Some (0, m))"

definition Multi_GetServerAddrById :: "nat \<Rightarrow> multi_config \<Rightarrow> byte list option" where
  "Multi_GetServerAddrById i m =
     (if mode m \<noteq> STAND_ALONE_MODE then GetServerAddrById i (conf m)
      else do { require (length (single_server m) = 1); Some (single_server m ! 0) })"

definition Multi_server_list :: "multi_config \<Rightarrow> byte list list" where
  "Multi_server_list m = (if mode m \<noteq> STAND_ALONE_MODE then server_list (conf m) else single_server m)"

section \<open>Choosing a server\<close>

definition config_ok :: "vbucket_config \<Rightarrow> bool" where
  "config_ok c \<longleftrightarrow> vbucket_map c \<noteq> [] \<and> length (server_health c) = length (server_list c)
     \<and> length (server_list c) < 65536
     \<and> (\<forall>ids \<in> set (vbucket_map c). \<forall>i \<in> set ids. 0 \<le> i \<and> nat i < length (server_list c))
     \<and> (\<forall>w \<in> set (server_health c). MIN_WEIGHT \<le> w \<and> w \<le> MAX_WEIGHT)"

definition doc_ok :: "conf_doc \<Rightarrow> bool" where
  "doc_ok d \<longleftrightarrow> vBucketMap d \<noteq> [] \<and> length (serverList d) < 65536
     \<and> (\<forall>ids \<in> set (vBucketMap d). \<forall>i \<in> set ids. 0 \<le> i \<and> nat i < length (serverList d))"

fun cumulated :: "int list \<Rightarrow> int \<Rightarrow> int list \<Rightarrow> weighted" where
  "cumulated h t [] = []"
| "cumulated h t (i # ids) = (t + h ! nat i, nat i) # cumulated h (t + h ! nat i) ids"
  \<comment> \<open>the table of running totals\<close>

definition health_of :: "int list \<Rightarrow> int list \<Rightarrow> int" where
  "health_of h ids = (\<Sum>i\<leftarrow>ids. h ! nat i)"

definition candidates :: "nat \<Rightarrow> nat \<Rightarrow> vbucket_config \<Rightarrow> int list" where
  "candidates vb last_id c = filter (\<lambda>i. i \<noteq> int last_id) (vbucket_map c ! (vb mod length (vbucket_map c)))"
  \<comment> \<open>the servers of a bucket other than the last one\<close>

lemma insort_last: "\<forall>e \<in> set m. fst e < k \<Longrightarrow> insort_key fst (k, v) m = m @ [(k, v)]" for m :: weighted
  by (induction m) auto

lemma map_put_last: "\<forall>e \<in> set m. fst e < k \<Longrightarrow> map_put k v m = m @ [(k, v)]"
proof -
  assume m: "\<forall>e \<in> set m. fst e < k"
  then have "filter (\<lambda>e. fst e \<noteq> k) m = m" by (auto simp: filter_id_conv)
  then show ?thesis unfolding map_put_def using insort_last [OF m] by simp
qed

lemma weigh_cumulated:
  assumes "\<forall>i \<in> set ids. 0 \<le> i \<and> nat i < length h" and "length h < 65536" and "\<forall>w \<in> set h. 0 < w"
    and "\<forall>e \<in> set items. fst e \<le> t"
  shows "weigh h l ids t items =
    (let others = filter (\<lambda>i. i \<noteq> int l) ids in Some (t + health_of h others, items @ cumulated h t others))"
  using assms
proof (induction ids arbitrary: t items)
  case (Cons i ids)
  show ?case
  proof (cases "i = int l")
    case True
    then show ?thesis using Cons.IH [of items t] Cons.prems by simp
  next
    case False
    have i: "0 \<le> i" "nat i < length h" using Cons.prems by simp_all
    then have id: "i mod 65536 = i" using Cons.prems(2) by (intro mod_pos_pos_trivial) auto
    have w: "0 < h ! nat i" using i Cons.prems(3) by simp
    then have put: "map_put (t + h ! nat i) (nat i) items = items @ [(t + h ! nat i, nat i)]"
      using Cons.prems(4) by (intro map_put_last) force
    have "\<forall>e \<in> set (items @ [(t + h ! nat i, nat i)]). fst e \<le> t + h ! nat i"
      using Cons.prems(4) w by force
    then show ?thesis
      using False i id put Cons.prems Cons.IH [of "items @ [(t + h ! nat i, nat i)]" "t + h ! nat i"]
      by (simp add: vec_at_def health_of_def Let_def)
  qed
qed (simp add: health_of_def)

lemma health_of_nonneg:
  "\<forall>i \<in> set ids. nat i < length h \<Longrightarrow> \<forall>w \<in> set h. 0 < w \<Longrightarrow> 0 \<le> health_of h ids"
  unfolding health_of_def by (intro sum_list_nonneg) (auto simp: less_imp_le)

lemma health_of_pos:
  assumes "\<forall>i \<in> set ids. nat i < length h" and "\<forall>w \<in> set h. 0 < w"
  shows "0 < health_of h ids \<longleftrightarrow> ids \<noteq> []"
proof (cases ids)
  case (Cons i js)
  then have "0 < h ! nat i" "0 \<le> health_of h js" using assms health_of_nonneg [of js h] by auto
  then show ?thesis using Cons by (simp add: health_of_def)
qed (simp add: health_of_def)

lemma cumulated_hit:
  assumes "\<forall>i \<in> set ids. nat i < length h" and "\<forall>w \<in> set h. 0 < w" and "t \<le> v" and "v < t + health_of h ids"
  shows "\<exists>k i. upper_bound v (cumulated h t ids) = Some (k, nat i) \<and> i \<in> set ids"
  using assms
proof (induction ids arbitrary: t)
  case (Cons i ids)
  show ?case
  proof (cases "v < t + h ! nat i")
    case False
    then show ?thesis using Cons.IH [of "t + h ! nat i"] Cons.prems
      by (auto simp: health_of_def upper_bound_def)
  qed (auto simp: upper_bound_def)
qed (simp add: health_of_def)

lemma cumulated_share:
  assumes "\<forall>i \<in> set ids. 0 \<le> i \<and> nat i < length h" and "\<forall>w \<in> set h. 0 < w"
  shows "int (card {v. t \<le> v \<and> v < t + health_of h ids \<and> (\<exists>k. upper_bound v (cumulated h t ids) = Some (k, j))})
     = health_of h (filter (\<lambda>i. nat i = j) ids)"
  using assms
proof (induction ids arbitrary: t)
  case (Cons i ids)
  let ?w = "h ! nat i" and ?hit = "\<lambda>t ids v. \<exists>k. upper_bound v (cumulated h t ids) = Some (k, j)"
  have w: "0 < ?w" and ge: "0 \<le> health_of h ids"
    using Cons.prems health_of_nonneg [of ids h] by auto
  let ?A = "{v. t \<le> v \<and> v < t + ?w \<and> nat i = j}"
    and ?B = "{v. t + ?w \<le> v \<and> v < t + ?w + health_of h ids \<and> ?hit (t + ?w) ids v}"
  have fin: "finite ?B" by (rule finite_subset [of _ "{t + ?w ..< t + ?w + health_of h ids}"]) auto
  have split: "{v. t \<le> v \<and> v < t + health_of h (i # ids) \<and> ?hit t (i # ids) v} = ?A \<union> ?B"
    using w ge by (auto simp: health_of_def upper_bound_def)
  have A: "?A = (if nat i = j then {t ..< t + ?w} else {})" by auto
  have cA: "finite ?A" "int (card ?A) = (if nat i = j then ?w else 0)"
    unfolding A using less_imp_le [OF w] by (cases "nat i = j", auto)+
  have "?A \<inter> ?B = {}" by auto
  then have "int (card (?A \<union> ?B)) = int (card ?A) + int (card ?B)"
    using card_Un_disjoint [OF cA(1) fin] by simp
  also have "\<dots> = (if nat i = j then ?w else 0) + health_of h (filter (\<lambda>i. nat i = j) ids)"
    using cA(2) Cons by simp
  finally show ?case unfolding split by (simp add: health_of_def)
qed (simp add: health_of_def upper_bound_def)

lemma raise_health_ok:
  assumes "i < length h" and "\<forall>w \<in> set h. MIN_WEIGHT \<le> w \<and> w \<le> MAX_WEIGHT"
  shows "\<exists>h'. raise_health i h = Some h' \<and> length h' = length h \<and> (\<forall>w \<in> set h'. MIN_WEIGHT \<le> w \<and> w \<le> MAX_WEIGHT)"
proof -
  have "100 \<le> h ! i" using assms nth_mem [of i h] unfolding weights by blast
  then have "0 \<le> 900 + h ! i" by simp
  then show ?thesis
    using assms by (auto simp: raise_health_def vec_at_def weights dest!: subsetD [OF set_update_subset_insert])
qed

lemma lower_health_ok:
  assumes "\<forall>w \<in> set h. MIN_WEIGHT \<le> w \<and> w \<le> MAX_WEIGHT"
  shows "length (lower_health i h) = length h \<and> (\<forall>w \<in> set (lower_health i h). MIN_WEIGHT \<le> w \<and> w \<le> MAX_WEIGHT)"
proof (cases "i < length h")
  case True
  then have "MIN_WEIGHT \<le> h ! i" "h ! i \<le> MAX_WEIGHT" using assms by simp_all
  then have "halve (h ! i) \<le> MAX_WEIGHT" by (simp add: halve_def weights sgn_if)
  then show ?thesis
    using assms True by (auto simp: lower_health_def weights dest!: subsetD [OF set_update_subset_insert])
qed (use assms in \<open>simp add: lower_health_def\<close>)

lemma SelectServerId_cases:
  fixes c vb l
  defines "ids \<equiv> candidates vb l c"
  assumes "config_ok c"
  shows "(ids = [] \<and> SelectServerId vb l c = Some (BAD_SERVER_ID, c))
    \<or> (\<exists>k i h. 0 < health_of (server_health c) ids \<and> i \<in> set ids
        \<and> upper_bound (uint (Random_Next (rand c)) mod health_of (server_health c) ids) (cumulated (server_health c) 0 ids) = Some (k, nat i)
        \<and> raise_health (nat i) (server_health c) = Some h
        \<and> SelectServerId vb l c = Some (nat i, c\<lparr>rand := Random_Next (rand c), server_health := lower_health l h\<rparr>))"
proof -
  let ?all = "vbucket_map c ! (vb mod length (vbucket_map c))" and ?h = "server_health c"
  have c: "vbucket_map c \<noteq> []" "length ?h < 65536" "\<forall>w \<in> set ?h. MIN_WEIGHT \<le> w \<and> w \<le> MAX_WEIGHT"
    using assms(2) by (auto simp: config_ok_def)
  then have pos: "\<forall>w \<in> set ?h. 0 < w" by (auto simp: weights)
  have all: "\<forall>i \<in> set ?all. 0 \<le> i \<and> nat i < length ?h"
    using assms(2) by (auto simp: config_ok_def)
  then have ids: "\<forall>i \<in> set ids. nat i < length ?h" by (simp add: ids_def candidates_def)
  have w: "weigh ?h l ?all 0 [] = Some (health_of ?h ids, cumulated ?h 0 ids)"
    using weigh_cumulated [OF all c(2) pos, of "[]" 0 l] by (simp add: ids_def candidates_def Let_def)
  show ?thesis
  proof (cases "ids = []")
    case True
    then show ?thesis using c(1) w health_of_pos [OF ids pos] by (simp add: SelectServerId_def bucket_def)
  next
    case False
    then have t: "0 < health_of ?h ids" using health_of_pos [OF ids pos] by simp
    obtain k i where hit: "upper_bound (uint (Random_Next (rand c)) mod health_of ?h ids) (cumulated ?h 0 ids) = Some (k, nat i)"
        "i \<in> set ids"
      using cumulated_hit [OF ids pos, of 0 "uint (Random_Next (rand c)) mod health_of ?h ids"] t by auto
    then obtain h where h: "raise_health (nat i) ?h = Some h" using raise_health_ok [OF _ c(3)] ids by blast
    have "SelectServerId vb l c = Some (nat i, c\<lparr>rand := Random_Next (rand c), server_health := lower_health l h\<rparr>)"
      using c(1) w hit(1) h t by (simp add: SelectServerId_def bucket_def Let_def)
    with t hit h show ?thesis by blast
  qed
qed

text \<open>C34. In a map whose ids are in range the choice always succeeds, and it gives only servers that hold
  the bucket and are not the one that failed last. The chance of a server is its share of the
  health: of the residues \<open>0 \<le> v < T\<close>, where \<open>T\<close> is the sum of the healths, exactly as many select server \<open>j\<close>
  as \<open>j\<close> has health. If no other server holds the bucket, the answer is \<^verbatim>\<open>BAD_SERVER_ID\<close>.\<close>

theorem choice_follows_health:
  fixes c vb last_id
  defines "ids \<equiv> candidates vb last_id c" and "h \<equiv> server_health c"
  assumes "config_ok c"
  shows "\<exists>j c'. SelectServerId vb last_id c = Some (j, c')
    \<and> (if ids = [] then j = BAD_SERVER_ID
       else int j \<in> set ids
         \<and> (\<exists>T items k. weigh h last_id (vbucket_map c ! (vb mod length (vbucket_map c))) 0 [] = Some (T, items)
              \<and> T = health_of h ids
              \<and> upper_bound (uint (Random_Next (rand c)) mod T) items = Some (k, j)
              \<and> int (card {v. 0 \<le> v \<and> v < T \<and> (\<exists>k. upper_bound v items = Some (k, j))})
                  = health_of h (filter (\<lambda>i. i = int j) ids)))"
proof -
  let ?all = "vbucket_map c ! (vb mod length (vbucket_map c))"
  have c: "length h < 65536" and pos: "\<forall>w \<in> set h. 0 < w" and all: "\<forall>i \<in> set ?all. 0 \<le> i \<and> nat i < length h"
    using assms(3) by (auto simp: config_ok_def weights h_def)
  then have ids: "\<forall>i \<in> set ids. 0 \<le> i \<and> nat i < length h" by (simp add: ids_def candidates_def)
  have w: "weigh h last_id ?all 0 [] = Some (health_of h ids, cumulated h 0 ids)"
    using weigh_cumulated [OF all c pos, of "[]" 0 last_id] by (simp add: ids_def candidates_def Let_def)
  have flt: "filter (\<lambda>i'. nat i' = nat i) ids = filter (\<lambda>i'. i' = i) ids" if "i \<in> set ids" for i
    using that ids by (intro filter_cong refl) (metis eq_nat_nat_iff)
  from SelectServerId_cases [OF assms(3), of vb last_id, folded ids_def h_def] show ?thesis
  proof (elim disjE conjE exE)
    fix k i h' assume a: "i \<in> set ids"
        "upper_bound (uint (Random_Next (rand c)) mod health_of h ids) (cumulated h 0 ids) = Some (k, nat i)"
        "SelectServerId vb last_id c = Some (nat i, c\<lparr>rand := Random_Next (rand c), server_health := lower_health last_id h'\<rparr>)"
    have "int (nat i) = i" using a(1) ids by auto
    with a show ?thesis using w cumulated_share [OF ids pos, of 0 "nat i"] flt [OF a(1)]
      by (intro exI [of _ "nat i"] exI [of _ "c\<lparr>rand := Random_Next (rand c), server_health := lower_health last_id h'\<rparr>"])
        auto
  qed auto
qed

definition three_servers :: conf_doc where
  "three_servers = \<lparr>numReplicas = 1, hashAlgorithm = ''MD5'', serverList = [''a:1'', ''b:1'', ''c:1''],
     vBucketMap = [[0, 1, 2], [0, 2]]\<rparr>"

theorem choice_follows_health_witness:
  "\<exists>j c'. SelectServerId 0 0 (VbucketConfig_Load three_servers (VbucketConfig_new 7)) = Some (j, c')
    \<and> int j \<in> {1, 2}
    \<and> int (card {v. 0 \<le> v \<and> v < 2000 \<and> (\<exists>k. upper_bound v [(1000, 1), (2000, 2)] = Some (k, j))}) = 1000"
proof -
  let ?c = "VbucketConfig_Load three_servers (VbucketConfig_new 7)"
  have c: "config_ok ?c" "candidates 0 0 ?c = [1, 2]" "server_health ?c = [1000, 1000, 1000]"
      "vbucket_map ?c ! (0 mod length (vbucket_map ?c)) = [0, 1, 2]"
    by (auto simp: config_ok_def candidates_def three_servers_def VbucketConfig_Load_def VbucketConfig_new_def weights
        numeral_3_eq_3)
  have w: "weigh [1000, 1000, 1000] 0 [0, 1, 2] 0 [] = Some (2000, [(1000, 1), (2000, 2)])"
    by (simp add: vec_at_def map_put_def)
  from choice_follows_health [OF c(1), of 0 0, unfolded c w] show ?thesis
    by (auto simp: health_of_def)
qed

section \<open>Sequences of choices\<close>

primrec selections :: "(nat \<Rightarrow> nat \<Rightarrow> 'm \<Rightarrow> (nat \<times> 'm) option) \<Rightarrow> (nat \<times> nat) list \<Rightarrow> 'm \<Rightarrow> (nat list \<times> 'm) option" where
  "selections select [] m = Some ([], m)"
| "selections select (r # rs) m = do {
     (i, m) \<leftarrow> select (fst r) (snd r) m;
     (is, m) \<leftarrow> selections select rs m;
     Some (i # is, m) }"
  \<comment> \<open>a sequence of choices for buckets and last servers\<close>

text \<open>What a client of a server map relies on: a choice returns, keeps the map well formed and the addresses as they
  are, and names a server that has an address, or none.\<close>

locale server_directory =
  fixes dir_ok :: "'m \<Rightarrow> bool" and addr :: "nat \<Rightarrow> 'm \<Rightarrow> 'a option"
    and select :: "nat \<Rightarrow> nat \<Rightarrow> 'm \<Rightarrow> (nat \<times> 'm) option"
  assumes select_ok: "dir_ok m \<Longrightarrow> \<exists>i m'. select vb l m = Some (i, m') \<and> dir_ok m' \<and> (\<forall>j. addr j m' = addr j m)
      \<and> (i = BAD_SERVER_ID \<or> addr i m \<noteq> None)"
begin

lemma select_obtains:
  assumes "dir_ok m"
  obtains i m' where "select vb l m = Some (i, m')" "dir_ok m'" "\<And>j. addr j m' = addr j m"
    "i = BAD_SERVER_ID \<or> addr i m \<noteq> None"
  using select_ok [OF assms, of vb l] by blast

lemma selections_ok:
  assumes "dir_ok m"
  shows "\<exists>js m'. selections select rs m = Some (js, m') \<and> dir_ok m' \<and> (\<forall>j. addr j m' = addr j m) \<and> length js = length rs
    \<and> list_all (\<lambda>j. j = BAD_SERVER_ID \<or> addr j m \<noteq> None) js"
  using assms
proof (induction rs arbitrary: m)
  case (Cons r rs)
  obtain i m1 where 1: "select (fst r) (snd r) m = Some (i, m1)" "dir_ok m1" "\<And>j. addr j m1 = addr j m"
      "i = BAD_SERVER_ID \<or> addr i m \<noteq> None"
    using select_obtains [OF Cons.prems, of "fst r" "snd r"] by metis
  with Cons.IH [of m1] show ?case by auto
qed auto

end

lemma SelectServerId_ok:
  assumes "config_ok c"
  shows "\<exists>j c'. SelectServerId vb l c = Some (j, c') \<and> config_ok c' \<and> server_list c' = server_list c
     \<and> vbucket_map c' = vbucket_map c \<and> (j = BAD_SERVER_ID \<and> candidates vb l c = [] \<or> j < length (server_list c))"
  using SelectServerId_cases [OF assms, of vb l]
proof (elim disjE conjE exE)
  fix k i h assume a: "i \<in> set (candidates vb l c)" "raise_health (nat i) (server_health c) = Some h"
    "SelectServerId vb l c = Some (nat i, c\<lparr>rand := Random_Next (rand c), server_health := lower_health l h\<rparr>)"
  have i: "nat i < length (server_list c)" "nat i < length (server_health c)"
    using a(1) assms by (auto simp: config_ok_def candidates_def)
  have h: "length h = length (server_health c)" "\<forall>w \<in> set h. MIN_WEIGHT \<le> w \<and> w \<le> MAX_WEIGHT"
    using raise_health_ok [OF i(2)] a(2) assms by (auto simp: config_ok_def)
  show ?thesis using a(3) i(1) assms h lower_health_ok [OF h(2), of l] by (auto simp: config_ok_def)
qed (use assms in auto)

interpretation cluster: server_directory config_ok GetServerAddrById SelectServerId
proof unfold_locales
  fix c vb l assume "config_ok c"
  from SelectServerId_ok [OF this, of vb l] show "\<exists>i m'. SelectServerId vb l c = Some (i, m') \<and> config_ok m'
      \<and> (\<forall>j. GetServerAddrById j m' = GetServerAddrById j c) \<and> (i = BAD_SERVER_ID \<or> GetServerAddrById i c \<noteq> None)"
    by (auto simp: GetServerAddrById_def vec_at_def)
qed

definition multi_ok :: "multi_config \<Rightarrow> bool" where
  "multi_ok m \<longleftrightarrow> (case mode m of STAND_ALONE_MODE \<Rightarrow> length (single_server m) = 1
     | CLUSTER_MODE \<Rightarrow> config_ok (conf m) \<and> [] \<notin> set (vbucket_map (conf m)))"

lemma Multi_SelectServerId_ok:
  assumes "multi_ok m"
  shows "\<exists>i m'. Multi_SelectServerId vb l m = Some (i, m') \<and> multi_ok m'
    \<and> (\<forall>j. Multi_GetServerAddrById j m' = Multi_GetServerAddrById j m)
    \<and> (i = BAD_SERVER_ID \<and> mode m = CLUSTER_MODE \<and> candidates vb l (conf m) = [] \<or> Multi_GetServerAddrById i m \<noteq> None)"
proof (cases "mode m")
  case CLUSTER_MODE
  then have "config_ok (conf m)" using assms by (simp add: multi_ok_def)
  from SelectServerId_ok [OF this, of vb l] show ?thesis
    using assms CLUSTER_MODE
    by (auto simp: multi_ok_def Multi_SelectServerId_def Multi_GetServerAddrById_def GetServerAddrById_def vec_at_def)
qed (use assms in \<open>auto simp: multi_ok_def Multi_SelectServerId_def Multi_GetServerAddrById_def\<close>)

interpretation multi: server_directory multi_ok Multi_GetServerAddrById Multi_SelectServerId
proof unfold_locales
  fix m vb l assume "multi_ok m"
  from Multi_SelectServerId_ok [OF this, of vb l] show "\<exists>i m'. Multi_SelectServerId vb l m = Some (i, m') \<and> multi_ok m'
      \<and> (\<forall>j. Multi_GetServerAddrById j m' = Multi_GetServerAddrById j m)
      \<and> (i = BAD_SERVER_ID \<or> Multi_GetServerAddrById i m \<noteq> None)"
    by blast
qed

text \<open>C35. A configuration whose ids are in range, once loaded into an empty map, stays well formed through
  every sequence of choices: none of them faults, every answer is a server of the list or
  \<^verbatim>\<open>BAD_SERVER_ID\<close>, and every health stays between \<^verbatim>\<open>MIN_WEIGHT\<close> and \<^verbatim>\<open>MAX_WEIGHT\<close>.\<close>

theorem loaded_config_stays_ok:
  assumes "doc_ok d"
  shows "\<exists>js c. selections SelectServerId rs (VbucketConfig_Load d (VbucketConfig_new time)) = Some (js, c)
    \<and> config_ok c \<and> length js = length rs
    \<and> list_all (\<lambda>j. j = BAD_SERVER_ID \<or> GetServerAddrById j c \<noteq> None) js"
proof -
  have "config_ok (VbucketConfig_Load d (VbucketConfig_new time))"
    using assms by (auto simp: config_ok_def doc_ok_def VbucketConfig_Load_def VbucketConfig_new_def weights)
  from cluster.selections_ok [OF this, of rs] show ?thesis by auto
qed

theorem loaded_config_stays_ok_witness:
  "\<exists>js c. selections SelectServerId [(0, 65535), (1, 0)] (VbucketConfig_Load three_servers (VbucketConfig_new 7)) = Some (js, c)
    \<and> config_ok c \<and> length js = 2"
  using loaded_config_stays_ok [of three_servers "[(0, 65535), (1, 0)]" 7] by (auto simp: three_servers_def doc_ok_def)

end
