(* ===== verification/McCommand.thy ===== *)
theory McCommand
  imports Buffer Vbucket
begin

text \<open>
  The commands of the memcached client (\<^verbatim>\<open>command.h\<close>, \<^verbatim>\<open>command.cc\<close>, \<^verbatim>\<open>mctypes.h\<close> in \<^verbatim>\<open>src/apps/evmc\<close>): the
  bytes they send, what they do with an answer or an error, and the handler that the parts of a
  multi-key command share. A command is a value that is in one place at a time; its \<open>tag\<close> stands for
  the identity of the object. Handlers are shared and live in a store. Callbacks are recorded in the
  order of their calls, whether made directly or through the caller's loop, which is taken to exist;
  \<open>done_tags\<close> records which commands are done.
\<close>

section \<open>Results, handlers and commands\<close>

abbreviation ERR_CODE_TIMEOUT :: int where "ERR_CODE_TIMEOUT \<equiv> -1"
abbreviation ERR_CODE_NETWORK :: int where "ERR_CODE_NETWORK \<equiv> -2"
abbreviation ERR_CODE_DISCONNECT :: int where "ERR_CODE_DISCONNECT \<equiv> -3"

record get_result =
  code :: int
  val :: "byte list"

record prefix_result =
  pcode :: int
  result_map :: "byte list \<rightharpoonup> byte list"

definition GetResult_new :: get_result where
  "GetResult_new = \<lparr>code = 1, val = []\<rparr>"

definition PrefixGetResult_new :: prefix_result where
  "PrefixGetResult_new = \<lparr>pcode = 1, result_map = Map.empty\<rparr>"

record id_info =
  keys :: "byte list list"
  vbuckets :: "nat list"

record 'r handler =
  serverid_keys :: "(nat \<times> id_info) list"
  finished_serverid_nums :: nat
  serverid_size :: nat
  mget_result :: "byte list \<rightharpoonup> 'r"

definition MultiKeyHandler_new :: "'r handler" where
  "MultiKeyHandler_new = \<lparr>serverid_keys = [], finished_serverid_nums = 0, serverid_size = 0, mget_result = Map.empty\<rparr>"

definition set_serverid_keys :: "(nat \<times> id_info) list \<Rightarrow> 'r handler \<Rightarrow> 'r handler" where
  "set_serverid_keys m h = h\<lparr>serverid_keys := m, serverid_size := length m\<rparr>"

definition FinishedOne :: "'r handler \<Rightarrow> nat \<times> 'r handler" where
  "FinishedOne h = (finished_serverid_nums h, h\<lparr>finished_serverid_nums := (finished_serverid_nums h + 1) mod 2 ^ 32\<rparr>)"

definition FindInfoByid :: "nat \<Rightarrow> 'r handler \<Rightarrow> id_info option" where
  "FindInfoByid i h = map_of (serverid_keys h) i"

definition FindKeysByid :: "nat \<Rightarrow> 'r handler \<Rightarrow> byte list list option" where
  "FindKeysByid i h = map_option keys (map_of (serverid_keys h) i)"

datatype cmd_kind =
    SetCommand "byte list" "byte list" nat nat
  | GetCommand "byte list"
  | RemoveCommand "byte list"
  | PrefixGetCommand "byte list" prefix_result
  | MultiGetCommand nat
  | PrefixMultiGetCommand nat
  | SerialMultiGetCommand "byte list" "byte list \<rightharpoonup> get_result"
  \<comment> \<open>key, value, flags and expiry; key and result; handler; packet and result\<close>

record command =
  kind :: cmd_kind
  cmd_id :: nat
  vbucket_id :: nat
  server_id_history :: "nat list"
  tag :: nat

definition mc_Command_new :: "nat \<Rightarrow> cmd_kind \<Rightarrow> nat \<Rightarrow> command" where
  "mc_Command_new vbucket k t = \<lparr>kind = k, cmd_id = 0, vbucket_id = vbucket, server_id_history = [], tag = t\<rparr>"

definition set_id :: "nat \<Rightarrow> command \<Rightarrow> command" where
  "set_id v c = c\<lparr>cmd_id := v\<rparr>"

definition set_server_id :: "nat \<Rightarrow> command \<Rightarrow> command" where
  "set_server_id sid c = c\<lparr>server_id_history := server_id_history c @ [sid]\<rparr>"

definition server_id :: "command \<Rightarrow> nat" where
  "server_id c = (if server_id_history c = [] then BAD_SERVER_ID else last (server_id_history c))"

definition ShouldRetry :: "command \<Rightarrow> bool" where
  "ShouldRetry c \<longleftrightarrow> length (server_id_history c) < 2"

datatype callback =
    SetCallback nat "byte list" int
  | GetCallback nat "byte list" get_result
  | RemoveCallback nat "byte list" int
  | PrefixGetCallback nat "byte list" prefix_result
  | MultiGetCallback nat "byte list \<rightharpoonup> get_result"
  | PrefixMultiGetCallback nat "byte list \<rightharpoonup> prefix_result"
  | SerialMultiGetCallback nat "byte list \<rightharpoonup> get_result"
  \<comment> \<open>with the tag of the command, or the handler\<close>

record world =
  get_handlers :: "nat \<Rightarrow> get_result handler"
  prefix_handlers :: "nat \<Rightarrow> prefix_result handler"
  called :: "callback list"
  done_tags :: "nat list"
  dropped_tags :: "nat list"
  \<comment> \<open>\<open>dropped_tags\<close>: commands taken from the queue by an answer of a kind they do not handle\<close>

definition make_call :: "callback \<Rightarrow> world \<Rightarrow> world" where
  "make_call b w = w\<lparr>called := called w @ [b]\<rparr>"

definition complete :: "command \<Rightarrow> world \<Rightarrow> world" where
  "complete c w = w\<lparr>done_tags := done_tags w @ [tag c]\<rparr>"

definition drop_command :: "command \<Rightarrow> world \<Rightarrow> world" where
  "drop_command c w = w\<lparr>dropped_tags := dropped_tags w @ [tag c]\<rparr>"

section \<open>Errors and answers\<close>

fun set_codes :: "('r \<Rightarrow> 'r) \<Rightarrow> byte list list \<Rightarrow> (byte list \<rightharpoonup> 'r) \<Rightarrow> (byte list \<rightharpoonup> 'r) option" where
  "set_codes f [] m = Some m"
| "set_codes f (k # ks) m = do { r \<leftarrow> m k; set_codes f ks (m(k \<mapsto> f r)) }"
  \<comment> \<open>the loop over the keys of a server; a missing key fails the assertion\<close>

definition finish_get :: "nat \<Rightarrow> world \<Rightarrow> world" where
  "finish_get i w =
     (let (fin, h) = FinishedOne (get_handlers w i);
          r = mget_result h
      in if (fin + 1) mod 2 ^ 32 \<ge> serverid_size h
         then make_call (MultiGetCallback i r) (w\<lparr>get_handlers := (get_handlers w)(i := h\<lparr>mget_result := Map.empty\<rparr>)\<rparr>)
         else w\<lparr>get_handlers := (get_handlers w)(i := h)\<rparr>)"
  \<comment> \<open>the result is moved into the callback\<close>

definition finish_prefix :: "bool \<Rightarrow> nat \<Rightarrow> world \<Rightarrow> world" where
  "finish_prefix moved i w =
     (let (fin, h) = FinishedOne (prefix_handlers w i);
          r = mget_result h;
          h' = (if moved then h\<lparr>mget_result := Map.empty\<rparr> else h)
      in if (fin + 1) mod 2 ^ 32 \<ge> serverid_size h
         then make_call (PrefixMultiGetCallback i r) (w\<lparr>prefix_handlers := (prefix_handlers w)(i := h')\<rparr>)
         else w\<lparr>prefix_handlers := (prefix_handlers w)(i := h)\<rparr>)"

definition fail_get_keys :: "int \<Rightarrow> command \<Rightarrow> nat \<Rightarrow> world \<Rightarrow> world option" where
  "fail_get_keys err c i w = do {
     let h = get_handlers w i;
     ks \<leftarrow> FindKeysByid (vbucket_id c) h;
     m \<leftarrow> set_codes (\<lambda>r. r\<lparr>code := err\<rparr>) ks (mget_result h);
     Some (w\<lparr>get_handlers := (get_handlers w)(i := h\<lparr>mget_result := m\<rparr>)\<rparr>) }"

definition fail_prefix_keys :: "int \<Rightarrow> command \<Rightarrow> nat \<Rightarrow> world \<Rightarrow> world option" where
  "fail_prefix_keys err c i w = do {
     let h = prefix_handlers w i;
     ks \<leftarrow> FindKeysByid (vbucket_id c) h;
     m \<leftarrow> set_codes (\<lambda>r. r\<lparr>pcode := err\<rparr>) ks (mget_result h);
     Some (w\<lparr>prefix_handlers := (prefix_handlers w)(i := h\<lparr>mget_result := m\<rparr>)\<rparr>) }"

definition OnError :: "int \<Rightarrow> command \<Rightarrow> world \<Rightarrow> world option" where
  "OnError err c w = map_option (complete c)
     (case kind c of
        SetCommand k v f e \<Rightarrow> Some (make_call (SetCallback (tag c) k err) w)
      | GetCommand k \<Rightarrow> Some (make_call (GetCallback (tag c) k \<lparr>code = err, val = []\<rparr>) w)
      | RemoveCommand k \<Rightarrow> Some (make_call (RemoveCallback (tag c) k err) w)
      | PrefixGetCommand k r \<Rightarrow> Some (make_call (PrefixGetCallback (tag c) k (r\<lparr>pcode := err\<rparr>)) w)
      | MultiGetCommand i \<Rightarrow> do { w \<leftarrow> fail_get_keys err c i w; Some (finish_get i w) }
      | PrefixMultiGetCommand i \<Rightarrow> do { w \<leftarrow> fail_prefix_keys err c i w; Some (finish_prefix False i w) }
      | SerialMultiGetCommand b m \<Rightarrow> Some (make_call (SerialMultiGetCallback (tag c) m) w))"

definition OnSetCommandDone :: "int \<Rightarrow> command \<Rightarrow> world \<Rightarrow> world" where
  "OnSetCommandDone resp c w =
     (case kind c of SetCommand k v f e \<Rightarrow> complete c (make_call (SetCallback (tag c) k resp) w)
      | _ \<Rightarrow> drop_command c w)"

definition OnRemoveCommandDone :: "int \<Rightarrow> command \<Rightarrow> world \<Rightarrow> world" where
  "OnRemoveCommandDone resp c w =
     (case kind c of RemoveCommand k \<Rightarrow> complete c (make_call (RemoveCallback (tag c) k resp) w)
      | _ \<Rightarrow> drop_command c w)"

definition OnGetCommandDone :: "int \<Rightarrow> byte list \<Rightarrow> command \<Rightarrow> world \<Rightarrow> world" where
  "OnGetCommandDone resp v c w =
     (case kind c of GetCommand k \<Rightarrow> complete c (make_call (GetCallback (tag c) k \<lparr>code = resp, val = v\<rparr>) w)
      | _ \<Rightarrow> drop_command c w)"

definition OnMultiGetCommandOneResponse :: "int \<Rightarrow> byte list \<Rightarrow> byte list \<Rightarrow> command \<Rightarrow> world \<Rightarrow> (command \<times> world) option" where
  "OnMultiGetCommandOneResponse resp k v c w =
     (case kind c of
        MultiGetCommand i \<Rightarrow>
          (if resp = 0 \<or> resp = 1
           then do {
             let h = get_handlers w i;
             r \<leftarrow> mget_result h k;
             Some (c, w\<lparr>get_handlers := (get_handlers w)
                          (i := h\<lparr>mget_result := (mget_result h)(k \<mapsto> r\<lparr>code := resp, val := v\<rparr>)\<rparr>)\<rparr>) }
           else do { w \<leftarrow> fail_get_keys resp c i w; Some (c, w) })
      | SerialMultiGetCommand b m \<Rightarrow>
          Some (c\<lparr>kind := SerialMultiGetCommand b (if m k = None then m(k \<mapsto> \<lparr>code = resp, val = v\<rparr>) else m)\<rparr>, w)
      | _ \<Rightarrow> Some (c, w))"

definition OnMultiGetCommandDone :: "int \<Rightarrow> byte list \<Rightarrow> byte list \<Rightarrow> command \<Rightarrow> world \<Rightarrow> world option" where
  "OnMultiGetCommandDone resp k v c w = do {
     (c, w) \<leftarrow> OnMultiGetCommandOneResponse resp k v c w;
     case kind c of
       MultiGetCommand i \<Rightarrow> Some (complete c (finish_get i w))
     | SerialMultiGetCommand b m \<Rightarrow> Some (complete c (make_call (SerialMultiGetCallback (tag c) m) w))
     | _ \<Rightarrow> Some (drop_command c w) }"

definition OnPrefixGetCommandDone :: "command \<Rightarrow> world \<Rightarrow> world" where
  "OnPrefixGetCommandDone c w =
     (case kind c of
        PrefixGetCommand k r \<Rightarrow> complete c (make_call (PrefixGetCallback (tag c) k r) w)
      | PrefixMultiGetCommand i \<Rightarrow> complete c (finish_prefix True i w)
      | _ \<Rightarrow> drop_command c w)"

section \<open>Requests\<close>

abbreviation (input) CMD_GET :: nat where "CMD_GET \<equiv> 0x00"
abbreviation (input) CMD_SET :: nat where "CMD_SET \<equiv> 0x01"
abbreviation (input) CMD_DELETE :: nat where "CMD_DELETE \<equiv> 0x04"
abbreviation (input) CMD_NOOP :: nat where "CMD_NOOP \<equiv> 0x0a"
abbreviation (input) CMD_GETK :: nat where "CMD_GETK \<equiv> 0x0c"
abbreviation (input) CMD_GETKQ :: nat where "CMD_GETKQ \<equiv> 0x0d"
abbreviation (input) CMD_PGETK :: nat where "CMD_PGETK \<equiv> 0x1b"
abbreviation (input) CMD_PGETKQ :: nat where "CMD_PGETKQ \<equiv> 0x1c"

definition request_header :: "endian \<Rightarrow> nat \<Rightarrow> nat \<Rightarrow> nat \<Rightarrow> nat \<Rightarrow> nat \<Rightarrow> nat \<Rightarrow> byte list" where
  "request_header e opcode keylen extlen vbucket bodylen opaque =
     [char_of (0x80 :: nat), char_of opcode] @ mem_repr e 2 (hton e 2 (keylen mod 2 ^ 16))
     @ [char_of extlen, char_of (0 :: nat)] @ mem_repr e 2 (hton e 2 vbucket)
     @ mem_repr e 4 (hton e 4 (bodylen mod 2 ^ 32)) @ mem_repr e 4 opaque @ replicate 8 (char_of (0 :: nat))"
  \<comment> \<open>\<^verbatim>\<open>protocol_binary_request_header\<close> in memory\<close>

definition key_request :: "endian \<Rightarrow> nat \<Rightarrow> byte list \<Rightarrow> nat \<Rightarrow> nat \<Rightarrow> byte list" where
  "key_request e opcode k vbucket opaque = request_header e opcode (length k) 0 vbucket (length k) opaque @ k"

fun PacketRequest :: "endian \<Rightarrow> nat \<Rightarrow> nat \<Rightarrow> byte list list \<Rightarrow> nat list \<Rightarrow> nat \<Rightarrow> byte list option" where
  "PacketRequest e quiet final [] vbs i = Some []"
| "PacketRequest e quiet final (k # ks) [] i = None"
| "PacketRequest e quiet final (k # ks) (vb # vbs) i = do {
     let opcode = (if ks \<noteq> [] then quiet else final);
     rest \<leftarrow> PacketRequest e quiet final ks vbs i;
     Some (key_request e opcode k vb i @ rest) }"
  \<comment> \<open>the two functions of that name differ in the opcodes\<close>

definition RequestBuffer :: "endian \<Rightarrow> command \<Rightarrow> world \<Rightarrow> byte list option" where
  "RequestBuffer e c w =
     (case kind c of
        SetCommand k v flags expire \<Rightarrow>
          Some (request_header e CMD_SET (length k) 8 (vbucket_id c) (8 + length k + length v) (cmd_id c)
                @ mem_repr e 4 (hton e 4 flags) @ mem_repr e 4 (hton e 4 expire) @ k @ v)
      | GetCommand k \<Rightarrow> Some (key_request e CMD_GET k (vbucket_id c) (cmd_id c))
      | RemoveCommand k \<Rightarrow> Some (key_request e CMD_DELETE k (vbucket_id c) (cmd_id c))
      | PrefixGetCommand k r \<Rightarrow> Some (key_request e CMD_PGETK k (vbucket_id c) (cmd_id c))
      | MultiGetCommand i \<Rightarrow> do {
          info \<leftarrow> FindInfoByid (server_id c) (get_handlers w i);
          PacketRequest e CMD_GETKQ CMD_GETK (keys info) (vbuckets info) (cmd_id c) }
      | PrefixMultiGetCommand i \<Rightarrow> do {
          info \<leftarrow> FindInfoByid (server_id c) (prefix_handlers w i);
          PacketRequest e CMD_PGETKQ CMD_PGETK (keys info) (vbuckets info) (cmd_id c) }
      | SerialMultiGetCommand b m \<Rightarrow> Some b)"
  \<comment> \<open>what \<^verbatim>\<open>Launch\<close> sends; \<^verbatim>\<open>SerialMultiGetCommand::Launch\<close> sends the packet it has\<close>

definition PacketRequests :: "endian \<Rightarrow> byte list list \<Rightarrow> command \<Rightarrow> command option" where
  "PacketRequests e ks c =
     (case kind c of
        SerialMultiGetCommand b m \<Rightarrow> do {
          buf \<leftarrow> PacketRequest e CMD_GETKQ CMD_GETK ks (replicate (length ks) 0) (cmd_id c);
          Some (c\<lparr>kind := SerialMultiGetCommand buf m\<rparr>) }
      | _ \<Rightarrow> None)"

section \<open>What a server reads\<close>

record mc_request =
  rq_opcode :: nat
  rq_vbucket :: nat
  rq_opaque :: nat
  rq_extras :: "byte list"
  rq_key :: "byte list"
  rq_value :: "byte list"

definition parse_request :: "endian \<Rightarrow> byte list \<Rightarrow> (mc_request \<times> byte list) option" where
  "parse_request e d =
     (let keylen = be_value (take 2 (drop 2 d)); extlen = of_char (d ! 4); bodylen = be_value (take 4 (drop 8 d));
          body = take bodylen (drop 24 d)
      in if length d < 24 \<or> d ! 0 \<noteq> char_of (0x80 :: nat) \<or> length d < 24 + bodylen \<or> bodylen < extlen + keylen then None
         else Some (\<lparr>rq_opcode = of_char (d ! 1), rq_vbucket = be_value (take 2 (drop 6 d)),
                      rq_opaque = mem_value e (take 4 (drop 12 d)), rq_extras = take extlen body,
                      rq_key = take keylen (drop extlen body), rq_value = drop (extlen + keylen) body\<rparr>,
                    drop (24 + bodylen) d))"
  \<comment> \<open>a request of the binary protocol; the opaque bytes are read in the client's byte order\<close>

function parse_requests :: "endian \<Rightarrow> byte list \<Rightarrow> mc_request list option" where
  "parse_requests e d =
     (if d = [] then Some []
      else case parse_request e d of
             None \<Rightarrow> None
           | Some (r, rest) \<Rightarrow> map_option (Cons r) (parse_requests e rest))"
  by auto
termination by (relation "measure (length \<circ> snd)") (auto simp: parse_request_def Let_def split: if_splits)

declare parse_requests.simps [simp del]

lemma length_request_header [simp]: "length (request_header e a b c d f g) = 24"
  by (cases e) (simp_all add: request_header_def mem_repr_def hton_def)

lemma mem_value_repr_mod: "mem_value e (mem_repr e n x) = x mod 256 ^ n"
  by (cases e) (simp_all add: mem_value_def mem_repr_def value_bytes_le)

lemma request_header_fields:
  fixes e opcode keylen extlen vb bodylen opq rest
  defines "d \<equiv> request_header e opcode keylen extlen vb bodylen opq @ rest"
  assumes "opcode < 256" and "extlen < 256"
  shows "d ! 0 = char_of (0x80 :: nat)" and "of_char (d ! 1) = opcode" and "take 2 (drop 2 d) = be 2 (keylen mod 2 ^ 16)"
    and "of_char (d ! 4) = extlen" and "take 2 (drop 6 d) = be 2 vb" and "take 4 (drop 8 d) = be 4 (bodylen mod 2 ^ 32)"
    and "take 4 (drop 12 d) = mem_repr e 4 opq" and "drop 24 d = rest"
  using assms(2,3) by (simp_all add: d_def request_header_def be_def nth_append)

lemma parse_request_header:
  assumes "opcode < 256" and "extlen < 256" and "keylen < 2 ^ 16" and "vb < 2 ^ 16" and "opq < 2 ^ 32"
    and "length body < 2 ^ 32" and "extlen + keylen \<le> length body"
  shows "parse_request e (request_header e opcode keylen extlen vb (length body) opq @ body @ rest)
    = Some (\<lparr>rq_opcode = opcode, rq_vbucket = vb, rq_opaque = opq, rq_extras = take extlen body,
             rq_key = take keylen (drop extlen body), rq_value = drop (extlen + keylen) body\<rparr>, rest)"
  unfolding parse_request_def request_header_fields [OF assms(1,2)] Let_def
  using assms(3-) by (simp add: be_value_be mem_value_repr_mod)

definition key_req :: "nat \<Rightarrow> byte list \<Rightarrow> nat \<Rightarrow> nat \<Rightarrow> mc_request" where
  "key_req opcode k vb i = \<lparr>rq_opcode = opcode, rq_vbucket = vb, rq_opaque = i, rq_extras = [], rq_key = k, rq_value = []\<rparr>"

definition info_ok :: "id_info \<Rightarrow> bool" where
  "info_ok f \<longleftrightarrow> length (keys f) = length (vbuckets f) \<and> (\<forall>k \<in> set (keys f). length k < 2 ^ 16) \<and> (\<forall>v \<in> set (vbuckets f). v < 2 ^ 16)"

definition quiet_reqs :: "nat \<Rightarrow> nat \<Rightarrow> id_info \<Rightarrow> nat \<Rightarrow> mc_request list" where
  "quiet_reqs quiet final f i =
     map (\<lambda>(k, vb). key_req quiet k vb i) (butlast (zip (keys f) (vbuckets f)))
     @ (if keys f = [] then [] else [key_req final (last (keys f)) (last (vbuckets f)) i])"
  \<comment> \<open>all quiet but the last, whose answer ends the command\<close>

definition sendable :: "command \<Rightarrow> world \<Rightarrow> bool" where
  "sendable c w \<longleftrightarrow> vbucket_id c < 2 ^ 16 \<and> cmd_id c < 2 ^ 32 \<and>
     (case kind c of
        SetCommand k v f e \<Rightarrow> length k < 2 ^ 16 \<and> 8 + length k + length v < 2 ^ 32
      | GetCommand k \<Rightarrow> length k < 2 ^ 16
      | RemoveCommand k \<Rightarrow> length k < 2 ^ 16
      | PrefixGetCommand k r \<Rightarrow> length k < 2 ^ 16
      | MultiGetCommand i \<Rightarrow> (case FindInfoByid (server_id c) (get_handlers w i) of None \<Rightarrow> False | Some f \<Rightarrow> info_ok f)
      | PrefixMultiGetCommand i \<Rightarrow> (case FindInfoByid (server_id c) (prefix_handlers w i) of None \<Rightarrow> False | Some f \<Rightarrow> info_ok f)
      | SerialMultiGetCommand b m \<Rightarrow> False)"

definition meant :: "command \<Rightarrow> world \<Rightarrow> mc_request list" where
  "meant c w =
     (case kind c of
        SetCommand k v f e \<Rightarrow> [\<lparr>rq_opcode = CMD_SET, rq_vbucket = vbucket_id c, rq_opaque = cmd_id c,
                                  rq_extras = be 4 f @ be 4 e, rq_key = k, rq_value = v\<rparr>]
      | GetCommand k \<Rightarrow> [key_req CMD_GET k (vbucket_id c) (cmd_id c)]
      | RemoveCommand k \<Rightarrow> [key_req CMD_DELETE k (vbucket_id c) (cmd_id c)]
      | PrefixGetCommand k r \<Rightarrow> [key_req CMD_PGETK k (vbucket_id c) (cmd_id c)]
      | MultiGetCommand i \<Rightarrow> quiet_reqs CMD_GETKQ CMD_GETK (the (FindInfoByid (server_id c) (get_handlers w i))) (cmd_id c)
      | PrefixMultiGetCommand i \<Rightarrow> quiet_reqs CMD_PGETKQ CMD_PGETK (the (FindInfoByid (server_id c) (prefix_handlers w i))) (cmd_id c)
      | SerialMultiGetCommand b m \<Rightarrow> [])"

lemma parse_key_request:
  assumes "opcode < 256" and "length k < 2 ^ 16" and "vb < 2 ^ 16" and "i < 2 ^ 32"
  shows "parse_request e (key_request e opcode k vb i @ rest) = Some (key_req opcode k vb i, rest)"
  using parse_request_header [of opcode 0 "length k" vb i k e rest] assms
  by (simp add: key_request_def key_req_def)

lemma parse_requests_Cons:
  assumes "parse_request e d = Some (r, rest)"
  shows "parse_requests e d = map_option (Cons r) (parse_requests e rest)"
proof -
  have "d \<noteq> []" using assms by (auto simp: parse_request_def Let_def split: if_splits)
  then show ?thesis using assms by (subst parse_requests.simps) simp
qed

lemma parse_requests_Nil [simp]: "parse_requests e [] = Some []"
  by (subst parse_requests.simps) simp

lemma parse_PacketRequest:
  assumes "length ks = length vbs" and "\<forall>k \<in> set ks. length k < 2 ^ 16" and "\<forall>v \<in> set vbs. v < 2 ^ 16"
    and "quiet < 256" and "final < 256" and "i < 2 ^ 32"
  shows "\<exists>b. PacketRequest e quiet final ks vbs i = Some b
     \<and> parse_requests e b = Some (quiet_reqs quiet final \<lparr>keys = ks, vbuckets = vbs\<rparr> i)"
  using assms
proof (induction ks vbs rule: list_induct2)
  case (Cons k ks v vs)
  then obtain b where b: "PacketRequest e quiet final ks vs i = Some b"
      "parse_requests e b = Some (quiet_reqs quiet final \<lparr>keys = ks, vbuckets = vs\<rparr> i)" by auto
  let ?op = "if ks \<noteq> [] then quiet else final"
  have "parse_request e (key_request e ?op k v i @ b) = Some (key_req ?op k v i, b)"
    using Cons.prems by (intro parse_key_request) auto
  from parse_requests_Cons [OF this] b Cons.hyps show ?case
    by (cases ks; cases vs) (simp_all add: quiet_reqs_def)
qed (simp add: quiet_reqs_def)

lemma parse_info:
  assumes "info_ok f" and "quiet < 256" and "final < 256" and "i < 2 ^ 32"
  shows "\<exists>b. PacketRequest e quiet final (keys f) (vbuckets f) i = Some b
     \<and> parse_requests e b = Some (quiet_reqs quiet final f i)"
proof -
  have f: "\<lparr>keys = keys f, vbuckets = vbuckets f\<rparr> = f" by simp
  show ?thesis
    by (rule parse_PacketRequest [of "keys f" "vbuckets f" quiet final i e, unfolded f])
      (use assms in \<open>simp_all add: info_ok_def\<close>)
qed

text \<open>C32. Every request reads back as what was meant: the bytes \<^verbatim>\<open>Launch\<close> sends for a command whose key and
  value fit the length fields are a sequence of packets of the binary protocol with the right opcode,
  bucket, id, extras, key and value, on machines of either byte order. A multi-key command becomes one
  packet per key of its server, in order, all quiet except the last.\<close>

theorem memcache_requests_roundtrip:
  assumes "sendable c w"
  shows "\<exists>b. RequestBuffer e c w = Some b \<and> parse_requests e b = Some (meant c w)"
proof -
  have vb: "vbucket_id c < 2 ^ 16" and i: "cmd_id c < 2 ^ 32" using assms by (simp_all add: sendable_def)
  have key: "parse_requests e (key_request e op k (vbucket_id c) (cmd_id c)) = Some [key_req op k (vbucket_id c) (cmd_id c)]"
    if "op < 256" "length k < 2 ^ 16" for op k
    using parse_requests_Cons [OF parse_key_request [OF that vb i, of e "[]"]] by simp
  show ?thesis
  proof (cases "kind c")
    case (SetCommand k v f x)
    let ?body = "mem_repr e 4 (hton e 4 f) @ mem_repr e 4 (hton e 4 x) @ k @ v"
    have s: "length k < 2 ^ 16" "8 + length k + length v < 2 ^ 32" using assms SetCommand by (simp_all add: sendable_def)
    have len: "8 + length k + length v = length ?body" by simp
    have "meant c w = [\<lparr>rq_opcode = CMD_SET, rq_vbucket = vbucket_id c, rq_opaque = cmd_id c, rq_extras = take 8 ?body,
        rq_key = take (length k) (drop 8 ?body), rq_value = drop (8 + length k) ?body\<rparr>]"
      by (simp add: meant_def SetCommand be_def)
    moreover have "RequestBuffer e c w =
        Some (request_header e CMD_SET (length k) 8 (vbucket_id c) (length ?body) (cmd_id c) @ ?body @ [])"
      unfolding len [symmetric] by (simp add: RequestBuffer_def SetCommand)
    moreover have "length ?body < 2 ^ 32" "8 + length k \<le> length ?body" using s by simp_all
    ultimately show ?thesis
      using parse_requests_Cons [OF parse_request_header [of CMD_SET 8 "length k" "vbucket_id c" "cmd_id c" ?body e "[]"]] s vb i
      by simp
  next
    case (MultiGetCommand h)
    then obtain f where "FindInfoByid (server_id c) (get_handlers w h) = Some f" "info_ok f"
      using assms by (auto simp: sendable_def split: option.splits)
    then show ?thesis
      using parse_info [of f CMD_GETKQ CMD_GETK "cmd_id c" e] i MultiGetCommand by (simp add: RequestBuffer_def meant_def)
  next
    case (PrefixMultiGetCommand h)
    then obtain f where "FindInfoByid (server_id c) (prefix_handlers w h) = Some f" "info_ok f"
      using assms by (auto simp: sendable_def split: option.splits)
    then show ?thesis
      using parse_info [of f CMD_PGETKQ CMD_PGETK "cmd_id c" e] i PrefixMultiGetCommand by (simp add: RequestBuffer_def meant_def)
  qed (use assms key in \<open>auto simp: sendable_def RequestBuffer_def meant_def\<close>)
qed

definition two_keys :: "command \<times> world" where
  "two_keys =
     ((mc_Command_new 3 (MultiGetCommand 0) 1)\<lparr>cmd_id := 9, server_id_history := [3]\<rparr>,
      \<lparr>get_handlers = (\<lambda>i. set_serverid_keys [(3, \<lparr>keys = [''k1'', ''key2''], vbuckets = [5, 700]\<rparr>)] MultiKeyHandler_new),
       prefix_handlers = (\<lambda>i. MultiKeyHandler_new), called = [], done_tags = [], dropped_tags = []\<rparr>)"

theorem memcache_requests_roundtrip_witness:
  "\<exists>b. RequestBuffer LittleEndian (fst two_keys) (snd two_keys) = Some b
     \<and> parse_requests LittleEndian b = Some [key_req CMD_GETKQ ''k1'' 5 9, key_req CMD_GETK ''key2'' 700 9]"
  using memcache_requests_roundtrip [of "fst two_keys" "snd two_keys" LittleEndian]
  by (simp add: two_keys_def sendable_def mc_Command_new_def server_id_def FindInfoByid_def set_serverid_keys_def
      info_ok_def meant_def quiet_reqs_def)

end
