(* ===== verification/McClient.thy ===== *)
theory McClient
  imports McCommand "HOL-Library.AList" "HOL-Library.Multiset"
begin

text \<open>
  The connections of the memcached client (\<^verbatim>\<open>memcache_client.*\<close>, \<^verbatim>\<open>memcache_client_base.*\<close>, \<^verbatim>\<open>binary_codec.*\<close> and the
  launching part of \<^verbatim>\<open>memcache_client_pool.cc\<close> in \<^verbatim>\<open>src/apps/evmc\<close>), as seen by one loop of the pool: its table
  of clients, one per server, each with the commands that wait for the connection or for an answer, and the
  shared server map. \<open>picks\<close> are the answers of \<^verbatim>\<open>rand\<close>: whether the loop picked is this one, in which case the
  functor runs at once. Commands for another loop are put in \<open>handed\<close>. \<open>packet_timers\<close> and \<open>connect_timers\<close> are
  the one-shot timers that will call \<^verbatim>\<open>OnPacketTimeout\<close> and \<^verbatim>\<open>OnConnectTimeout\<close>. The owner \<^verbatim>\<open>mc_pool_\<close> of a client exists.
  Log messages are left out, so the connection that the message of \<^verbatim>\<open>OnConnectTimeout\<close> names need not exist.
\<close>

section \<open>State\<close>

datatype mc_conn = NoConn | ConnConnecting | ConnUp | ConnDown
  \<comment> \<open>\<^verbatim>\<open>conn()\<close>: null, connecting, connected, or closing\<close>

record mc_client =
  id_seq :: nat
  has_timeout :: bool
  timer_canceled :: bool
  con_timer_canceled :: bool
  packet_timers :: "nat list"
  connect_timers :: "nat list"
  running :: "command list"
  waiting :: "command list"
  mconn :: mc_conn
  sent_packets :: "byte list list"

record mc_state =
  clients :: "(byte list \<times> mc_client) list"
  wld :: world
  config :: multi_config
  handed :: "command list"
  picks :: "bool list"
  timeout_ms_zero :: bool

definition MemcacheClient_new :: "bool \<Rightarrow> mc_client" where
  "MemcacheClient_new timeout = \<lparr>id_seq = 0, has_timeout = timeout, timer_canceled = True, con_timer_canceled = True,
     packet_timers = [], connect_timers = [], running = [], waiting = [], mconn = NoConn, sent_packets = []\<rparr>"

definition client_at :: "byte list \<Rightarrow> mc_state \<Rightarrow> mc_client option" where
  "client_at a s = map_of (clients s) a"

definition set_client :: "byte list \<Rightarrow> mc_client \<Rightarrow> mc_state \<Rightarrow> mc_state" where
  "set_client a c s = s\<lparr>clients := AList.update a c (clients s)\<rparr>"

definition BuilderMemClient :: "byte list \<Rightarrow> mc_state \<Rightarrow> mc_state" where
  "BuilderMemClient a s =
     (if client_at a s = None then set_client a (MemcacheClient_new (\<not> timeout_ms_zero s)) s else s)"
  \<comment> \<open>the new TCP client starts to connect\<close>

section \<open>The queues of a client\<close>

definition next_id :: "mc_client \<Rightarrow> nat \<times> mc_client" where
  "next_id c = (let i = (id_seq c + 1) mod 2 ^ 32 in (i, c\<lparr>id_seq := i\<rparr>))"

definition PushRunningCommand :: "command \<Rightarrow> mc_client \<Rightarrow> command \<times> mc_client" where
  "PushRunningCommand cmd c =
     (let (cmd, c) = (if cmd_id cmd = 0 then let (i, c) = next_id c in (set_id i cmd, c) else (cmd, c));
          c = c\<lparr>running := running c @ [cmd]\<rparr>
      in (cmd, if has_timeout c \<and> timer_canceled c
               then c\<lparr>packet_timers := packet_timers c @ [cmd_id cmd], timer_canceled := False\<rparr> else c))"

definition PushWaitingCommand :: "command \<Rightarrow> mc_client \<Rightarrow> command \<times> mc_client" where
  "PushWaitingCommand cmd c =
     (let (i, c) = next_id c; cmd = set_id i cmd;
          c = c\<lparr>waiting := waiting c @ [cmd]\<rparr>
      in (cmd, if has_timeout c \<and> con_timer_canceled c
               then c\<lparr>connect_timers := connect_timers c @ [cmd_id cmd], con_timer_canceled := False\<rparr> else c))"

definition PopRunningCommand :: "mc_client \<Rightarrow> (command \<times> mc_client) option" where
  "PopRunningCommand c = (case running c of [] \<Rightarrow> None | cmd # q \<Rightarrow> Some (cmd, c\<lparr>running := q\<rparr>))"

definition PopWaitingCommand :: "mc_client \<Rightarrow> (command \<times> mc_client) option" where
  "PopWaitingCommand c = (case waiting c of [] \<Rightarrow> None | cmd # q \<Rightarrow> Some (cmd, c\<lparr>waiting := q\<rparr>))"

definition PeekRunningCommand :: "mc_client \<Rightarrow> command option" where
  "PeekRunningCommand c = (case running c of [] \<Rightarrow> None | cmd # q \<Rightarrow> Some cmd)"

definition Launch :: "endian \<Rightarrow> command \<Rightarrow> world \<Rightarrow> mc_client \<Rightarrow> mc_client option" where
  "Launch e cmd w c = do { b \<leftarrow> RequestBuffer e cmd w; Some (c\<lparr>sent_packets := sent_packets c @ [b]\<rparr>) }"

section \<open>Launching\<close>

definition fail_command :: "int \<Rightarrow> command \<Rightarrow> mc_state \<Rightarrow> (nat \<times> mc_state) option" where
  "fail_command err cmd s = do { w \<leftarrow> OnError err cmd (wld s); Some (cmd_id cmd, s\<lparr>wld := w\<rparr>) }"

definition retried :: "command \<Rightarrow> command" where
  "retried cmd = set_server_id (server_id cmd) (set_id 0 cmd)"

definition select_server :: "command \<Rightarrow> mc_state \<Rightarrow> (nat \<times> mc_state) option" where
  "select_server cmd s =
     (if ShouldRetry cmd then Some (server_id cmd, s)
      else do {
        (i, m) \<leftarrow> Multi_SelectServerId (vbucket_id cmd) (server_id cmd) (config s);
        Some (i, s\<lparr>config := m\<rparr>) })"

definition push_waiting :: "byte list \<Rightarrow> command \<Rightarrow> mc_state \<Rightarrow> (nat \<times> mc_state) option" where
  "push_waiting a cmd s = do {
     c \<leftarrow> client_at a s;
     let (cmd, c) = PushWaitingCommand cmd c;
     Some (cmd_id cmd, set_client a c s) }"

definition run_command :: "endian \<Rightarrow> byte list \<Rightarrow> command \<Rightarrow> mc_state \<Rightarrow> (nat \<times> mc_state) option" where
  "run_command e a cmd s = do {
     c \<leftarrow> client_at a s;
     let (cmd, c) = PushRunningCommand cmd c;
     c \<leftarrow> Launch e cmd (wld s) c;
     Some (cmd_id cmd, set_client a c s) }"

function DoLaunchCommand :: "endian \<Rightarrow> command \<Rightarrow> mc_state \<Rightarrow> (nat \<times> mc_state) option" where
  "DoLaunchCommand e cmd s =
     (case select_server cmd s of
        None \<Rightarrow> None
      | Some (sid, s) \<Rightarrow>
          if \<not> ShouldRetry cmd \<and> sid = BAD_SERVER_ID then fail_command ERR_CODE_DISCONNECT cmd s
          else case Multi_GetServerAddrById sid (config s) of
                 None \<Rightarrow> None
               | Some a \<Rightarrow>
                   (case client_at a s of
                      None \<Rightarrow> push_waiting a cmd (BuilderMemClient a s)
                    | Some c \<Rightarrow>
                        (case mconn c of
                           ConnUp \<Rightarrow> run_command e a cmd s
                         | NoConn \<Rightarrow> push_waiting a cmd s
                         | ConnConnecting \<Rightarrow> push_waiting a cmd s
                         | ConnDown \<Rightarrow>
                             if ShouldRetry cmd
                             then (case picks s of
                                     True # ps \<Rightarrow> DoLaunchCommand e (retried cmd) (s\<lparr>picks := ps\<rparr>)
                                   | ps \<Rightarrow> Some (0, s\<lparr>picks := tl ps, handed := handed s @ [retried cmd]\<rparr>))
                             else fail_command ERR_CODE_DISCONNECT cmd s)))"
  by pat_completeness auto
termination
  by (relation "measure (\<lambda>(e, cmd, s). 2 - length (server_id_history cmd))")
    (auto simp: retried_def set_server_id_def set_id_def ShouldRetry_def)

declare DoLaunchCommand.simps [simp del]

definition LaunchCommand :: "endian \<Rightarrow> command \<Rightarrow> mc_state \<Rightarrow> (nat \<times> mc_state) option" where
  "LaunchCommand e cmd s =
     (case picks s of
        True # ps \<Rightarrow> DoLaunchCommand e cmd (s\<lparr>picks := ps\<rparr>)
      | ps \<Rightarrow> Some (cmd_id cmd, s\<lparr>picks := tl ps, handed := handed s @ [cmd]\<rparr>))"
  \<comment> \<open>the results are the id the command has afterwards and the state\<close>

section \<open>Timeouts and connections\<close>

datatype mc_queue = Running | Waiting

definition pop :: "mc_queue \<Rightarrow> mc_client \<Rightarrow> (command \<times> mc_client) option" where
  "pop q c = (case q of Running \<Rightarrow> PopRunningCommand c | Waiting \<Rightarrow> PopWaitingCommand c)"

definition give_up :: "endian \<Rightarrow> int \<Rightarrow> command \<Rightarrow> mc_state \<Rightarrow> (nat \<times> mc_state) option" where
  "give_up e err cmd s =
     (if ShouldRetry cmd then LaunchCommand e (retried cmd) s else fail_command err cmd s)"

partial_function (option) drain :: "endian \<Rightarrow> mc_queue \<Rightarrow> int \<Rightarrow> nat option \<Rightarrow> byte list \<Rightarrow> mc_state \<Rightarrow> mc_state option" where
  "drain e q err stop a s = do {
     c \<leftarrow> client_at a s;
     case pop q c of
       None \<Rightarrow> Some s
     | Some (cmd, c) \<Rightarrow> do {
         (i, s) \<leftarrow> give_up e err cmd (set_client a c s);
         if stop = Some i then Some s else drain e q err stop a s } }"
  \<comment> \<open>the loop over a queue, which ends early after the command with the id \<open>stop\<close>\<close>

definition OnPacketTimeout :: "endian \<Rightarrow> nat \<Rightarrow> byte list \<Rightarrow> mc_state \<Rightarrow> mc_state option" where
  "OnPacketTimeout e i a s = do {
     c \<leftarrow> client_at a s;
     let c = c\<lparr>packet_timers := remove1 i (packet_timers c), timer_canceled := True\<rparr>;
     case running c of
       [] \<Rightarrow> Some (set_client a c s)
     | cmd # q \<Rightarrow>
         if cmd_id cmd \<noteq> i
         then Some (set_client a (c\<lparr>packet_timers := packet_timers c @ [cmd_id cmd], timer_canceled := False\<rparr>) s)
         else drain e Running ERR_CODE_TIMEOUT (Some i) a (set_client a c s) }"

definition mc_OnConnectTimeout :: "endian \<Rightarrow> nat \<Rightarrow> byte list \<Rightarrow> mc_state \<Rightarrow> mc_state option" where
  "mc_OnConnectTimeout e i a s = do {
     c \<leftarrow> client_at a s;
     let c = c\<lparr>connect_timers := remove1 i (connect_timers c), con_timer_canceled := True\<rparr>;
     case waiting c of
       [] \<Rightarrow> Some (set_client a c s)
     | cmd # q \<Rightarrow>
         if cmd_id cmd \<noteq> i
         then Some (set_client a (c\<lparr>connect_timers := connect_timers c @ [cmd_id cmd], con_timer_canceled := False\<rparr>) s)
         else drain e Waiting ERR_CODE_TIMEOUT None a (set_client a c s) }"

fun launch_waiting :: "endian \<Rightarrow> command list \<Rightarrow> byte list \<Rightarrow> mc_state \<Rightarrow> mc_state option" where
  "launch_waiting e [] a s = Some s"
| "launch_waiting e (cmd # cmds) a s = do {
     c \<leftarrow> client_at a s;
     (i, s) \<leftarrow> run_command e a cmd (set_client a (c\<lparr>waiting := cmds\<rparr>) s);
     launch_waiting e cmds a s }"

definition OnClientConnection :: "endian \<Rightarrow> bool \<Rightarrow> byte list \<Rightarrow> mc_state \<Rightarrow> mc_state option" where
  "OnClientConnection e is_connected a s =
     (if is_connected then do { c \<leftarrow> client_at a s; launch_waiting e (waiting c) a s }
      else do {
        s \<leftarrow> drain e Running ERR_CODE_NETWORK None a s;
        drain e Waiting ERR_CODE_NETWORK None a s })"

section \<open>Answers\<close>

record response_header =
  opcode :: nat
  keylen :: nat
  extlen :: nat
  status :: nat
  bodylen :: nat
  opaque :: nat

definition kHeaderLen :: nat where
  "kHeaderLen = 24"

definition read_header :: "endian \<Rightarrow> byte list \<Rightarrow> response_header" where
  "read_header e d = \<lparr>opcode = of_char (d ! 1), keylen = hton e 2 (mem_value e (take 2 (drop 2 d))),
     extlen = of_char (d ! 4), status = hton e 2 (mem_value e (take 2 (drop 6 d))),
     bodylen = hton e 4 (mem_value e (take 4 (drop 8 d))), opaque = mem_value e (take 4 (drop 12 d))\<rparr>"

definition u32 :: "nat \<Rightarrow> nat" where
  "u32 n = n mod 2 ^ 32"

definition u32_minus :: "nat \<Rightarrow> nat \<Rightarrow> nat" where
  "u32_minus a b = (a + 2 ^ 32 - b) mod 2 ^ 32"

partial_function (option) prefix_entries :: "endian \<Rightarrow> nat \<Rightarrow> nat \<Rightarrow> byte list \<Rightarrow> nat \<Rightarrow> nat
    \<Rightarrow> (byte list \<rightharpoonup> byte list) \<Rightarrow> (byte list \<rightharpoonup> byte list) option" where
  "prefix_entries e entries_size buf_size buf pv pos m =
     (if \<not> pos < entries_size then Some m
      else if pos \<ge> buf_size \<or> u32 (pos + 4) \<ge> buf_size then Some m
      else do {
        d \<leftarrow> mem_read buf (pv + pos) 4;
        let klen = hton e 4 (mem_value e d);
        let pos = u32 (pos + 4);
        if u32 (pos + klen) \<ge> buf_size then Some m
        else do {
          rkey \<leftarrow> mem_read buf (pv + pos) klen;
          let pos = u32 (pos + klen);
          if pos \<ge> buf_size \<or> u32 (pos + 4) \<ge> buf_size then Some m
          else do {
            d \<leftarrow> mem_read buf (pv + pos) 4;
            let vlen = hton e 4 (mem_value e d);
            let pos = u32 (pos + 4);
            if u32 (pos + vlen) \<ge> buf_size then Some m
            else do {
              rval \<leftarrow> mem_read buf (pv + pos) vlen;
              prefix_entries e entries_size buf_size buf pv (u32 (pos + vlen)) (if m rkey = None then m(rkey \<mapsto> rval) else m) } } } })"
  \<comment> \<open>the loop of \<^verbatim>\<open>DecodePrefixGetPacket\<close>; \<open>pv\<close> is the offset the positions are relative to\<close>

definition decode_into :: "endian \<Rightarrow> response_header \<Rightarrow> byte list \<Rightarrow> prefix_result \<Rightarrow> prefix_result option" where
  "decode_into e h buf r = do {
     m \<leftarrow> prefix_entries e (u32_minus (u32_minus (bodylen h) (keylen h)) (extlen h)) (u32 (length buf)) buf
           (kHeaderLen + extlen h) (keylen h) (result_map r);
     Some (r\<lparr>pcode := int (status h), result_map := m\<rparr>) }"

definition DecodePrefixGetPacket :: "endian \<Rightarrow> response_header \<Rightarrow> byte list \<Rightarrow> byte list \<Rightarrow> command \<Rightarrow> world \<Rightarrow> (command \<times> world) option" where
  "DecodePrefixGetPacket e h buf k cmd w =
     (if k = []
      then case kind cmd of
             PrefixMultiGetCommand i \<Rightarrow> do { w \<leftarrow> fail_prefix_keys (int (status h)) cmd i w; Some (cmd, w) }
           | _ \<Rightarrow> None
      else case kind cmd of
             PrefixGetCommand key r \<Rightarrow> do { r \<leftarrow> decode_into e h buf r; Some (cmd\<lparr>kind := PrefixGetCommand key r\<rparr>, w) }
           | PrefixMultiGetCommand i \<Rightarrow> do {
               let hd = prefix_handlers w i;
               r \<leftarrow> mget_result hd k;
               r \<leftarrow> decode_into e h buf r;
               Some (cmd, w\<lparr>prefix_handlers := (prefix_handlers w)(i := hd\<lparr>mget_result := (mget_result hd)(k \<mapsto> r)\<rparr>)\<rparr>) }
           | _ \<Rightarrow> None)"
  \<comment> \<open>\<^const>\<open>None\<close> also for the null pointers: a failed \<^verbatim>\<open>dynamic_cast\<close>, and the result container of the base class\<close>

definition handle_answer :: "endian \<Rightarrow> response_header \<Rightarrow> byte list \<Rightarrow> command \<Rightarrow> command list \<Rightarrow> world \<Rightarrow> (command list \<times> world) option" where
  "handle_answer e h buf cmd q w =
     (let resp = int (status h); pv = kHeaderLen + extlen h
      in if opcode h = CMD_SET then Some (q, OnSetCommandDone resp cmd w)
         else if opcode h = CMD_DELETE then Some (q, OnRemoveCommandDone resp cmd w)
         else if opcode h = CMD_GET then do {
           v \<leftarrow> mem_read buf pv (u32_minus (bodylen h) (extlen h));
           Some (q, OnGetCommandDone resp v cmd w) }
         else if opcode h = CMD_GETK then do {
           k \<leftarrow> mem_read buf pv (keylen h);
           v \<leftarrow> mem_read buf (pv + keylen h) (u32_minus (u32_minus (bodylen h) (keylen h)) (extlen h));
           w \<leftarrow> OnMultiGetCommandDone resp k v cmd w;
           Some (q, w) }
         else if opcode h = CMD_GETKQ then do {
           k \<leftarrow> mem_read buf pv (keylen h);
           v \<leftarrow> mem_read buf (pv + keylen h) (u32_minus (u32_minus (bodylen h) (keylen h)) (extlen h));
           (cmd, w) \<leftarrow> OnMultiGetCommandOneResponse resp k v cmd w;
           Some (cmd # q, w) }
         else if opcode h = CMD_PGETK then do {
           k \<leftarrow> mem_read buf pv (keylen h);
           (cmd, w) \<leftarrow> DecodePrefixGetPacket e h buf k cmd w;
           Some (q, OnPrefixGetCommandDone cmd w) }
         else if opcode h = CMD_PGETKQ then do {
           k \<leftarrow> mem_read buf pv (keylen h);
           (cmd, w) \<leftarrow> DecodePrefixGetPacket e h buf k cmd w;
           Some (cmd # q, w) }
         else Some (cmd # q, w))"
  \<comment> \<open>the switch over the opcode: the queue of running commands and the world afterwards\<close>

definition OnResponsePacket :: "endian \<Rightarrow> response_header \<Rightarrow> byte list \<Rightarrow> mc_client \<Rightarrow> world \<Rightarrow> (byte list \<times> mc_client \<times> world) option" where
  "OnResponsePacket e h buf c w =
     (let rest = drop (kHeaderLen + bodylen h) buf
      in case running c of
           [] \<Rightarrow> Some (rest, c, w)
         | cmd # q \<Rightarrow>
             if opaque h \<noteq> cmd_id cmd then Some (rest, c, w)
             else do {
               (q, w) \<leftarrow> handle_answer e h buf cmd q w;
               Some (rest, c\<lparr>running := q\<rparr>, w) })"

lemma OnResponsePacket_rest:
  "OnResponsePacket e h buf c w = Some (rest, c', w') \<Longrightarrow> rest = drop (kHeaderLen + bodylen h) buf"
  by (auto simp: OnResponsePacket_def Let_def bind_eq_Some_conv split: list.splits if_splits)

function OnCodecMessage :: "endian \<Rightarrow> byte list \<Rightarrow> mc_client \<Rightarrow> world \<Rightarrow> (byte list \<times> mc_client \<times> world) option" where
  "OnCodecMessage e buf c w =
     (if length buf < kHeaderLen then Some (buf, c, w)
      else let h = read_header e buf
           in if length buf < bodylen h + kHeaderLen then Some (buf, c, w)
              else case OnResponsePacket e h buf c w of
                     None \<Rightarrow> None
                   | Some (rest, c, w) \<Rightarrow> OnCodecMessage e rest c w)"
  by pat_completeness auto
termination
  by (relation "measure (\<lambda>(e, buf, c, w). length buf)")
    (auto simp: kHeaderLen_def dest!: OnResponsePacket_rest)

declare OnCodecMessage.simps [simp del]

section \<open>Reading and writing the table\<close>

lemma update_twice: "AList.update a c (AList.update a c' xs) = AList.update a c xs"
  by (induction xs) auto

lemma set_client_twice [simp]: "set_client a c (set_client a c' s) = set_client a c s"
  by (simp add: set_client_def update_twice)

lemma client_at_set [simp]: "client_at b (set_client a c s) = (if b = a then Some c else client_at b s)"
  by (simp add: client_at_def set_client_def update_conv')

lemma set_client_same [simp]:
  "config (set_client a c s) = config s" "wld (set_client a c s) = wld s" "handed (set_client a c s) = handed s"
  "picks (set_client a c s) = picks s" "set_client a c (s\<lparr>wld := w\<rparr>) = (set_client a c s)\<lparr>wld := w\<rparr>"
  "set_client a c (s\<lparr>picks := p\<rparr>) = (set_client a c s)\<lparr>picks := p\<rparr>"
  by (simp_all add: set_client_def)

lemma client_at_upd [simp]:
  "client_at a (s\<lparr>wld := w\<rparr>) = client_at a s" "client_at a (s\<lparr>config := m\<rparr>) = client_at a s"
  "client_at a (s\<lparr>handed := h\<rparr>) = client_at a s" "client_at a (s\<lparr>picks := p\<rparr>) = client_at a s"
  by (simp_all add: client_at_def)

end
