(* ===== verification/McCodec.thy ===== *)
theory McCodec
  imports McClient Framing
begin

text \<open>
  What the memcached client does with the bytes of a server: the answers of a pipeline reach their
  commands in order, the entries of a prefix answer are read exactly, and the malformed answers that
  are fatal. A server's packets are written out as the binary protocol lays them out.
\<close>

section \<open>Packets of a server\<close>

definition response :: "endian \<Rightarrow> nat \<Rightarrow> nat \<Rightarrow> nat \<Rightarrow> byte list \<Rightarrow> byte list \<Rightarrow> byte list \<Rightarrow> byte list" where
  "response e op st opq exts k v =
     [char_of (0x81 :: nat), char_of op] @ be 2 (length k) @ [char_of (length exts), char_of (0 :: nat)] @ be 2 st
     @ be 4 (length exts + length k + length v) @ mem_repr e 4 opq @ replicate 8 (char_of (0 :: nat)) @ exts @ k @ v"

lemma length_response [simp]: "length (response e op st opq exts k v) = 24 + length exts + length k + length v"
  by (simp add: response_def)

lemma response_parts: "\<exists>h. length h = 24 \<and> response e op st opq exts k v = h @ exts @ k @ v"
  by (rule exI [of _ "take 24 (response e op st opq exts k v)"]) (simp add: response_def)

lemma read_response:
  assumes "op < 256" and "st < 2 ^ 16" and "opq < 2 ^ 32" and "length exts < 256" and "length k < 2 ^ 16"
    and "length exts + length k + length v < 2 ^ 32"
  shows "read_header e (response e op st opq exts k v @ rest) = \<lparr>opcode = op, keylen = length k, extlen = length exts,
    status = st, bodylen = length exts + length k + length v, opaque = opq\<rparr>"
proof -
  have be: "hton e n (mem_value e (be n x)) = x mod 256 ^ n" for n x
    using be_value_be [of n x] by (simp add: be_value_def)
  show ?thesis using assms
    by (simp add: read_header_def response_def nth_append be mem_value_repr_mod)
qed

lemma u32_minus_ok: "b \<le> a \<Longrightarrow> a < 2 ^ 32 \<Longrightarrow> u32_minus a b = a - b"
proof -
  assume "b \<le> a" "a < 2 ^ 32"
  then have "a + 2 ^ 32 - b = (a - b) + 2 ^ 32" "a - b < 2 ^ 32" by simp_all
  then show ?thesis unfolding u32_minus_def by (metis mod_add_self2 mod_less)
qed

lemma read_prefix:
  assumes "24 \<le> length b"
  shows "read_header e (b @ c) = read_header e b"
  using assms by (simp add: read_header_def nth_append)

lemma OnCodecMessage_step:
  assumes "kHeaderLen \<le> length buf" and "bodylen (read_header e buf) + kHeaderLen \<le> length buf"
    and "OnResponsePacket e (read_header e buf) buf c w = Some (rest, c', w')"
  shows "OnCodecMessage e buf c w = OnCodecMessage e rest c' w'"
  by (subst OnCodecMessage.simps) (use assms in \<open>simp add: Let_def\<close>)

lemma OnCodecMessage_partial:
  assumes "length b < 24 \<or> length b < bodylen (read_header e b) + 24"
  shows "OnCodecMessage e b c w = Some (b, c, w)"
  by (subst OnCodecMessage.simps) (use assms in \<open>auto simp: Let_def kHeaderLen_def\<close>)

section \<open>A pipeline of commands\<close>

record mc_reply =
  rstatus :: nat
  rextras :: "byte list"
  rvalue :: "byte list"

definition opcode_of :: "command \<Rightarrow> nat option" where
  "opcode_of cmd = (case kind cmd of SetCommand k v f x \<Rightarrow> Some CMD_SET | GetCommand k \<Rightarrow> Some CMD_GET
     | RemoveCommand k \<Rightarrow> Some CMD_DELETE | _ \<Rightarrow> None)"

datatype mc_frame = Answer command mc_reply | Late nat nat mc_reply
  \<comment> \<open>the answer to a command, or one (opcode and id) to a command that is no longer waited for\<close>

primrec frame_op :: "mc_frame \<Rightarrow> nat" where
  "frame_op (Answer cmd r) = the (opcode_of cmd)"
| "frame_op (Late op i r) = op"

primrec frame_id :: "mc_frame \<Rightarrow> nat" where
  "frame_id (Answer cmd r) = cmd_id cmd"
| "frame_id (Late op i r) = i"

primrec frame_reply :: "mc_frame \<Rightarrow> mc_reply" where
  "frame_reply (Answer cmd r) = r"
| "frame_reply (Late op i r) = r"

definition reply_ok :: "mc_frame \<Rightarrow> bool" where
  "reply_ok m \<longleftrightarrow> (case m of Answer cmd r \<Rightarrow> opcode_of cmd \<noteq> None | Late op i r \<Rightarrow> op < 256)
     \<and> frame_id m < 2 ^ 32 \<and> rstatus (frame_reply m) < 2 ^ 16
     \<and> length (rextras (frame_reply m)) < 256
     \<and> length (rextras (frame_reply m)) + length (rvalue (frame_reply m)) < 2 ^ 32"

definition reply_packet :: "endian \<Rightarrow> mc_frame \<Rightarrow> byte list" where
  "reply_packet e m = response e (frame_op m) (rstatus (frame_reply m)) (frame_id m)
     (rextras (frame_reply m)) [] (rvalue (frame_reply m))"

definition reply_call :: "command \<Rightarrow> mc_reply \<Rightarrow> callback" where
  "reply_call cmd r =
     (case kind cmd of
        SetCommand k v f x \<Rightarrow> SetCallback (tag cmd) k (int (rstatus r))
      | RemoveCommand k \<Rightarrow> RemoveCallback (tag cmd) k (int (rstatus r))
      | GetCommand k \<Rightarrow> GetCallback (tag cmd) k \<lparr>code = int (rstatus r), val = rvalue r\<rparr>)"

primrec settle :: "mc_frame \<Rightarrow> mc_client \<times> world \<Rightarrow> mc_client \<times> world" where
  "settle (Answer cmd r) s =
     ((fst s)\<lparr>running := tl (running (fst s))\<rparr>, complete cmd (make_call (reply_call cmd r) (snd s)))"
| "settle (Late op i r) s = s"

definition turn :: "mc_frame \<Rightarrow> mc_client \<times> world \<Rightarrow> bool" where
  "turn m s \<longleftrightarrow> reply_ok m \<and>
     (case m of
        Answer cmd r \<Rightarrow> running (fst s) \<noteq> [] \<and> hd (running (fst s)) = cmd
      | Late op i r \<Rightarrow> running (fst s) = [] \<or> cmd_id (hd (running (fst s))) \<noteq> i)"
  \<comment> \<open>an answer is to the oldest command without one\<close>

definition codec :: "endian \<Rightarrow> byte list \<Rightarrow> mc_client \<times> world \<Rightarrow> (byte list \<times> mc_client \<times> world) option" where
  "codec e b s = OnCodecMessage e b (fst s) (snd s)"

lemma read_reply:
  assumes "reply_ok m"
  shows "read_header e (reply_packet e m @ rest) = \<lparr>opcode = frame_op m, keylen = 0,
    extlen = length (rextras (frame_reply m)), status = rstatus (frame_reply m),
    bodylen = length (rextras (frame_reply m)) + length (rvalue (frame_reply m)), opaque = frame_id m\<rparr>"
proof -
  have "frame_op m < 256"
    using assms by (cases m) (auto simp: reply_ok_def opcode_of_def split: cmd_kind.splits)
  then show ?thesis
    using assms read_response [of "frame_op m" "rstatus (frame_reply m)" "frame_id m" "rextras (frame_reply m)" "[]"
        "rvalue (frame_reply m)" e rest]
    by (simp add: reply_ok_def reply_packet_def)
qed

lemma length_reply [simp]:
  "length (reply_packet e m) = 24 + length (rextras (frame_reply m)) + length (rvalue (frame_reply m))"
  by (simp add: reply_packet_def)

lemma handle_reply:
  assumes "reply_ok m" and m: "m = Answer cmd r"
  shows "handle_answer e (read_header e (reply_packet e m @ rest)) (reply_packet e m @ rest) cmd q w
    = Some (q, complete cmd (make_call (reply_call cmd r) w))"
proof -
  let ?x = "rextras r" and ?v = "rvalue r"
  have "u32_minus (length ?x + length ?v) (length ?x) = length ?v"
    using assms by (simp add: m reply_ok_def u32_minus_def)
  moreover obtain h where "length h = 24" "reply_packet e m = h @ ?x @ [] @ ?v"
    using response_parts [of e "the (opcode_of cmd)" "rstatus r" "cmd_id cmd" ?x "[]" ?v] by (auto simp: m reply_packet_def)
  ultimately have "mem_read (reply_packet e m @ rest) (24 + length ?x) (u32_minus (length ?x + length ?v) (length ?x)) = Some ?v"
    by (simp add: mem_read_def)
  with assms show ?thesis unfolding read_reply [OF assms(1)]
    by (auto simp: handle_answer_def m reply_ok_def opcode_of_def reply_call_def kHeaderLen_def Let_def
        OnSetCommandDone_def OnRemoveCommandDone_def OnGetCommandDone_def split: cmd_kind.splits)
qed

lemma reply_step:
  assumes "turn m s"
  shows "OnResponsePacket e (read_header e (reply_packet e m @ rest)) (reply_packet e m @ rest) (fst s) (snd s)
    = Some (rest, fst (settle m s), snd (settle m s))"
proof -
  have ok: "reply_ok m" using assms by (simp add: turn_def)
  have drop: "drop (kHeaderLen + bodylen (read_header e (reply_packet e m @ rest))) (reply_packet e m @ rest) = rest"
    by (simp add: read_reply [OF ok] kHeaderLen_def)
  show ?thesis
  proof (cases m)
    case (Answer cmd r)
    obtain q where q: "running (fst s) = cmd # q" using assms Answer by (cases "running (fst s)") (auto simp: turn_def)
    show ?thesis unfolding OnResponsePacket_def drop Let_def
      using handle_reply [OF ok Answer, of e rest q "snd s"] read_reply [OF ok, of e rest] q Answer by simp
  next
    case (Late op i r)
    then show ?thesis unfolding OnResponsePacket_def drop Let_def
      using assms read_reply [OF ok, of e rest] by (auto simp: turn_def split: list.splits)
  qed
qed

interpretation mc_replies: framing "codec e" "reply_packet e" turn settle for e
proof unfold_locales
  show "codec e [] s = Some ([], s)" for s
    using OnCodecMessage_partial [of "[]" e "fst s" "snd s"] by (simp add: codec_def)
next
  fix m s rest assume t: "turn m s"
  then have ok: "reply_ok m" by (simp add: turn_def)
  then show "codec e (reply_packet e m @ rest) s = codec e rest (settle m s)"
    unfolding codec_def using reply_step [OF t]
    by (intro OnCodecMessage_step) (simp_all add: read_reply kHeaderLen_def)
next
  fix m s b assume t: "turn m s" and b: "strict_prefix b (reply_packet e m)"
  then have ok: "reply_ok m" by (simp add: turn_def)
  obtain z where z: "reply_packet e m = b @ z" "z \<noteq> []" using b by (auto elim: strict_prefixE')
  have "length b < 24 \<or> length b < bodylen (read_header e b) + 24"
  proof (cases "length b < 24")
    case False
    then have "read_header e b = read_header e (reply_packet e m @ [])" using z(1) read_prefix [of b e z] by simp
    moreover have "length b < length (reply_packet e m)" using z by simp
    ultimately show ?thesis using read_reply [OF ok, of e "[]"] by simp
  qed simp
  from OnCodecMessage_partial [OF this] show "codec e b s = Some (b, s)" by (simp add: codec_def)
next
  show "reply_packet e m \<noteq> []" for m by (simp add: reply_packet_def response_def)
qed

primrec answers :: "mc_frame list \<Rightarrow> (command \<times> mc_reply) list" where
  "answers [] = []"
| "answers (m # ms) = (case m of Answer cmd r \<Rightarrow> [(cmd, r)] | Late op i r \<Rightarrow> []) @ answers ms"

definition late_ids :: "mc_frame list \<Rightarrow> nat set" where
  "late_ids ms = {i. \<exists>op r. Late op i r \<in> set ms}"

lemma answers_run:
  "list_all reply_ok ms \<Longrightarrow> running c = map fst (answers ms) @ q \<Longrightarrow> late_ids ms \<inter> cmd_id ` set (running c) = {} \<Longrightarrow>
    ok_run turn settle ms (c, w) \<and>
    (\<exists>c' w'. fold settle ms (c, w) = (c', w') \<and> running c' = q
       \<and> called w' = called w @ map (\<lambda>(cmd, r). reply_call cmd r) (answers ms)
       \<and> done_tags w' = done_tags w @ map (tag \<circ> fst) (answers ms))"
proof (induction ms arbitrary: c w)
  case (Cons m ms)
  show ?case
  proof (cases m)
    case (Answer cmd r)
    let ?c = "c\<lparr>running := tl (running c)\<rparr>" and ?w = "complete cmd (make_call (reply_call cmd r) w)"
    have "ok_run turn settle ms (?c, ?w) \<and> (\<exists>c' w'. fold settle ms (?c, ?w) = (c', w') \<and> running c' = q
        \<and> called w' = called ?w @ map (\<lambda>(cmd, r). reply_call cmd r) (answers ms)
        \<and> done_tags w' = done_tags ?w @ map (tag \<circ> fst) (answers ms))"
      by (rule Cons.IH) (use Cons.prems Answer in \<open>auto simp: late_ids_def\<close>)
    moreover have "turn m (c, w)" using Cons.prems Answer by (simp add: turn_def)
    ultimately show ?thesis using Cons.prems Answer by (auto simp: complete_def make_call_def)
  next
    case (Late op i r)
    have "i \<notin> cmd_id ` set (running c)" using Cons.prems(3) Late by (auto simp: late_ids_def)
    then have "turn m (c, w)" using Cons.prems(1) Late by (cases "running c") (auto simp: turn_def)
    moreover have "late_ids ms \<inter> cmd_id ` set (running c) = {}" using Cons.prems(3) by (auto simp: late_ids_def)
    ultimately show ?thesis using Cons.IH [of c w] Cons.prems Late by simp
  qed
qed auto

text \<open>C31. Pipelined answers reach their commands: when the server answers the oldest single-key commands in the
  order they were sent, each with any status, extras and value, then in whatever pieces the bytes
  arrive each command's callback is called exactly once, in order, with its own status and value, and
  no byte is left over. Answers that come late, with ids of commands that are no longer
  waited for, may stand anywhere between them and change nothing.\<close>

theorem memcache_replies_reach_commands:
  assumes "list_all reply_ok ms" and "running c = map fst (answers ms) @ q"
    and "late_ids ms \<inter> cmd_id ` set (running c) = {}"
    and "concat ds = concat (map (reply_packet e) ms)"
  shows "\<exists>c' w'. feed_pieces (codec e) ds ([], c, w) = Some ([], c', w') \<and> running c' = q
    \<and> called w' = called w @ map (\<lambda>(cmd, r). reply_call cmd r) (answers ms)
    \<and> done_tags w' = done_tags w @ map (tag \<circ> fst) (answers ms)"
  using mc_replies.feed_frames [of ms "(c, w)" ds e] answers_run [OF assms(1-3), of w] assms(4) by auto

definition two_commands :: "command list" where
  "two_commands = [(mc_Command_new 0 (SetCommand ''a'' ''1'' 0 0) 1)\<lparr>cmd_id := 7\<rparr>, (mc_Command_new 0 (GetCommand ''b'') 2)\<lparr>cmd_id := 8\<rparr>]"

definition empty_world :: world where
  "empty_world = \<lparr>get_handlers = (\<lambda>i. MultiKeyHandler_new), prefix_handlers = (\<lambda>i. MultiKeyHandler_new), called = [],
     done_tags = [], dropped_tags = []\<rparr>"

definition stored :: mc_reply where
  "stored = \<lparr>rstatus = 0, rextras = [], rvalue = []\<rparr>"

definition found :: mc_reply where
  "found = \<lparr>rstatus = 0, rextras = ''0000'', rvalue = ''xyz''\<rparr>"

theorem memcache_replies_reach_commands_witness:
  "\<exists>c' w'. feed_pieces (codec LittleEndian)
       [take 30 (reply_packet LittleEndian (Late CMD_GET 6 found) @ reply_packet LittleEndian (Answer (two_commands ! 0) stored)),
        drop 30 (reply_packet LittleEndian (Late CMD_GET 6 found) @ reply_packet LittleEndian (Answer (two_commands ! 0) stored))
          @ reply_packet LittleEndian (Answer (two_commands ! 1) found)]
       ([], (MemcacheClient_new True)\<lparr>running := two_commands\<rparr>, empty_world) = Some ([], c', w') \<and> running c' = []
    \<and> called w' = [SetCallback 1 ''a'' 0, GetCallback 2 ''b'' \<lparr>code = 0, val = ''xyz''\<rparr>]"
  using memcache_replies_reach_commands [of
      "[Late CMD_GET 6 found, Answer (two_commands ! 0) stored, Answer (two_commands ! 1) found]"
      "(MemcacheClient_new True)\<lparr>running := two_commands\<rparr>" "[]"
      "[take 30 (reply_packet LittleEndian (Late CMD_GET 6 found) @ reply_packet LittleEndian (Answer (two_commands ! 0) stored)),
        drop 30 (reply_packet LittleEndian (Late CMD_GET 6 found) @ reply_packet LittleEndian (Answer (two_commands ! 0) stored))
          @ reply_packet LittleEndian (Answer (two_commands ! 1) found)]" LittleEndian empty_world]
  by (auto simp: reply_ok_def opcode_of_def two_commands_def mc_Command_new_def stored_def found_def late_ids_def
      empty_world_def reply_call_def)

section \<open>Answers with many entries\<close>

definition entry :: "byte list \<times> byte list \<Rightarrow> byte list" where
  "entry x = be 4 (length (fst x)) @ fst x @ be 4 (length (snd x)) @ snd x"

lemma length_entry [simp]: "length (entry x) = 8 + length (fst x) + length (snd x)"
  by (simp add: entry_def)

lemma hton_be: "n < 2 ^ 32 \<Longrightarrow> hton e 4 (mem_value e (be 4 n)) = n"
  using be_value_be [of 4 n] by (simp add: be_value_def)

lemma mem_read_drop: "drop off m = x @ y \<Longrightarrow> off \<le> length m \<Longrightarrow> length x = n \<Longrightarrow> mem_read m off n = Some x"
proof -
  assume a: "drop off m = x @ y" "off \<le> length m" "length x = n"
  then have "length m - off = n + length y" by (metis length_append length_drop)
  then show ?thesis using a by (simp add: mem_read_def)
qed

lemma prefix_entries_step:
  assumes "pos < S" and "pos < n" and "u32 (pos + 4) = p1" and "p1 < n" and "mem_read buf (pv + pos) 4 = Some d1"
    and "hton e 4 (mem_value e d1) = kl" and "u32 (p1 + kl) = p2" and "p2 < n" and "mem_read buf (pv + p1) kl = Some k"
    and "u32 (p2 + 4) = p3" and "p3 < n" and "mem_read buf (pv + p2) 4 = Some d2"
    and "hton e 4 (mem_value e d2) = vl" and "u32 (p3 + vl) = p4" and "p4 < n" and "mem_read buf (pv + p3) vl = Some v"
  shows "prefix_entries e S n buf pv pos m = prefix_entries e S n buf pv p4 (if m k = None then m(k \<mapsto> v) else m)"
  by (subst prefix_entries.simps) (use assms in \<open>simp add: Let_def\<close>)

lemma prefix_entries_key_fault:
  assumes "pos < S" and "pos < n" and "u32 (pos + 4) = p1" and "p1 < n" and "mem_read buf (pv + pos) 4 = Some d1"
    and "hton e 4 (mem_value e d1) = kl" and "u32 (p1 + kl) = p2" and "p2 < n" and "mem_read buf (pv + p1) kl = None"
  shows "prefix_entries e S n buf pv pos m = None"
  by (subst prefix_entries.simps) (use assms in \<open>simp add: Let_def\<close>)

lemma prefix_entries_exact:
  assumes "length buf < 2 ^ 32" and "0 < pv" and "\<forall>x \<in> set es. kl \<le> length (fst x)"
    and "drop (pv + pos) buf = concat (map entry es) @ rest" and "pv + pos \<le> length buf"
    and "S + kl = pos + length (concat (map entry es))" and "kl \<le> pos"
  shows "prefix_entries e S (length buf) buf pv pos m = Some (map_of es ++ m)"
  using assms(3-)
proof (induction es arbitrary: pos m)
  case Nil
  then show ?case by (subst prefix_entries.simps) simp
next
  case (Cons x es)
  obtain k v where x: "x = (k, v)" by fastforce
  let ?L = "length (concat (map entry es))" and ?l = "length k" and ?r = "length v"
  have d: "drop (pv + pos) buf = be 4 ?l @ k @ be 4 ?r @ v @ concat (map entry es) @ rest"
    using Cons.prems(2) entry_def [of "(k, v)"] by (simp add: x)
  have len: "length buf = pv + pos + 8 + ?l + ?r + ?L + length rest"
    using arg_cong [OF d, of length] Cons.prems(3) by simp
  then have lt: "?l < 2 ^ 32" "?r < 2 ^ 32" using assms(1) by simp_all
  have d1: "drop (pv + (pos + 4)) buf = k @ be 4 ?r @ v @ concat (map entry es) @ rest"
    using arg_cong [OF d, of "drop 4"] by (simp add: ac_simps)
  have d2: "drop (pv + (pos + 4 + ?l)) buf = be 4 ?r @ v @ concat (map entry es) @ rest"
    using arg_cong [OF d1, of "drop ?l"] by (simp add: ac_simps)
  have d3: "drop (pv + (pos + 4 + ?l + 4)) buf = v @ concat (map entry es) @ rest"
    using arg_cong [OF d2, of "drop 4"] by (simp add: ac_simps)
  have d4: "drop (pv + (pos + 4 + ?l + 4 + ?r)) buf = concat (map entry es) @ rest"
    using arg_cong [OF d3, of "drop ?r"] by (simp add: ac_simps)
  have r: "mem_read buf (pv + pos) 4 = Some (be 4 ?l)" "mem_read buf (pv + (pos + 4)) ?l = Some k"
      "mem_read buf (pv + (pos + 4 + ?l)) 4 = Some (be 4 ?r)" "mem_read buf (pv + (pos + 4 + ?l + 4)) ?r = Some v"
    by (rule mem_read_drop [OF d], use len in simp, simp) (rule mem_read_drop [OF d1], use len in simp, simp,
      rule mem_read_drop [OF d2], use len in simp, simp, rule mem_read_drop [OF d3], use len in simp, simp)
  have u: "u32 (pos + 4) = pos + 4" "u32 (pos + 4 + ?l) = pos + 4 + ?l" "u32 (pos + 4 + ?l + 4) = pos + 4 + ?l + 4"
      "u32 (pos + 4 + ?l + 4 + ?r) = pos + 4 + ?l + 4 + ?r"
    using len assms(1) by (simp_all add: u32_def)
  have "kl \<le> ?l" using Cons.prems(1) by (simp add: x)
  then have lt_S: "pos < S" using Cons.prems(4) by (simp add: x)
  have "prefix_entries e S (length buf) buf pv pos m
      = prefix_entries e S (length buf) buf pv (pos + 4 + ?l + 4 + ?r) (if m k = None then m(k \<mapsto> v) else m)"
    by (rule prefix_entries_step [OF lt_S _ u(1) _ r(1) hton_be [OF lt(1)] u(2) _ r(2) u(3) _ r(3) hton_be [OF lt(2)] u(4) _ r(4)])
      (use len assms(2) in simp_all)
  moreover have "prefix_entries e S (length buf) buf pv (pos + 4 + ?l + 4 + ?r) (if m k = None then m(k \<mapsto> v) else m)
      = Some (map_of es ++ (if m k = None then m(k \<mapsto> v) else m))"
    by (rule Cons.IH) (use Cons.prems d4 len in \<open>simp_all add: x\<close>)
  moreover have "map_of es ++ (if m k = None then m(k \<mapsto> v) else m) = map_of (x # es) ++ m"
    by (auto simp: x map_add_def fun_eq_iff split: option.splits)
  ultimately show ?case by (simp only:)
qed

text \<open>C33. An answer to a prefix query reads back as the entries the server put into it: if every key in it is at least as long
  as the prefix, as keys that begin with it are, then all entries arrive, a key that occurs twice with its
  first value, together with the status, in one call of the callback. The loop stops at a bound that is
  too small by the length of the prefix, so a shorter key could be lost; this is where the condition comes from.\<close>

theorem prefix_answer_roundtrip:
  assumes "running c = cmd # q" and "kind cmd = PrefixGetCommand key r" and "cmd_id cmd < 2 ^ 32"
    and "K \<noteq> []" and "length K < 2 ^ 16" and "length exts < 256" and "st < 2 ^ 16"
    and "\<forall>x \<in> set es. length K \<le> length (fst x)"
    and "24 + length exts + length K + length (concat (map entry es)) < 2 ^ 32"
  shows "OnCodecMessage e (response e CMD_PGETK st (cmd_id cmd) exts K (concat (map entry es))) c w
    = Some ([], c\<lparr>running := q\<rparr>, complete cmd (make_call (PrefixGetCallback (tag cmd) key
        (r\<lparr>pcode := int st, result_map := map_of es ++ result_map r\<rparr>)) w))"
proof -
  let ?E = "concat (map entry es)" and ?op = "CMD_PGETK :: nat"
  let ?buf = "response e ?op st (cmd_id cmd) exts K ?E"
  have h: "read_header e ?buf = \<lparr>opcode = ?op, keylen = length K, extlen = length exts, status = st,
      bodylen = length exts + length K + length ?E, opaque = cmd_id cmd\<rparr>"
    using read_response [of ?op st "cmd_id cmd" exts K ?E e "[]"] assms by simp
  obtain H where H: "length H = 24" "?buf = H @ exts @ K @ ?E" using response_parts by blast
  have key: "mem_read ?buf (24 + length exts) (length K) = Some K" unfolding H(2) using H(1) by (simp add: mem_read_def)
  have sz: "u32_minus (u32_minus (length exts + length K + length ?E) (length K)) (length exts) = length ?E"
    using assms(9) by (simp add: u32_minus_ok)
  have "prefix_entries e (length ?E) (length ?buf) ?buf (24 + length exts) (length K) (result_map r)
      = Some (map_of es ++ result_map r)"
    by (rule prefix_entries_exact [where rest = "[]" and kl = "length K"]) (use assms H in \<open>simp_all add: H(2)\<close>)
  moreover have "u32 (length ?buf) = length ?buf" using assms(9) by (simp add: u32_def)
  ultimately have "decode_into e (read_header e ?buf) ?buf r = Some (r\<lparr>pcode := int st, result_map := map_of es ++ result_map r\<rparr>)"
    unfolding decode_into_def h by (simp add: sz kHeaderLen_def del: length_response)
  then have "OnResponsePacket e (read_header e ?buf) ?buf c w
      = Some ([], c\<lparr>running := q\<rparr>, complete cmd (make_call (PrefixGetCallback (tag cmd) key
          (r\<lparr>pcode := int st, result_map := map_of es ++ result_map r\<rparr>)) w))"
    using key assms(1,2,4)
    by (simp add: OnResponsePacket_def handle_answer_def DecodePrefixGetPacket_def OnPrefixGetCommandDone_def
        h kHeaderLen_def Let_def complete_def)
  then show ?thesis
    using OnCodecMessage_partial [of "[]" e] by (subst OnCodecMessage_step) (auto simp: h kHeaderLen_def)
qed

definition prefix_query :: command where
  "prefix_query = (mc_Command_new 0 (PrefixGetCommand ''ab'' PrefixGetResult_new) 4)\<lparr>cmd_id := 5\<rparr>"

theorem prefix_answer_roundtrip_witness:
  "OnCodecMessage LittleEndian
     (response LittleEndian CMD_PGETK 0 5 [] ''ab'' (concat (map entry [(''ab1'', ''x''), (''ab2'', [])])))
     ((MemcacheClient_new True)\<lparr>running := [prefix_query]\<rparr>) empty_world
   = Some ([], (MemcacheClient_new True)\<lparr>running := []\<rparr>, complete prefix_query (make_call (PrefixGetCallback 4 ''ab''
       \<lparr>pcode = 0, result_map = map_of [(''ab1'', ''x''), (''ab2'', [])] ++ Map.empty\<rparr>) empty_world))"
  using prefix_answer_roundtrip [of "(MemcacheClient_new True)\<lparr>running := [prefix_query]\<rparr>" prefix_query "[]" "''ab''"
      PrefixGetResult_new "''ab''" "[]" 0 "[(''ab1'', ''x''), (''ab2'', [])]" LittleEndian empty_world]
  by (simp add: prefix_query_def mc_Command_new_def PrefixGetResult_new_def del: map_of.simps map_add_empty)

section \<open>Answers that are fatal\<close>

lemma wrapped_read:
  assumes "length buf < 2 ^ 31" and "b < x" and "x < 256"
  shows "mem_read buf off (u32_minus b x) = None"
proof -
  have "u32_minus b x = b + 2 ^ 32 - x" using assms by (simp add: u32_minus_def)
  then show ?thesis using assms by (simp add: mem_read_def)
qed

lemma long_key_read:
  assumes "length buf < 2 ^ 31" and "pos < S" and "pos + 4 < length buf"
    and "mem_read buf (pv + pos) 4 = Some d" and "hton e 4 (mem_value e d) = 2 ^ 32 - 1"
  shows "prefix_entries e S (length buf) buf pv pos m = None"
proof -
  have "pos + 4 + (2 ^ 32 - 1) = pos + 3 + 2 ^ 32" by simp
  then have "u32 (pos + 4 + (2 ^ 32 - 1)) = (pos + 3) mod 2 ^ 32" by (simp only: u32_def mod_add_self2)
  then have u: "u32 (pos + 4) = pos + 4" "u32 (pos + 4 + (2 ^ 32 - 1)) = pos + 3" using assms(1,3) by (simp_all add: u32_def)
  have "mem_read buf (pv + (pos + 4)) (2 ^ 32 - 1) = None" using assms(1) by (simp add: mem_read_def)
  then show ?thesis
    by (intro prefix_entries_key_fault [OF assms(2) _ u(1) assms(3,4,5) u(2)]) (use assms(3) in simp_all)
qed

text \<open>C40. Three kinds of malformed answers make the client read outside its buffer or follow a null
  pointer: an answer to \<^verbatim>\<open>GET\<close> whose extras are longer than its body, so that the length of the value wraps
  around; an answer without a key to a \<^verbatim>\<open>PrefixGetCommand\<close>, which is how a server reports an error, because the
  failed \<^verbatim>\<open>dynamic_cast\<close> is not checked; and an answer to it whose first entry claims \<open>2 ^ 32 - 1\<close> bytes, because the
  bounds check wraps around. The answer only has to carry the id of the oldest command.\<close>

theorem malformed_answers_are_fatal:
  assumes "running c = cmd # q" and "opaque h = cmd_id cmd" and "length buf < 2 ^ 31" and "extlen h < 256"
    and "opcode h = CMD_GET \<and> bodylen h < extlen h
      \<or> (opcode h = CMD_PGETK \<or> opcode h = CMD_PGETKQ) \<and> kind cmd = PrefixGetCommand key r
        \<and> (keylen h = 0
           \<or> keylen h < u32_minus (u32_minus (bodylen h) (keylen h)) (extlen h) \<and> keylen h + 4 < length buf
             \<and> mem_read buf (kHeaderLen + extlen h + keylen h) 4 = Some d \<and> hton e 4 (mem_value e d) = 2 ^ 32 - 1)"
  shows "OnResponsePacket e h buf c w = None"
proof -
  have "u32 (length buf) = length buf" using assms(3) by (simp add: u32_def)
  then have long: "decode_into e h buf r = None"
    if "keylen h < u32_minus (u32_minus (bodylen h) (keylen h)) (extlen h)" "keylen h + 4 < length buf"
      "mem_read buf (kHeaderLen + extlen h + keylen h) 4 = Some d" "hton e 4 (mem_value e d) = 2 ^ 32 - 1"
    using long_key_read [OF assms(3) that, of "result_map r"] by (simp add: decode_into_def)
  have "handle_answer e h buf cmd q w = None"
    using assms(5)
  proof (elim disjE conjE)
    assume "opcode h = CMD_GET" "bodylen h < extlen h"
    then show ?thesis using wrapped_read [OF assms(3) _ assms(4)] by (simp add: handle_answer_def Let_def)
  qed (auto simp: handle_answer_def DecodePrefixGetPacket_def Let_def long mem_read_def)
  then show ?thesis using assms(1,2) by (simp add: OnResponsePacket_def Let_def)
qed

theorem malformed_answers_are_fatal_witness:
  "OnResponsePacket LittleEndian \<lparr>opcode = CMD_PGETK, keylen = 0, extlen = 0, status = 0x85, bodylen = 0, opaque = 5\<rparr>
     (response LittleEndian CMD_PGETK 0x85 5 [] [] []) ((MemcacheClient_new True)\<lparr>running := [prefix_query]\<rparr>) empty_world = None"
  by (rule malformed_answers_are_fatal [where cmd = prefix_query and q = "[]" and key = "''ab''" and r = PrefixGetResult_new])
    (simp_all add: prefix_query_def mc_Command_new_def)

end
