(* ===== verification/McPool.thy ===== *)
theory McPool
  imports McCodec
begin

text \<open>
  The two interfaces of the memcached client: \<^verbatim>\<open>MemcacheClientPool\<close>, which spreads commands over servers and loops,
  and \<^verbatim>\<open>MemcacheClientSerial\<close>, which has one server and one loop (\<^verbatim>\<open>memcache_client_pool.*\<close>,
  \<^verbatim>\<open>memcache_client_serial.*\<close> in \<^verbatim>\<open>src/apps/evmc\<close>). The pool is seen by one of its loops, as in \<open>McClient\<close>. The
  tags of new commands and the index of a new handler are arguments. The lemmas are about multi-key
  commands, timeouts and ids.
\<close>

section \<open>The pool\<close>

record pool_opts =
  filter_len :: nat
  key_filter :: "byte list"
  digest :: "byte list \<Rightarrow> byte list \<Rightarrow> nat"

definition filter_pos :: "pool_opts \<Rightarrow> byte list \<Rightarrow> nat" where
  "filter_pos po k =
     (if filter_len po > 0 then if length k < filter_len po then length k else filter_len po
      else length (takeWhile (\<lambda>c. c \<noteq> (if key_filter po = [] then CHR 0x00 else hd (key_filter po))) k))"
  \<comment> \<open>\<^verbatim>\<open>GET_FILTER_KEY_POS\<close>: the position found by \<^verbatim>\<open>find\<close>, or the length of the key\<close>

definition key_vbucket :: "pool_opts \<Rightarrow> byte list \<Rightarrow> multi_config \<Rightarrow> nat option" where
  "key_vbucket po k m = Multi_GetVbucketByKey (digest po) (take (filter_pos po k) k) m"

definition Pool_Start :: "mc_state \<Rightarrow> mc_state" where
  "Pool_Start s = fold BuilderMemClient (Multi_server_list (config s)) s"
  \<comment> \<open>the client table of one loop\<close>

definition submit :: "endian \<Rightarrow> pool_opts \<Rightarrow> byte list \<Rightarrow> cmd_kind \<Rightarrow> nat \<Rightarrow> mc_state \<Rightarrow> mc_state option" where
  "submit e po key k t s = do {
     vb \<leftarrow> key_vbucket po key (config s);
     let cmd = mc_Command_new vb k t;
     (sid, m) \<leftarrow> Multi_SelectServerId vb BAD_SERVER_ID (config s);
     (i, s) \<leftarrow> LaunchCommand e (set_server_id sid cmd) (s\<lparr>config := m\<rparr>);
     Some s }"
  \<comment> \<open>the common body of the single-key calls, with \<^verbatim>\<open>SET_SERVERID\<close>\<close>

definition Pool_Set :: "endian \<Rightarrow> pool_opts \<Rightarrow> byte list \<Rightarrow> byte list \<Rightarrow> nat \<Rightarrow> nat \<Rightarrow> nat \<Rightarrow> mc_state \<Rightarrow> mc_state option" where
  "Pool_Set e po key v flags expire = submit e po key (SetCommand key v flags expire)"

definition Pool_Remove :: "endian \<Rightarrow> pool_opts \<Rightarrow> byte list \<Rightarrow> nat \<Rightarrow> mc_state \<Rightarrow> mc_state option" where
  "Pool_Remove e po key = submit e po key (RemoveCommand key)"

definition Pool_Get :: "endian \<Rightarrow> pool_opts \<Rightarrow> byte list \<Rightarrow> nat \<Rightarrow> mc_state \<Rightarrow> mc_state option" where
  "Pool_Get e po key = submit e po key (GetCommand key)"

definition Pool_PrefixGet :: "endian \<Rightarrow> pool_opts \<Rightarrow> byte list \<Rightarrow> nat \<Rightarrow> mc_state \<Rightarrow> mc_state option" where
  "Pool_PrefixGet e po key = submit e po key (PrefixGetCommand key PrefixGetResult_new)"

fun add_key :: "nat \<Rightarrow> byte list \<Rightarrow> nat \<Rightarrow> (nat \<times> id_info) list \<Rightarrow> (nat \<times> id_info) list" where
  "add_key i k v [] = [(i, \<lparr>keys = [k], vbuckets = [v]\<rparr>)]"
| "add_key i k v ((j, f) # r) =
     (if i = j then (j, \<lparr>keys = keys f @ [k], vbuckets = vbuckets f @ [v]\<rparr>) # r
      else if i < j then (i, \<lparr>keys = [k], vbuckets = [v]\<rparr>) # (j, f) # r
      else (j, f) # add_key i k v r)"
  \<comment> \<open>an entry of \<^verbatim>\<open>serverid_keys\<close>, a map ordered by the ids\<close>

fun group_keys :: "pool_opts \<Rightarrow> byte list list \<Rightarrow> int list \<Rightarrow> (nat \<times> id_info) list \<Rightarrow> multi_config
    \<Rightarrow> ((nat \<times> id_info) list \<times> multi_config) option" where
  "group_keys po [] tbl g m = Some (g, m)"
| "group_keys po (k # ks) tbl g m = do {
     vb \<leftarrow> key_vbucket po k m;
     fid \<leftarrow> Multi_SelectServerFirstId vb m;
     t \<leftarrow> vec_at tbl (int fid);
     (t, m) \<leftarrow> (if t = -1 then do { (i, m) \<leftarrow> Multi_SelectServerId vb BAD_SERVER_ID m; Some (int i, m) } else Some (t, m));
     group_keys po ks (tbl[fid := t]) (add_key (nat (t mod 65536)) k vb g) m }"
  \<comment> \<open>the loop over the keys, with \<^verbatim>\<open>serverid_table\<close>\<close>

fun launch_each :: "endian \<Rightarrow> cmd_kind \<Rightarrow> (nat \<times> id_info) list \<Rightarrow> nat \<Rightarrow> mc_state \<Rightarrow> mc_state option" where
  "launch_each e k [] t s = Some s"
| "launch_each e k ((i, f) # g) t s = do {
     (j, s) \<leftarrow> LaunchCommand e (set_server_id i (mc_Command_new i k t)) s;
     launch_each e k g (t + 1) s }"
  \<comment> \<open>the server's id is passed to the constructor in the place of the bucket\<close>

definition Pool_MultiGet :: "endian \<Rightarrow> pool_opts \<Rightarrow> byte list list \<Rightarrow> nat \<Rightarrow> nat \<Rightarrow> mc_state \<Rightarrow> mc_state option" where
  "Pool_MultiGet e po ks h t s =
     (if ks = [] then Some (s\<lparr>wld := make_call (MultiGetCallback h Map.empty) (wld s)\<rparr>)
      else do {
        (g, m) \<leftarrow> group_keys po ks (replicate (length (Multi_server_list (config s))) (-1)) [] (config s);
        let hd = set_serverid_keys g (MultiKeyHandler_new\<lparr>mget_result := map_of (map (\<lambda>k. (k, GetResult_new)) ks)\<rparr>);
        launch_each e (MultiGetCommand h) g t
          (s\<lparr>config := m, wld := (wld s)\<lparr>get_handlers := (get_handlers (wld s))(h := hd)\<rparr>\<rparr>) })"

definition Pool_PrefixMultiGet :: "endian \<Rightarrow> pool_opts \<Rightarrow> byte list list \<Rightarrow> nat \<Rightarrow> nat \<Rightarrow> mc_state \<Rightarrow> mc_state option" where
  "Pool_PrefixMultiGet e po ks h t s =
     (if ks = [] then Some (s\<lparr>wld := make_call (PrefixMultiGetCallback h Map.empty) (wld s)\<rparr>)
      else do {
        (g, m) \<leftarrow> group_keys po ks (replicate (length (Multi_server_list (config s))) (-1)) [] (config s);
        let hd = set_serverid_keys g (MultiKeyHandler_new\<lparr>mget_result := map_of (map (\<lambda>k. (k, PrefixGetResult_new)) ks)\<rparr>);
        launch_each e (PrefixMultiGetCommand h) g t
          (s\<lparr>config := m, wld := (wld s)\<lparr>prefix_handlers := (prefix_handlers (wld s))(h := hd)\<rparr>\<rparr>) })"

section \<open>The serial client\<close>

record serial_client =
  serial_seq :: nat
  memclient :: mc_client
  serial_world :: world

definition serial_next_id :: "serial_client \<Rightarrow> nat \<times> serial_client" where
  "serial_next_id s = (let i = (serial_seq s + 1) mod 2 ^ 32 in (i, s\<lparr>serial_seq := i\<rparr>))"

definition Serial_LaunchCommand :: "endian \<Rightarrow> command \<Rightarrow> serial_client \<Rightarrow> serial_client option" where
  "Serial_LaunchCommand e cmd s =
     (let cmd = set_server_id 0 (set_server_id 0 cmd); c = memclient s
      in case mconn c of
           ConnUp \<Rightarrow> do {
             let (cmd, c) = PushRunningCommand cmd c;
             c \<leftarrow> Launch e cmd (serial_world s) c;
             Some (s\<lparr>memclient := c\<rparr>) }
         | ConnDown \<Rightarrow> do { w \<leftarrow> OnError ERR_CODE_NETWORK cmd (serial_world s); Some (s\<lparr>serial_world := w\<rparr>) }
         | _ \<Rightarrow> Some (s\<lparr>memclient := snd (PushWaitingCommand cmd c)\<rparr>))"

definition serial_submit :: "endian \<Rightarrow> cmd_kind \<Rightarrow> nat \<Rightarrow> serial_client \<Rightarrow> serial_client option" where
  "serial_submit e k t s =
     (let (i, s) = serial_next_id s in Serial_LaunchCommand e (set_id i (mc_Command_new 0 k t)) s)"

definition Serial_Set :: "endian \<Rightarrow> byte list \<Rightarrow> byte list \<Rightarrow> nat \<Rightarrow> nat \<Rightarrow> nat \<Rightarrow> serial_client \<Rightarrow> serial_client option" where
  "Serial_Set e k v flags expire = serial_submit e (SetCommand k v flags expire)"

definition Serial_Remove :: "endian \<Rightarrow> byte list \<Rightarrow> nat \<Rightarrow> serial_client \<Rightarrow> serial_client option" where
  "Serial_Remove e k = serial_submit e (RemoveCommand k)"

definition Serial_Get :: "endian \<Rightarrow> byte list \<Rightarrow> nat \<Rightarrow> serial_client \<Rightarrow> serial_client option" where
  "Serial_Get e k = serial_submit e (GetCommand k)"

definition Serial_MultiGet :: "endian \<Rightarrow> byte list list \<Rightarrow> nat \<Rightarrow> serial_client \<Rightarrow> serial_client option" where
  "Serial_MultiGet e ks t s =
     (if ks = [] then Some (s\<lparr>serial_world := make_call (SerialMultiGetCallback t Map.empty) (serial_world s)\<rparr>)
      else do {
        let (i, s) = serial_next_id s;
        cmd \<leftarrow> PacketRequests e ks (set_id i (mc_Command_new 0 (SerialMultiGetCommand [] Map.empty) t));
        Serial_LaunchCommand e cmd s })"

section \<open>Timeouts\<close>

text \<open>When the oldest command times out and is not tried again, only that command is failed, but no timer is
  left for the others: they stay in the queue with nothing that would ever time them out, unless another command
  is sent on this connection.\<close>

lemma timeout_leaves_rest_untimed:
  assumes "client_at a s = Some c" and "running c = cmd # q" and "cmd_id cmd = i" and "packet_timers c = [i]"
    and "\<not> ShouldRetry cmd" and "OnError ERR_CODE_TIMEOUT cmd (wld s) = Some w"
  shows "OnPacketTimeout e i a s =
    Some ((set_client a (c\<lparr>packet_timers := [], timer_canceled := True, running := q\<rparr>) s)\<lparr>wld := w\<rparr>)"
proof -
  let ?c = "c\<lparr>packet_timers := [], timer_canceled := True\<rparr>"
  have "drain e Running ERR_CODE_TIMEOUT (Some i) a (set_client a ?c s) = Some ((set_client a (?c\<lparr>running := q\<rparr>) s)\<lparr>wld := w\<rparr>)"
    by (subst drain.simps) (use assms in \<open>simp add: pop_def PopRunningCommand_def give_up_def fail_command_def\<close>)
  then show ?thesis using assms by (simp add: OnPacketTimeout_def Let_def)
qed

definition two_running :: mc_state where
  "two_running = \<lparr>clients = [(''m:1'', (MemcacheClient_new True)\<lparr>running :=
       [(mc_Command_new 0 (GetCommand ''a'') 1)\<lparr>cmd_id := 1, server_id_history := [0, 0]\<rparr>,
        (mc_Command_new 0 (GetCommand ''b'') 2)\<lparr>cmd_id := 2, server_id_history := [0, 0]\<rparr>],
       packet_timers := [1], timer_canceled := False, id_seq := 2, mconn := ConnUp\<rparr>)],
     wld = empty_world, config = \<lparr>conf = VbucketConfig_new 1, mode = STAND_ALONE_MODE, single_server = [''m:1'']\<rparr>,
     handed = [], picks = [], timeout_ms_zero = False\<rparr>"

lemma timeout_leaves_rest_untimed_witness:
  "\<exists>s c. OnPacketTimeout LittleEndian 1 ''m:1'' two_running = Some s \<and> client_at ''m:1'' s = Some c
     \<and> map tag (running c) = [2] \<and> packet_timers c = [] \<and> done_tags (wld s) = [1]"
proof -
  let ?c = "snd (hd (clients two_running))" and ?cmd = "hd (running (snd (hd (clients two_running))))"
  obtain w where w: "OnError ERR_CODE_TIMEOUT ?cmd (wld two_running) = Some w" "done_tags w = [1]"
    by (simp add: two_running_def OnError_def mc_Command_new_def complete_def make_call_def empty_world_def)
  have "OnPacketTimeout LittleEndian 1 ''m:1'' two_running = Some ((set_client ''m:1'' (?c\<lparr>packet_timers := [],
      timer_canceled := True, running := tl (running ?c)\<rparr>) two_running)\<lparr>wld := w\<rparr>)"
    by (rule timeout_leaves_rest_untimed [OF _ _ _ _ _ w(1)])
      (simp_all add: two_running_def client_at_def ShouldRetry_def mc_Command_new_def)
  then show ?thesis using w(2) by (simp add: two_running_def mc_Command_new_def)
qed

text \<open>C37. With one server and one loop, trying again does not help: a command that times out is sent again and put
  back into the queue that is just being emptied, because its id is set to \<open>0\<close> before the loop compares it
  with the one that timed out; the loop then takes it out once more and reports a timeout for it at once.\<close>

theorem retry_fails_at_once:
  assumes "mode (config s) = STAND_ALONE_MODE" and "single_server (config s) = [a]" and "picks s = True # ps"
    and "client_at a s = Some c" and "mconn c = ConnUp" and "running c = [cmd]" and "packet_timers c = [cmd_id cmd]"
    and "kind cmd = GetCommand k" and "server_id_history cmd = [0]"
    and "cmd_id cmd \<le> id_seq c" and "id_seq c + 1 < 2 ^ 32"
  shows "\<exists>s' c' b. OnPacketTimeout e (cmd_id cmd) a s = Some s' \<and> client_at a s' = Some c' \<and> running c' = []
    \<and> sent_packets c' = sent_packets c @ [b]
    \<and> called (wld s') = called (wld s) @ [GetCallback (tag cmd) k \<lparr>code = ERR_CODE_TIMEOUT, val = []\<rparr>]"
proof -
  let ?i = "cmd_id cmd" and ?j = "id_seq c + 1"
  let ?c1 = "c\<lparr>packet_timers := [], timer_canceled := True\<rparr>"
  have r: "retried cmd = cmd\<lparr>cmd_id := 0, server_id_history := [0, 0]\<rparr>" "ShouldRetry cmd"
    using assms(9) by (simp_all add: retried_def set_server_id_def set_id_def server_id_def ShouldRetry_def)
  let ?r = "cmd\<lparr>server_id_history := [0, 0], cmd_id := ?j\<rparr>"
  obtain b where b: "RequestBuffer e ?r (wld s) = Some b" using assms(8) by (auto simp: RequestBuffer_def)
  let ?c1' = "?c1\<lparr>running := []\<rparr>"
  obtain c3 where p: "PushRunningCommand (retried cmd) ?c1' = (?r, c3)" "running c3 = [?r]" "sent_packets c3 = sent_packets c"
    using assms(11) by (auto simp: r PushRunningCommand_def next_id_def set_id_def Let_def split: if_splits)
  define c2 where "c2 = c3\<lparr>sent_packets := sent_packets c @ [b]\<rparr>"
  have c2: "running c2 = [?r]" "sent_packets c2 = sent_packets c @ [b]" by (simp_all add: c2_def p)
  have run: "run_command e a (retried cmd) ((set_client a ?c1' s)\<lparr>picks := ps\<rparr>) = Some (?j, (set_client a c2 s)\<lparr>picks := ps\<rparr>)"
    using b by (simp add: run_command_def p Launch_def c2_def)
  have sel: "select_server (retried cmd) ((set_client a ?c1' s)\<lparr>picks := ps\<rparr>) = Some (0, (set_client a ?c1' s)\<lparr>picks := ps\<rparr>)"
    using assms(1,2) by (simp add: r select_server_def ShouldRetry_def Multi_SelectServerId_def)
  have L: "LaunchCommand e (retried cmd) (set_client a ?c1' s) = Some (?j, (set_client a c2 s)\<lparr>picks := ps\<rparr>)"
    using assms(1-5) run
    by (simp add: LaunchCommand_def DoLaunchCommand.simps sel Multi_GetServerAddrById_def BAD_SERVER_ID_def)
  let ?s2 = "(set_client a c2 s)\<lparr>picks := ps\<rparr>"
  obtain w where w: "OnError ERR_CODE_TIMEOUT ?r (wld s) = Some w"
      "called w = called (wld s) @ [GetCallback (tag cmd) k \<lparr>code = ERR_CODE_TIMEOUT, val = []\<rparr>]"
    using assms(8) by (simp add: OnError_def make_call_def complete_def)
  let ?s3 = "((set_client a (c2\<lparr>running := []\<rparr>) s)\<lparr>picks := ps\<rparr>)\<lparr>wld := w\<rparr>"
  have e3: "drain e Running ERR_CODE_TIMEOUT (Some ?i) a ?s3 = Some ?s3"
    by (subst drain.simps) (simp add: pop_def PopRunningCommand_def)
  have e2: "drain e Running ERR_CODE_TIMEOUT (Some ?i) a ?s2 = Some ?s3"
    by (subst drain.simps)
      (use assms(10) w(1) e3 c2(1) in \<open>simp add: pop_def PopRunningCommand_def give_up_def fail_command_def ShouldRetry_def\<close>)
  have "drain e Running ERR_CODE_TIMEOUT (Some ?i) a (set_client a ?c1 s) = Some ?s3"
    by (subst drain.simps)
      (use assms(6,10) L e2 r(2) in \<open>simp add: pop_def PopRunningCommand_def give_up_def\<close>)
  then have "OnPacketTimeout e ?i a s = Some ?s3" using assms(4,6,7) by (simp add: OnPacketTimeout_def Let_def)
  then show ?thesis using c2(2) w(2) by auto
qed

definition one_running :: mc_state where
  "one_running = \<lparr>clients = [(''m:1'', (MemcacheClient_new True)\<lparr>running :=
       [(mc_Command_new 0 (GetCommand ''a'') 7)\<lparr>cmd_id := 1, server_id_history := [0]\<rparr>],
       packet_timers := [1], timer_canceled := False, id_seq := 1, mconn := ConnUp\<rparr>)],
     wld = empty_world, config = \<lparr>conf = VbucketConfig_new 1, mode = STAND_ALONE_MODE, single_server = [''m:1'']\<rparr>,
     handed = [], picks = [True], timeout_ms_zero = False\<rparr>"

theorem retry_fails_at_once_witness:
  "\<exists>s' c' b. OnPacketTimeout LittleEndian 1 ''m:1'' one_running = Some s' \<and> client_at ''m:1'' s' = Some c' \<and> running c' = []
    \<and> sent_packets c' = [b] \<and> called (wld s') = [GetCallback 7 ''a'' \<lparr>code = ERR_CODE_TIMEOUT, val = []\<rparr>]"
  using retry_fails_at_once [of one_running "''m:1''" "[]" "snd (hd (clients one_running))"
      "hd (running (snd (hd (clients one_running))))" "''a''" LittleEndian]
  by (simp add: one_running_def client_at_def mc_Command_new_def MemcacheClient_new_def empty_world_def)

section \<open>Ids of the serial client\<close>

lemma quiet_reqs_keys:
  assumes "length (keys f) = length (vbuckets f)"
  shows "map rq_key (quiet_reqs quiet final f i) = keys f"
proof (cases "keys f = []")
  case False
  have "map rq_key (quiet_reqs quiet final f i) = butlast (map fst (zip (keys f) (vbuckets f))) @ [last (keys f)]"
    using False by (simp add: quiet_reqs_def key_req_def map_butlast split_def comp_def)
  then show ?thesis using False assms by simp
qed (simp add: quiet_reqs_def)

text \<open>C39. A multi-key command of the serial client that has to wait for the connection is never answered once the
  two id counters differ: its packets are made with an id of the serial client, then \<^verbatim>\<open>PushWaitingCommand\<close> gives the
  command an id of the connection, and every answer to the packets is thrown away.\<close>

theorem serial_multi_get_stale_id:
  assumes "mconn (memclient s) = NoConn" and "ks \<noteq> []" and "\<forall>k \<in> set ks. length k < 2 ^ 16"
    and "serial_seq s + 1 < 2 ^ 32" and "id_seq (memclient s) + 1 < 2 ^ 32" and "serial_seq s \<noteq> id_seq (memclient s)"
  shows "\<exists>s' cmd b rs. Serial_MultiGet e ks t s = Some s' \<and> waiting (memclient s') = waiting (memclient s) @ [cmd]
    \<and> RequestBuffer e cmd w = Some b \<and> parse_requests e b = Some rs \<and> map rq_key rs = ks
    \<and> (\<forall>r \<in> set rs. \<forall>h. opaque h = rq_opaque r \<longrightarrow>
         OnResponsePacket e h buf (c\<lparr>running := cmd # q\<rparr>) w = Some (drop (kHeaderLen + bodylen h) buf, c\<lparr>running := cmd # q\<rparr>, w))"
proof -
  let ?i = "serial_seq s + 1" and ?z = "replicate (length ks) 0"
  obtain b where b: "PacketRequest e CMD_GETKQ CMD_GETK ks ?z ?i = Some b"
    and p: "parse_requests e b = Some (quiet_reqs CMD_GETKQ CMD_GETK \<lparr>keys = ks, vbuckets = ?z\<rparr> ?i)"
    using parse_PacketRequest [of ks ?z CMD_GETKQ CMD_GETK ?i e] assms(3,4) by auto
  let ?cmd = "\<lparr>kind = SerialMultiGetCommand b Map.empty, cmd_id = id_seq (memclient s) + 1, vbucket_id = 0,
    server_id_history = [0, 0], tag = t\<rparr>"
  have 1: "\<exists>s'. Serial_MultiGet e ks t s = Some s' \<and> waiting (memclient s') = waiting (memclient s) @ [?cmd]"
    using assms b
    by (simp add: Serial_MultiGet_def serial_next_id_def PacketRequests_def mc_Command_new_def Serial_LaunchCommand_def
        set_server_id_def set_id_def PushWaitingCommand_def next_id_def Let_def)
  have 2: "map rq_key (quiet_reqs CMD_GETKQ CMD_GETK \<lparr>keys = ks, vbuckets = ?z\<rparr> ?i) = ks"
    using assms(2) by (simp add: quiet_reqs_keys)
  have 3: "rq_opaque r \<noteq> cmd_id ?cmd" if "r \<in> set (quiet_reqs CMD_GETKQ CMD_GETK \<lparr>keys = ks, vbuckets = ?z\<rparr> ?i)" for r
    using that assms(6) by (auto simp: quiet_reqs_def key_req_def split: if_splits)
  have "RequestBuffer e ?cmd w = Some b" by (simp add: RequestBuffer_def)
  with 1 2 3 p show ?thesis by (fastforce simp: OnResponsePacket_def Let_def)
qed

definition reconnecting :: serial_client where
  "reconnecting = \<lparr>serial_seq = 1, memclient = MemcacheClient_new True, serial_world = empty_world\<rparr>"

theorem serial_multi_get_stale_id_witness:
  "\<exists>s' cmd b rs. Serial_MultiGet LittleEndian [''k''] 4 reconnecting = Some s' \<and> waiting (memclient s') = [cmd]
    \<and> RequestBuffer LittleEndian cmd empty_world = Some b \<and> parse_requests LittleEndian b = Some rs \<and> map rq_key rs = [''k'']"
  using serial_multi_get_stale_id [of reconnecting "[''k'']" LittleEndian 4 empty_world "[]" "[]" "MemcacheClient_new True"]
  by (auto simp: reconnecting_def MemcacheClient_new_def)

section \<open>Keys of several servers\<close>

definition split_buckets :: multi_config where
  "split_buckets =
     \<lparr>conf = VbucketConfig_Load \<lparr>numReplicas = 1, hashAlgorithm = [], serverList = [''a'', ''b'', ''c''],
        vBucketMap = [[0, 1], [0, 2]]\<rparr> (VbucketConfig_new 7),
      mode = CLUSTER_MODE, single_server = []\<rparr>"

definition split_opts :: pool_opts where
  "split_opts = \<lparr>filter_len = 0, key_filter = [], digest = (\<lambda>a k. if k = ''x'' then 0 else 1)\<rparr>"

lemma split_fields:
  "mode split_buckets = CLUSTER_MODE" "vbucket_map (conf split_buckets) = [[0, 1], [0, 2]]"
  "server_health (conf split_buckets) = [1000, 1000, 1000]" "rand (conf split_buckets) = Random_new 7"
  "algorithm (conf split_buckets) = []"
  by (simp_all add: split_buckets_def VbucketConfig_Load_def VbucketConfig_new_def numeral_3_eq_3 weights)

lemmas split_simps = split_fields split_opts_def key_vbucket_def
  filter_pos_def Multi_GetVbucketByKey_def GetVbucketByKey_def Multi_SelectServerFirstId_def SelectServerFirstId_def
  bucket_def vec_at_def

lemma split_choice:
  "Multi_SelectServerId 0 BAD_SERVER_ID split_buckets =
     Some (1, split_buckets\<lparr>conf := (conf split_buckets)\<lparr>rand := 117649, server_health := [1000, 2000, 1000]\<rparr>\<rparr>)"
  "Multi_SelectServerId 1 1 split_buckets =
     Some (2, split_buckets\<lparr>conf := (conf split_buckets)\<lparr>rand := 117649, server_health := [1000, 500, 2000]\<rparr>\<rparr>)"
proof -
  have r: "Random_Next (Random_new 7) = 117649" by code_simp
  show "Multi_SelectServerId 0 BAD_SERVER_ID split_buckets =
     Some (1, split_buckets\<lparr>conf := (conf split_buckets)\<lparr>rand := 117649, server_health := [1000, 2000, 1000]\<rparr>\<rparr>)"
    by (simp add: split_simps r Multi_SelectServerId_def SelectServerId_def BAD_SERVER_ID_def map_put_def upper_bound_def
        raise_health_def lower_health_def weights Let_def numeral_3_eq_3)
  show "Multi_SelectServerId 1 1 split_buckets =
     Some (2, split_buckets\<lparr>conf := (conf split_buckets)\<lparr>rand := 117649, server_health := [1000, 500, 2000]\<rparr>\<rparr>)"
    by (simp add: split_simps r Multi_SelectServerId_def SelectServerId_def map_put_def upper_bound_def
        raise_health_def lower_health_def halve_def weights Let_def numeral_3_eq_3)
qed


text \<open>What can happen to the commands of one multi-key request: a quiet answer, the final answer, a failure.\<close>

datatype mget_event = Quiet nat "byte list" int "byte list" | Final nat "byte list" int "byte list" | Fail nat int
  \<comment> \<open>the server; the key, the status and the value of an answer; the error\<close>

definition part_cmd :: "nat \<Rightarrow> nat \<Rightarrow> nat \<Rightarrow> command" where
  "part_cmd h t i = set_server_id i (mc_Command_new i (MultiGetCommand h) t)"
  \<comment> \<open>the command that \<open>launch_each\<close> makes for a server\<close>

lemma part_cmd_simps [simp]: "vbucket_id (part_cmd h t i) = i" "kind (part_cmd h t i) = MultiGetCommand h"
  by (simp_all add: part_cmd_def set_server_id_def mc_Command_new_def)

fun mget_step :: "nat \<Rightarrow> nat \<Rightarrow> mget_event \<Rightarrow> world \<Rightarrow> world option" where
  "mget_step h t (Quiet i k r v) w =
     map_option snd (OnMultiGetCommandOneResponse r k v (part_cmd h t i) w)"
| "mget_step h t (Final i k r v) w = OnMultiGetCommandDone r k v (part_cmd h t i) w"
| "mget_step h t (Fail i err) w = OnError err (part_cmd h t i) w"

fun mget_run :: "nat \<Rightarrow> nat \<Rightarrow> mget_event list \<Rightarrow> world \<Rightarrow> world option" where
  "mget_run h t [] w = Some w"
| "mget_run h t (v # vs) w = do { w \<leftarrow> mget_step h t v w; mget_run h t vs w }"

fun answers_of :: "(nat \<times> id_info) list \<Rightarrow> nat list \<Rightarrow> mget_event list \<Rightarrow> bool" where
  "answers_of g ids [] \<longleftrightarrow> ids = []"
| "answers_of g ids (Quiet i k r v # vs) \<longleftrightarrow> i \<in> set ids \<and> k \<in> set (keys (the (map_of g i))) \<and> answers_of g ids vs"
| "answers_of g ids (Final i k r v # vs) \<longleftrightarrow>
     i \<in> set ids \<and> k \<in> set (keys (the (map_of g i))) \<and> answers_of g (remove1 i ids) vs"
| "answers_of g ids (Fail i err # vs) \<longleftrightarrow> i \<in> set ids \<and> answers_of g (remove1 i ids) vs"
  \<comment> \<open>each server of \<open>ids\<close> ends once, by a final answer or a failure, and says nothing afterwards\<close>

definition fail_keys :: "(nat \<times> id_info) list \<Rightarrow> nat \<Rightarrow> int \<Rightarrow> (byte list \<rightharpoonup> get_result) \<Rightarrow> (byte list \<rightharpoonup> get_result)" where
  "fail_keys g i err m = (\<lambda>k. if k \<in> set (keys (the (map_of g i))) then map_option (code_update (\<lambda>_. err)) (m k) else m k)"

fun effect :: "(nat \<times> id_info) list \<Rightarrow> mget_event \<Rightarrow> (byte list \<rightharpoonup> get_result) \<Rightarrow> (byte list \<rightharpoonup> get_result)" where
  "effect g (Quiet i k r v) m = (if r = 0 \<or> r = 1 then m(k \<mapsto> \<lparr>code = r, val = v\<rparr>) else fail_keys g i r m)"
| "effect g (Final i k r v) m = (if r = 0 \<or> r = 1 then m(k \<mapsto> \<lparr>code = r, val = v\<rparr>) else fail_keys g i r m)"
| "effect g (Fail i err) m = fail_keys g i err m"
  \<comment> \<open>what an event means for the result\<close>

lemma set_codes_all:
  assumes "\<And>r. f (f r) = f r" and "set ks \<subseteq> dom m"
  shows "set_codes f ks m = Some (\<lambda>k. if k \<in> set ks then map_option f (m k) else m k)"
  using assms(2)
proof (induction ks arbitrary: m)
  case (Cons k ks)
  then obtain r where r: "m k = Some r" by auto
  have "set ks \<subseteq> dom (m(k \<mapsto> f r))" using Cons.prems by auto
  then have "set_codes f (k # ks) m = Some (\<lambda>j. if j \<in> set ks then map_option f ((m(k \<mapsto> f r)) j) else (m(k \<mapsto> f r)) j)"
    by (simp add: r Cons.IH [of "m(k \<mapsto> f r)"] del: fun_upd_apply)
  also have "\<dots> = Some (\<lambda>j. if j \<in> set (k # ks) then map_option f (m j) else m j)"
    using r assms(1) by (auto simp: fun_eq_iff)
  finally show ?case .
qed simp

definition mget_state :: "(nat \<times> id_info) list \<Rightarrow> nat \<Rightarrow> nat \<Rightarrow> (byte list \<rightharpoonup> get_result) \<Rightarrow> world \<Rightarrow> bool" where
  "mget_state g h n m w \<longleftrightarrow> get_handlers w h = \<lparr>serverid_keys = g, finished_serverid_nums = n, serverid_size = length g, mget_result = m\<rparr>"

lemma mget_fail_keys:
  assumes "mget_state g h n m w" and "i \<in> fst ` set g" and "\<forall>(i, f) \<in> set g. set (keys f) \<subseteq> dom m" and "vbucket_id c = i"
  shows "\<exists>w'. fail_get_keys err c h w = Some w' \<and> mget_state g h n (fail_keys g i err m) w' \<and> called w' = called w"
proof -
  obtain f where f: "map_of g i = Some f" using assms(2) by (cases "map_of g i") (auto simp: map_of_eq_None_iff)
  then have "set (keys f) \<subseteq> dom m" using map_of_SomeD [OF f] assms(3) by blast
  from set_codes_all [OF _ this, of "code_update (\<lambda>_. err)"] f assms(1,4) show ?thesis
    by (simp add: fail_get_keys_def FindKeysByid_def mget_state_def fail_keys_def)
qed

lemma mget_one:
  assumes "mget_state g h n m w" and "i \<in> fst ` set g" and "\<forall>(i, f) \<in> set g. set (keys f) \<subseteq> dom m"
    and "k \<in> set (keys (the (map_of g i)))" and "vbucket_id c = i" and "kind c = MultiGetCommand h"
  shows "\<exists>w'. OnMultiGetCommandOneResponse r k v c w = Some (c, w') \<and> mget_state g h n (effect g (Quiet i k r v) m) w'
    \<and> called w' = called w"
proof (cases "r = 0 \<or> r = 1")
  case True
  obtain f where f: "map_of g i = Some f" using assms(2) by (cases "map_of g i") (auto simp: map_of_eq_None_iff)
  then have "k \<in> dom m" using map_of_SomeD [OF f] assms(3,4) by auto
  then obtain x where "m k = Some x" by blast
  then show ?thesis
    using True assms(1,6) by (auto simp: OnMultiGetCommandOneResponse_def mget_state_def)
next
  case False
  then show ?thesis
    using mget_fail_keys [OF assms(1-3,5), of r] assms(6) by (auto simp: OnMultiGetCommandOneResponse_def)
qed

lemma mget_finish:
  assumes "mget_state g h n m w" and "n < length g" and "length g < 2 ^ 32"
  shows "if n + 1 = length g then called (finish_get h w) = called w @ [MultiGetCallback h m]
    else mget_state g h (n + 1) m (finish_get h w) \<and> called (finish_get h w) = called w"
  using assms by (simp add: finish_get_def FinishedOne_def mget_state_def make_call_def Let_def)

fun ends :: "mget_event \<Rightarrow> bool" where
  "ends (Quiet i k r v) = False"
| "ends v = True"

lemma effect_dom: "dom (effect g v m) \<supseteq> dom m"
  by (cases v) (auto simp: fail_keys_def dom_def)

lemma fold_effect_dom: "dom m \<subseteq> dom (fold (effect g) vs m)"
proof (induction vs arbitrary: m)
  case (Cons v vs)
  show ?case using subset_trans [OF effect_dom Cons.IH] by simp
qed simp

lemma mget_step_ok:
  assumes "mget_state g h n m w" and "n < length g" and "length g < 2 ^ 32" and "\<forall>(i, f) \<in> set g. set (keys f) \<subseteq> dom m"
    and "answers_of g ids (v # vs)" and "set ids \<subseteq> fst ` set g"
  shows "\<exists>w'. mget_step h t v w = Some w' \<and>
    (if \<not> ends v then mget_state g h n (effect g v m) w' \<and> called w' = called w
     else if n + 1 = length g then called w' = called w @ [MultiGetCallback h (effect g v m)]
     else mget_state g h (n + 1) (effect g v m) w' \<and> called w' = called w)"
proof (cases v)
  case (Quiet i k r b)
  then have "i \<in> fst ` set g" "k \<in> set (keys (the (map_of g i)))" using assms(5,6) by auto
  from mget_one [OF assms(1) this(1) assms(4) this(2), of "part_cmd h t i" r b] Quiet show ?thesis by auto
next
  case (Final i k r b)
  then have "i \<in> fst ` set g" "k \<in> set (keys (the (map_of g i)))" using assms(5,6) by auto
  from mget_one [OF assms(1) this(1) assms(4) this(2), of "part_cmd h t i" r b] Final
  obtain w1 where w1: "OnMultiGetCommandOneResponse r k b (part_cmd h t i) w = Some (part_cmd h t i, w1)"
      "mget_state g h n (effect g v m) w1" "called w1 = called w" by auto
  then have "mget_step h t v w = Some (complete (part_cmd h t i) (finish_get h w1))"
    by (simp add: Final OnMultiGetCommandDone_def)
  then show ?thesis
    using mget_finish [OF w1(2) assms(2,3)] w1(3) Final by (simp add: complete_def mget_state_def split: if_splits)
next
  case (Fail i err)
  then have "i \<in> fst ` set g" using assms(5,6) by auto
  from mget_fail_keys [OF assms(1) this assms(4), of "part_cmd h t i" err] Fail
  obtain w1 where w1: "fail_get_keys err (part_cmd h t i) h w = Some w1" "mget_state g h n (effect g v m) w1"
      "called w1 = called w" by auto
  then have "mget_step h t v w = Some (complete (part_cmd h t i) (finish_get h w1))" by (simp add: Fail OnError_def)
  then show ?thesis
    using mget_finish [OF w1(2) assms(2,3)] w1(3) Fail by (simp add: complete_def mget_state_def split: if_splits)
qed

lemma answers_Nil [simp]: "answers_of g [] vs \<longleftrightarrow> vs = []"
  by (cases "(g, [] :: nat list, vs)" rule: answers_of.cases) auto

lemma mget_run_ok:
  assumes "mget_state g h n m w" and "length g = n + length ids" and "ids \<noteq> []" and "length g < 2 ^ 32"
    and "\<forall>(i, f) \<in> set g. set (keys f) \<subseteq> dom m" and "answers_of g ids vs" and "set ids \<subseteq> fst ` set g"
  shows "\<exists>w'. mget_run h t vs w = Some w' \<and> called w' = called w @ [MultiGetCallback h (fold (effect g) vs m)]"
  using assms
proof (induction vs arbitrary: n m w ids)
  case (Cons v vs)
  have n: "n < length g" using Cons.prems(2,3) by simp
  obtain w1 where w1: "mget_step h t v w = Some w1" and
    s: "if \<not> ends v then mget_state g h n (effect g v m) w1 \<and> called w1 = called w
     else if n + 1 = length g then called w1 = called w @ [MultiGetCallback h (effect g v m)]
     else mget_state g h (n + 1) (effect g v m) w1 \<and> called w1 = called w"
    using mget_step_ok [OF Cons.prems(1) n Cons.prems(4-7), of t] by blast
  have d: "\<forall>(i, f) \<in> set g. set (keys f) \<subseteq> dom (effect g v m)"
    using Cons.prems(5) effect_dom [of m g v] by fast
  show ?case
  proof (cases "ends v")
    case False
    have v: "answers_of g ids vs" using Cons.prems(6) False by (cases v) auto
    have s1: "mget_state g h n (effect g v m) w1" "called w1 = called w" using s False by auto
    from Cons.IH [OF s1(1) Cons.prems(2-4) d v Cons.prems(7)] s1(2) w1 show ?thesis by simp
  next
    case True
    then obtain i where i: "i \<in> set ids" "answers_of g (remove1 i ids) vs" using Cons.prems(6) by (cases v) auto
    show ?thesis
    proof (cases "remove1 i ids = []")
      case True
      then have "vs = []" "n + 1 = length g"
        using i Cons.prems(2,3) length_remove1 [of i ids] by (cases ids; auto)+
      then show ?thesis using s \<open>ends v\<close> w1 by simp
    next
      case False
      have sub: "set (remove1 i ids) \<subseteq> fst ` set g" using Cons.prems(7) set_remove1_subset [of i ids] by blast
      have "0 < length ids" using Cons.prems(3) by simp
      then have len: "length g = n + 1 + length (remove1 i ids)" using i(1) Cons.prems(2) by (simp add: length_remove1)
      moreover have "0 < length (remove1 i ids)" using False by blast
      ultimately have s1: "mget_state g h (n + 1) (effect g v m) w1" "called w1 = called w" using s \<open>ends v\<close> by auto
      from Cons.IH [OF s1(1) len False Cons.prems(4) d i(2) sub] s1(2) w1 show ?thesis by simp
    qed
  qed
qed simp

lemma add_key_ids: "fst ` set (add_key i k v g) = insert i (fst ` set g)"
  by (induction i k v g rule: add_key.induct) auto

lemma add_key_sorted: "sorted_wrt (<) (map fst g) \<Longrightarrow> sorted_wrt (<) (map fst (add_key i k v g))"
proof (induction i k v g rule: add_key.induct)
  case (2 i k v j f r)
  have "j < x" if "x \<in> fst ` set (add_key i k v r)" "j < i" for x
    using that 2(2) unfolding add_key_ids by auto
  then show ?case using 2 by auto
qed simp

lemma add_key_keys: "(\<Union>f \<in> snd ` set (add_key i k v g). set (keys f)) = insert k (\<Union>f \<in> snd ` set g. set (keys f))"
  by (induction i k v g rule: add_key.induct) auto

lemma length_add_key: "length (add_key i k v g) \<le> length g + 1"
  by (induction i k v g rule: add_key.induct) auto

lemma group_keys_ok:
  assumes "group_keys po ks tbl g m = Some (g', m')" and "sorted_wrt (<) (map fst g)"
  shows "sorted_wrt (<) (map fst g') \<and> (\<Union>f \<in> snd ` set g'. set (keys f)) = set ks \<union> (\<Union>f \<in> snd ` set g. set (keys f))
    \<and> length g' \<le> length g + length ks"
  using assms
proof (induction ks arbitrary: tbl g m)
  case (Cons k ks)
  then obtain i vb tbl' m1 where r: "group_keys po ks tbl' (add_key i k vb g) m1 = Some (g', m')"
    by (auto simp: bind_eq_Some_conv split: if_splits)
  from Cons.IH [OF r add_key_sorted [OF Cons.prems(2)], unfolded add_key_keys] length_add_key [of i k vb g] show ?case
    by simp
qed simp

text \<open>C30. A multi-key request is answered exactly once: however the answers and failures of its servers
  interleave, the callback is made when the last server has answered or failed, and not before, with a
  result for every key asked for, in which each answer and each failure has had its effect on the keys it is
  about and on no other.\<close>

theorem multi_get_completes_once:
  assumes "group_keys po ks tbl [] m = Some (g, m')" and "ks \<noteq> []" and "length ks < 2 ^ 32"
    and "get_handlers w h = set_serverid_keys g (MultiKeyHandler_new\<lparr>mget_result := map_of (map (\<lambda>k. (k, GetResult_new)) ks)\<rparr>)"
    and "answers_of g (map fst g) vs"
  shows "\<exists>w' r. mget_run h t vs w = Some w' \<and> called w' = called w @ [MultiGetCallback h r] \<and> set ks \<subseteq> dom r
    \<and> r = fold (effect g) vs (\<lambda>k. if k \<in> set ks then Some GetResult_new else None)"
proof -
  let ?m = "map_of (map (\<lambda>k. (k, GetResult_new)) ks)"
  have m: "?m = (\<lambda>k. if k \<in> set ks then Some GetResult_new else None)" by (auto simp: map_of_map_restrict fun_eq_iff)
  have g: "(\<Union>f \<in> snd ` set g. set (keys f)) = set ks" "length g \<le> length ks" using group_keys_ok [OF assms(1)] by auto
  have "g \<noteq> []" using g(1) assms(2) by auto
  moreover have "mget_state g h 0 ?m w"
    using assms(4) by (simp add: mget_state_def set_serverid_keys_def MultiKeyHandler_new_def)
  moreover have "\<forall>(i, f) \<in> set g. set (keys f) \<subseteq> dom ?m" using g(1) by (force simp: m)
  ultimately obtain w' where w': "mget_run h t vs w = Some w'" "called w' = called w @ [MultiGetCallback h (fold (effect g) vs ?m)]"
    using mget_run_ok [of g h 0 ?m w "map fst g" vs t] assms(3,5) g(2) by auto
  have "set ks \<subseteq> dom ?m" by (auto simp: m)
  then have "set ks \<subseteq> dom (fold (effect g) vs ?m)" using fold_effect_dom by (rule subset_trans)
  with w' show ?thesis unfolding m by blast
qed

definition two_groups :: "(nat \<times> id_info) list" where
  "two_groups = [(0, \<lparr>keys = [''x''], vbuckets = [0]\<rparr>), (1, \<lparr>keys = [''y'', ''z''], vbuckets = [1, 1]\<rparr>)]"

definition two_buckets :: multi_config where
  "two_buckets =
     \<lparr>conf = VbucketConfig_Load \<lparr>numReplicas = 0, hashAlgorithm = [], serverList = [''a'', ''b''],
        vBucketMap = [[0], [1]]\<rparr> (VbucketConfig_new 7),
      mode = CLUSTER_MODE, single_server = []\<rparr>"

definition two_servers_asked :: world where
  "two_servers_asked = empty_world\<lparr>get_handlers := (\<lambda>h. set_serverid_keys two_groups
     (MultiKeyHandler_new\<lparr>mget_result := map_of (map (\<lambda>k. (k, GetResult_new)) [''x'', ''y'', ''z''])\<rparr>))\<rparr>"

theorem multi_get_completes_once_witness:
  "\<exists>w' r. mget_run 0 5 [Quiet 1 ''y'' 0 ''v'', Fail 0 ERR_CODE_TIMEOUT, Final 1 ''z'' 1 []] two_servers_asked = Some w'
     \<and> called w' = [MultiGetCallback 0 r] \<and> r ''x'' = Some \<lparr>code = ERR_CODE_TIMEOUT, val = []\<rparr>
     \<and> r ''y'' = Some \<lparr>code = 0, val = ''v''\<rparr> \<and> r ''z'' = Some \<lparr>code = 1, val = []\<rparr>"
proof -
  have f: "mode two_buckets = CLUSTER_MODE" "vbucket_map (conf two_buckets) = [[0], [1]]"
      "server_health (conf two_buckets) = [1000, 1000]"
    by (simp_all add: two_buckets_def VbucketConfig_Load_def VbucketConfig_new_def numeral_2_eq_2 weights)
  have "\<exists>m'. group_keys split_opts [''x'', ''y'', ''z''] [-1, -1] [] two_buckets = Some (two_groups, m')"
    by (simp add: f split_simps two_groups_def Multi_SelectServerId_def SelectServerId_def BAD_SERVER_ID_def map_put_def
        upper_bound_def raise_health_def lower_health_def weights Let_def)
  then obtain m' where g: "group_keys split_opts [''x'', ''y'', ''z''] [-1, -1] [] two_buckets = Some (two_groups, m')" by blast
  have "answers_of two_groups (map fst two_groups) [Quiet 1 ''y'' 0 ''v'', Fail 0 ERR_CODE_TIMEOUT, Final 1 ''z'' 1 []]"
    by (simp add: two_groups_def)
  from multi_get_completes_once [OF g _ _ _ this, of two_servers_asked 0 5] show ?thesis
    by (auto simp: two_servers_asked_def empty_world_def two_groups_def fail_keys_def GetResult_new_def)
qed

end
