(* ===== verification/McFlow.thy ===== *)
theory McFlow
  imports McPool
begin

text \<open>
  Where the commands of the memcached client are: whatever happens to the connections and timers of a loop, every
  single-key command is waiting, running, handed to another loop, or done, exactly one of these, and
  it is done once. The events are calls of the interface, connections that come up, go down or fail,
  timers that fire, and answers of servers.
\<close>

section \<open>Accounting\<close>

definition single :: "command \<Rightarrow> bool" where
  "single cmd = (case kind cmd of MultiGetCommand i \<Rightarrow> False | PrefixMultiGetCommand i \<Rightarrow> False
     | SerialMultiGetCommand b m \<Rightarrow> False | _ \<Rightarrow> True)"

definition queue_cmds :: "mc_client \<Rightarrow> command list" where
  "queue_cmds c = running c @ waiting c"

definition in_flight :: "mc_state \<Rightarrow> command list" where
  "in_flight s = concat (map (queue_cmds \<circ> snd) (clients s)) @ handed s"

definition accounted :: "mc_state \<Rightarrow> nat multiset" where
  "accounted s = mset (map tag (in_flight s)) + mset (done_tags (wld s)) + mset (dropped_tags (wld s))"

definition good :: "multi_config \<Rightarrow> command \<Rightarrow> bool" where
  "good m cmd \<longleftrightarrow> single cmd \<and> server_id_history cmd \<noteq> [] \<and> Multi_GetServerAddrById (server_id cmd) m \<noteq> None"

definition timers_ok :: "mc_client \<Rightarrow> bool" where
  "timers_ok c \<longleftrightarrow> timer_canceled c = (packet_timers c = []) \<and> length (packet_timers c) \<le> 1
     \<and> con_timer_canceled c = (connect_timers c = []) \<and> length (connect_timers c) \<le> 1"
  \<comment> \<open>the flags tell whether a timer is pending, and there is never more than one of a kind\<close>

definition mc_inv :: "mc_state \<Rightarrow> bool" where
  "mc_inv s \<longleftrightarrow> multi_ok (config s) \<and> (\<forall>cmd \<in> set (in_flight s). good (config s) cmd)
     \<and> (\<forall>x \<in> set (clients s). timers_ok (snd x))"

definition cmd_weight :: "command \<Rightarrow> nat" where
  "cmd_weight cmd = (if ShouldRetry cmd then 2 else 1)"

definition queue_at :: "mc_queue \<Rightarrow> byte list \<Rightarrow> mc_state \<Rightarrow> command list" where
  "queue_at q a s = (case client_at a s of None \<Rightarrow> [] | Some c \<Rightarrow> (case q of Running \<Rightarrow> running c | Waiting \<Rightarrow> waiting c))"

definition queue_weight :: "mc_queue \<Rightarrow> byte list \<Rightarrow> mc_state \<Rightarrow> nat" where
  "queue_weight q a s = sum_list (map cmd_weight (queue_at q a s))"

definition adds :: "command \<Rightarrow> mc_state \<Rightarrow> mc_state \<Rightarrow> bool" where
  "adds cmd s s' \<longleftrightarrow> mc_inv s' \<and> accounted s' = add_mset (tag cmd) (accounted s)
     \<and> (\<forall>q a. queue_weight q a s' \<le> queue_weight q a s + cmd_weight cmd)
     \<and> (\<forall>j. Multi_GetServerAddrById j (config s') = Multi_GetServerAddrById j (config s))
     \<and> (\<forall>a. client_at a s \<noteq> None \<longrightarrow> client_at a s' \<noteq> None)"
  \<comment> \<open>the command has come to the state, in one place\<close>

lemma update_old:
  "map_of xs a = Some c \<Longrightarrow>
    mset (concat (map (f \<circ> snd) (AList.update a c' xs))) + mset (f c) = mset (concat (map (f \<circ> snd) xs)) + mset (f c')"
  by (induction xs) (auto simp: ac_simps split: if_splits)

lemma update_new:
  "map_of xs a = None \<Longrightarrow> mset (concat (map (f \<circ> snd) (AList.update a c' xs))) = mset (concat (map (f \<circ> snd) xs)) + mset (f c')"
  by (induction xs) (auto simp: ac_simps split: if_splits)

lemma update_set: "x \<in> set (AList.update a c xs) \<Longrightarrow> x \<in> set xs \<or> snd x = c"
  by (induction xs) (auto split: if_splits)

lemma map_of_member: "map_of xs a = Some c \<Longrightarrow> \<exists>x \<in> set xs. snd x = c"
  by (force dest: map_of_SomeD)

lemma concat_comp: "map tag (concat (map (queue_cmds \<circ> snd) xs)) = concat (map ((map tag \<circ> queue_cmds) \<circ> snd) xs)"
  by (simp add: map_concat comp_def)

lemma accounted_set:
  assumes "client_at a s = Some c"
  shows "accounted (set_client a c' s) + mset (map tag (queue_cmds c)) = accounted s + mset (map tag (queue_cmds c'))"
  using update_old [of "clients s" a c "map tag \<circ> queue_cmds" c'] assms
  by (simp add: accounted_def in_flight_def concat_comp set_client_def client_at_def del: map_map)

lemma accounted_new:
  assumes "client_at a s = None"
  shows "accounted (set_client a c' s) = accounted s + mset (map tag (queue_cmds c'))"
  using update_new [of "clients s" a "map tag \<circ> queue_cmds" c'] assms
  by (simp add: accounted_def in_flight_def concat_comp set_client_def client_at_def del: map_map)

lemma in_flight_set: "cmd \<in> set (in_flight (set_client a c s)) \<Longrightarrow> cmd \<in> set (in_flight s) \<or> cmd \<in> set (queue_cmds c)"
  using update_set [of _ a c "clients s"] by (fastforce simp: in_flight_def set_client_def)

lemma in_flight_client: "client_at a s = Some c \<Longrightarrow> set (queue_cmds c) \<subseteq> set (in_flight s)"
  using map_of_member [of "clients s" a c] by (auto simp: in_flight_def client_at_def)

lemma timers_client: "client_at a s = Some c \<Longrightarrow> mc_inv s \<Longrightarrow> timers_ok c"
  using map_of_member [of "clients s" a c] by (auto simp: mc_inv_def client_at_def)

lemma mc_inv_set:
  assumes "mc_inv s" and "timers_ok c" and "\<forall>cmd \<in> set (queue_cmds c). good (config s) cmd"
  shows "mc_inv (set_client a c s)"
proof -
  have "\<forall>x \<in> set (clients (set_client a c s)). timers_ok (snd x)"
    using assms(1,2) update_set [of _ a c "clients s"] by (auto simp: mc_inv_def set_client_def)
  then show ?thesis using assms in_flight_set [of _ a c s] by (auto simp: mc_inv_def)
qed

lemma good_set_id [simp]: "good m (set_id i cmd) = good m cmd"
  by (simp add: good_def single_def set_id_def server_id_def)

lemma set_id_same [simp]: "tag (set_id i cmd) = tag cmd" "cmd_weight (set_id i cmd) = cmd_weight cmd"
  by (simp_all add: set_id_def cmd_weight_def ShouldRetry_def)

lemma good_addr: "(\<And>j. Multi_GetServerAddrById j m' = Multi_GetServerAddrById j m) \<Longrightarrow> good m' cmd = good m cmd"
  by (simp add: good_def)

section \<open>Launching\<close>

lemma adds_client:
  assumes "mc_inv s" and "client_at a s = Some c" and "good (config s) cmd" and "timers_ok c'"
    and "running c' = running c @ [set_id i cmd] \<and> waiting c' = waiting c
       \<or> running c' = running c \<and> waiting c' = waiting c @ [set_id i cmd]"
  shows "adds cmd s (set_client a c' s)"
proof -
  have "accounted (set_client a c' s) + mset (map tag (queue_cmds c)) = accounted s + mset (map tag (queue_cmds c'))"
    by (rule accounted_set [OF assms(2)])
  moreover have "mset (map tag (queue_cmds c')) = add_mset (tag cmd) (mset (map tag (queue_cmds c)))"
    using assms(5) by (auto simp: queue_cmds_def)
  ultimately have "accounted (set_client a c' s) = add_mset (tag cmd) (accounted s)" by simp
  moreover have "\<forall>x \<in> set (queue_cmds c). good (config s) x"
    using in_flight_client [OF assms(2)] assms(1) by (auto simp: mc_inv_def)
  then have "mc_inv (set_client a c' s)"
    using assms by (intro mc_inv_set) (auto simp: queue_cmds_def)
  moreover have "queue_weight q b (set_client a c' s) \<le> queue_weight q b s + cmd_weight cmd" for q b
    using assms(2,5) by (cases q) (auto simp: queue_weight_def queue_at_def)
  ultimately show ?thesis by (simp add: adds_def)
qed

lemma push_waiting_adds:
  assumes "mc_inv s" and "client_at a s = Some c" and "good (config s) cmd"
  shows "\<exists>i s'. push_waiting a cmd s = Some (i, s') \<and> adds cmd s s'"
proof -
  obtain cmd' c' where p: "PushWaitingCommand cmd c = (cmd', c')" by fastforce
  let ?i = "(id_seq c + 1) mod 2 ^ 32"
  have "timers_ok c'" using p timers_client [OF assms(2,1)]
    by (auto simp: PushWaitingCommand_def next_id_def timers_ok_def Let_def split: if_splits)
  moreover have "running c' = running c \<and> waiting c' = waiting c @ [set_id ?i cmd]"
    using p by (auto simp: PushWaitingCommand_def next_id_def Let_def split: if_splits)
  ultimately have "adds cmd s (set_client a c' s)" using assms by (intro adds_client) auto
  then show ?thesis using assms(2) p by (simp add: push_waiting_def)
qed

lemma single_request: "single cmd \<Longrightarrow> \<exists>b. RequestBuffer e cmd w = Some b"
  by (auto simp: single_def RequestBuffer_def split: cmd_kind.splits)

lemma set_id_id: "set_id (cmd_id cmd) cmd = cmd"
  by (simp add: set_id_def)

lemma run_command_adds:
  assumes "mc_inv s" and "client_at a s = Some c" and "good (config s) cmd"
  shows "\<exists>i s'. run_command e a cmd s = Some (i, s') \<and> adds cmd s s'"
proof -
  obtain cmd' c' where p: "PushRunningCommand cmd c = (cmd', c')" by fastforce
  define i where "i = (if cmd_id cmd = 0 then (id_seq c + 1) mod 2 ^ 32 else cmd_id cmd)"
  have t: "timers_ok c'" using p timers_client [OF assms(2,1)]
    by (auto simp: PushRunningCommand_def next_id_def timers_ok_def Let_def split: if_splits)
  have r: "cmd' = set_id i cmd" "running c' = running c @ [set_id i cmd]" "waiting c' = waiting c"
    using p by (auto simp: PushRunningCommand_def next_id_def Let_def set_id_id i_def split: if_splits)
  have "single cmd'" using assms(3) r(1) by (simp add: good_def single_def set_id_def)
  then obtain b where b: "RequestBuffer e cmd' (wld s) = Some b" using single_request by blast
  have "adds cmd s (set_client a (c'\<lparr>sent_packets := sent_packets c' @ [b]\<rparr>) s)"
    by (rule adds_client [OF assms, of _ i]) (use t r in \<open>simp_all add: timers_ok_def\<close>)
  then show ?thesis using assms(2) p b by (simp add: run_command_def Launch_def)
qed

lemma OnError_single:
  assumes "single cmd"
  shows "\<exists>w'. OnError err cmd w = Some w' \<and> done_tags w' = done_tags w @ [tag cmd] \<and> dropped_tags w' = dropped_tags w"
  using assms by (auto simp: single_def OnError_def complete_def make_call_def split: cmd_kind.splits)

lemma mc_inv_wld [simp]: "mc_inv (s\<lparr>wld := w\<rparr>) = mc_inv s"
  by (simp add: mc_inv_def in_flight_def)

lemma queue_weight_upd [simp]:
  "queue_weight q a (s\<lparr>wld := w\<rparr>) = queue_weight q a s" "queue_weight q a (s\<lparr>config := m\<rparr>) = queue_weight q a s"
  "queue_weight q a (s\<lparr>picks := p\<rparr>) = queue_weight q a s" "queue_weight q a (s\<lparr>handed := h\<rparr>) = queue_weight q a s"
  by (simp_all add: queue_weight_def queue_at_def)

lemma fail_adds:
  assumes "mc_inv s" and "good (config s) cmd"
  shows "\<exists>w'. fail_command err cmd s = Some (cmd_id cmd, s\<lparr>wld := w'\<rparr>) \<and> adds cmd s (s\<lparr>wld := w'\<rparr>)"
proof -
  obtain w' where w: "OnError err cmd (wld s) = Some w'" "done_tags w' = done_tags (wld s) @ [tag cmd]"
      "dropped_tags w' = dropped_tags (wld s)"
    using OnError_single [of cmd err "wld s"] assms(2) by (auto simp: good_def)
  then have "accounted (s\<lparr>wld := w'\<rparr>) = add_mset (tag cmd) (accounted s)" by (simp add: accounted_def in_flight_def)
  with w(1) assms show ?thesis by (intro exI [of _ w']) (simp add: fail_command_def adds_def)
qed

lemma handed_adds:
  assumes "mc_inv s" and "good (config s) cmd"
  shows "adds cmd s (s\<lparr>picks := p, handed := handed s @ [cmd]\<rparr>)"
  using assms by (auto simp: adds_def mc_inv_def accounted_def in_flight_def)

lemma adds_after:
  assumes "adds cmd s1 s2" and "accounted s1 = accounted s" and "\<And>q a. queue_weight q a s1 \<le> queue_weight q a s"
    and "\<And>j. Multi_GetServerAddrById j (config s1) = Multi_GetServerAddrById j (config s)"
    and "\<And>a. client_at a s \<noteq> None \<Longrightarrow> client_at a s1 \<noteq> None"
    and "tag cmd' = tag cmd" and "cmd_weight cmd \<le> cmd_weight cmd'"
  shows "adds cmd' s s2"
  using assms by (auto simp: adds_def intro: order_trans add_mono) (meson add_mono order_trans)+

lemma build_client:
  assumes "mc_inv s" and "client_at a s = None"
  shows "\<exists>c. client_at a (BuilderMemClient a s) = Some c" and "mc_inv (BuilderMemClient a s)"
    and "accounted (BuilderMemClient a s) = accounted s" and "config (BuilderMemClient a s) = config s"
    and "queue_weight q b (BuilderMemClient a s) \<le> queue_weight q b s"
    and "client_at b s \<noteq> None \<Longrightarrow> client_at b (BuilderMemClient a s) \<noteq> None"
proof -
  let ?c = "MemcacheClient_new (\<not> timeout_ms_zero s)"
  have b: "BuilderMemClient a s = set_client a ?c s" using assms(2) by (simp add: BuilderMemClient_def)
  have q: "queue_cmds ?c = []" by (simp add: queue_cmds_def MemcacheClient_new_def)
  show "mc_inv (BuilderMemClient a s)"
    unfolding b by (rule mc_inv_set [OF assms(1)]) (simp add: timers_ok_def MemcacheClient_new_def, simp add: q)
  show "accounted (BuilderMemClient a s) = accounted s" unfolding b using accounted_new [OF assms(2)] by (simp add: q)
  show "queue_weight q b (BuilderMemClient a s) \<le> queue_weight q b s"
    unfolding b by (cases q) (simp_all add: queue_weight_def queue_at_def MemcacheClient_new_def)
qed (use assms(2) in \<open>auto simp: BuilderMemClient_def\<close>)

lemma select_server_ok:
  assumes "mc_inv s" and "good (config s) cmd"
  shows "\<exists>i m. select_server cmd s = Some (i, s\<lparr>config := m\<rparr>) \<and> mc_inv (s\<lparr>config := m\<rparr>)
    \<and> (\<forall>j. Multi_GetServerAddrById j m = Multi_GetServerAddrById j (config s))
    \<and> (\<not> ShouldRetry cmd \<and> i = BAD_SERVER_ID \<or> Multi_GetServerAddrById i m \<noteq> None)"
proof (cases "ShouldRetry cmd")
  case True
  then show ?thesis using assms by (intro exI [of _ "server_id cmd"] exI [of _ "config s"]) (simp add: select_server_def good_def)
next
  case False
  have "multi_ok (config s)" using assms(1) by (simp add: mc_inv_def)
  then obtain i m where m: "Multi_SelectServerId (vbucket_id cmd) (server_id cmd) (config s) = Some (i, m)" "multi_ok m"
      "\<And>j. Multi_GetServerAddrById j m = Multi_GetServerAddrById j (config s)"
      "i = BAD_SERVER_ID \<or> Multi_GetServerAddrById i (config s) \<noteq> None"
    using multi.select_obtains [of "config s" "vbucket_id cmd" "server_id cmd"] by metis
  have "mc_inv (s\<lparr>config := m\<rparr>)"
    using assms(1) m(2) good_addr [OF m(3)] by (simp add: mc_inv_def in_flight_def)
  with m False show ?thesis by (auto simp: select_server_def)
qed

lemma retried_good: "good m cmd \<Longrightarrow> good m (retried cmd)"
  by (auto simp: good_def retried_def set_server_id_def set_id_def server_id_def single_def)

lemma retried_weight: "good m cmd \<Longrightarrow> cmd_weight (retried cmd) = 1"
  by (cases "server_id_history cmd")
    (simp_all add: good_def cmd_weight_def retried_def set_server_id_def set_id_def ShouldRetry_def)

lemma tag_retried [simp]: "tag (retried cmd) = tag cmd"
  by (simp add: retried_def set_server_id_def set_id_def)

lemma retry_adds:
  assumes "mc_inv s" and "good (config s) cmd" and "ShouldRetry cmd"
    and "\<And>ps. picks s = True # ps \<Longrightarrow>
      \<exists>j s'. DoLaunchCommand e (retried cmd) (s\<lparr>picks := ps\<rparr>) = Some (j, s') \<and> adds (retried cmd) (s\<lparr>picks := ps\<rparr>) s'"
  shows "\<exists>j s'. (case picks s of
      True # ps \<Rightarrow> DoLaunchCommand e (retried cmd) (s\<lparr>picks := ps\<rparr>)
    | ps \<Rightarrow> Some (0, s\<lparr>picks := tl ps, handed := handed s @ [retried cmd]\<rparr>)) = Some (j, s') \<and> adds cmd s s'"
proof (cases "\<exists>ps. picks s = True # ps")
  case True
  then obtain ps where ps: "picks s = True # ps" by blast
  then obtain j s' where r: "DoLaunchCommand e (retried cmd) (s\<lparr>picks := ps\<rparr>) = Some (j, s')"
      "adds (retried cmd) (s\<lparr>picks := ps\<rparr>) s'"
    using assms(4) by blast
  from r(2) have "adds cmd s s'"
    by (rule adds_after) (use retried_weight [OF assms(2)] in \<open>simp_all add: accounted_def in_flight_def cmd_weight_def\<close>)
  with r(1) ps show ?thesis by simp
next
  case False
  have "adds (retried cmd) s (s\<lparr>picks := tl (picks s), handed := handed s @ [retried cmd]\<rparr>)"
    by (rule handed_adds [OF assms(1) retried_good [OF assms(2)]])
  then have "adds cmd s (s\<lparr>picks := tl (picks s), handed := handed s @ [retried cmd]\<rparr>)"
    by (rule adds_after) (use retried_weight [OF assms(2)] in \<open>simp_all add: cmd_weight_def\<close>)
  with False show ?thesis by (auto split: list.splits bool.splits)
qed

lemma DoLaunchCommand_adds:
  "mc_inv s \<Longrightarrow> good (config s) cmd \<Longrightarrow> \<exists>i s'. DoLaunchCommand e cmd s = Some (i, s') \<and> adds cmd s s'"
proof (induction e cmd s rule: DoLaunchCommand.induct)
  case (1 e cmd s)
  obtain i m where m: "select_server cmd s = Some (i, s\<lparr>config := m\<rparr>)" "mc_inv (s\<lparr>config := m\<rparr>)"
      "\<And>j. Multi_GetServerAddrById j m = Multi_GetServerAddrById j (config s)"
      "\<not> ShouldRetry cmd \<and> i = BAD_SERVER_ID \<or> Multi_GetServerAddrById i m \<noteq> None"
    using select_server_ok [OF 1(2,3)] by blast
  let ?s = "s\<lparr>config := m\<rparr>"
  have g: "good (config ?s) cmd" using 1(3) good_addr [OF m(3)] by simp
  have after: "adds cmd s s2" if "adds cmd ?s s2" for s2
    by (rule adds_after [OF that]) (simp_all add: m(3) accounted_def in_flight_def)
  note unfold = DoLaunchCommand.simps [of e cmd s] m(1)
  show ?case
  proof (cases "\<not> ShouldRetry cmd \<and> i = BAD_SERVER_ID")
    case True
    then show ?thesis using fail_adds [OF m(2) g] after by (fastforce simp: unfold)
  next
    case False
    then obtain a where a: "Multi_GetServerAddrById i m = Some a" using m(4) by auto
    show ?thesis
    proof (cases "client_at a s")
      case None
      then have n: "client_at a ?s = None" by simp
      obtain c where "client_at a (BuilderMemClient a ?s) = Some c" using build_client(1) [OF m(2) n] by blast
      then obtain j s' where "push_waiting a cmd (BuilderMemClient a ?s) = Some (j, s')" "adds cmd (BuilderMemClient a ?s) s'"
        using push_waiting_adds [OF build_client(2) [OF m(2) n]] g build_client(4) [OF m(2) n] by fastforce
      moreover from this(2) have "adds cmd ?s s'"
        by (rule adds_after) (use build_client [OF m(2) n] in auto)
      ultimately show ?thesis using False a None after by (auto simp: unfold)
    next
      case (Some c)
      then have c: "client_at a ?s = Some c" by simp
      show ?thesis
      proof (cases "mconn c = ConnDown \<and> ShouldRetry cmd")
        case True
        have "\<exists>j s'. DoLaunchCommand e (retried cmd) (?s\<lparr>picks := ps\<rparr>) = Some (j, s') \<and> adds (retried cmd) (?s\<lparr>picks := ps\<rparr>) s'"
          if ps: "picks ?s = True # ps" for ps
        proof -
          have "mc_inv (?s\<lparr>picks := ps\<rparr>)" using m(2) by (simp add: mc_inv_def in_flight_def)
          then show ?thesis using 1(1) [OF m(1) refl] False a c ps True retried_good [OF g] by fastforce
        qed
        from retry_adds [OF m(2) g _ this] True show ?thesis
          using False a Some after by (auto simp: unfold)
      next
        case other: False
        then show ?thesis
          using False a Some after push_waiting_adds [OF m(2) c g] run_command_adds [OF m(2) c g, of e] fail_adds [OF m(2) g]
          by (cases "mconn c") (fastforce simp: unfold)+
      qed
    qed
  qed
qed

lemma LaunchCommand_adds:
  assumes "mc_inv s" and "good (config s) cmd"
  shows "\<exists>i s'. LaunchCommand e cmd s = Some (i, s') \<and> adds cmd s s'"
proof (cases "\<exists>ps. picks s = True # ps")
  case True
  then obtain ps where ps: "picks s = True # ps" by blast
  have "mc_inv (s\<lparr>picks := ps\<rparr>)" using assms(1) by (simp add: mc_inv_def in_flight_def)
  then obtain i s' where r: "DoLaunchCommand e cmd (s\<lparr>picks := ps\<rparr>) = Some (i, s')" "adds cmd (s\<lparr>picks := ps\<rparr>) s'"
    using DoLaunchCommand_adds [of "s\<lparr>picks := ps\<rparr>" cmd e] assms(2) by auto
  from r(2) have "adds cmd s s'" by (rule adds_after) (simp_all add: accounted_def in_flight_def)
  with r(1) ps show ?thesis by (simp add: LaunchCommand_def)
next
  case False
  then show ?thesis using handed_adds [OF assms, of "tl (picks s)"]
    by (auto simp: LaunchCommand_def split: list.splits bool.splits)
qed

section \<open>Emptying a queue\<close>

definition conserves :: "mc_state \<Rightarrow> mc_state \<Rightarrow> bool" where
  "conserves s s' \<longleftrightarrow> mc_inv s' \<and> accounted s' = accounted s
     \<and> (\<forall>j. Multi_GetServerAddrById j (config s') = Multi_GetServerAddrById j (config s))
     \<and> (\<forall>a. client_at a s \<noteq> None \<longrightarrow> client_at a s' \<noteq> None)"

lemma conserves_refl: "mc_inv s \<Longrightarrow> conserves s s"
  by (simp add: conserves_def)

lemma conserves_trans: "conserves s t \<Longrightarrow> conserves t u \<Longrightarrow> conserves s u"
  by (simp add: conserves_def)

lemma give_up_adds:
  assumes "mc_inv s" and "good (config s) cmd"
  shows "\<exists>i s'. give_up e err cmd s = Some (i, s') \<and> adds cmd s s'
    \<and> (\<forall>q a. queue_weight q a s' < queue_weight q a s + cmd_weight cmd)"
proof (cases "ShouldRetry cmd")
  case True
  obtain i s' where r: "LaunchCommand e (retried cmd) s = Some (i, s')" "adds (retried cmd) s s'"
    using LaunchCommand_adds [OF assms(1) retried_good [OF assms(2)]] by blast
  have w: "cmd_weight (retried cmd) = 1" "cmd_weight cmd = 2"
    using retried_weight [OF assms(2)] True by (simp_all add: cmd_weight_def)
  have "adds cmd s s'" by (rule adds_after [OF r(2)]) (simp_all add: w)
  moreover have "queue_weight q a s' < queue_weight q a s + cmd_weight cmd" for q a
    using r(2) by (simp add: adds_def w le_imp_less_Suc)
  ultimately show ?thesis using r(1) True by (simp add: give_up_def)
next
  case False
  then show ?thesis using fail_adds [OF assms, of err] by (auto simp: give_up_def cmd_weight_def)
qed

lemma pop_client:
  assumes "mc_inv s" and "client_at a s = Some c" and "pop q c = Some (cmd, c')"
  shows "mc_inv (set_client a c' s)" and "good (config s) cmd"
    and "accounted s = add_mset (tag cmd) (accounted (set_client a c' s))"
    and "queue_weight q a (set_client a c' s) + cmd_weight cmd = queue_weight q a s"
proof -
  have t: "timers_ok c'" using timers_client [OF assms(2,1)] assms(3)
    by (auto simp: pop_def PopRunningCommand_def PopWaitingCommand_def timers_ok_def split: mc_queue.splits list.splits)
  have m: "mset (queue_cmds c) = add_mset cmd (mset (queue_cmds c'))"
    using assms(3) by (auto simp: pop_def PopRunningCommand_def PopWaitingCommand_def queue_cmds_def
        split: mc_queue.splits list.splits)
  have old: "\<forall>x \<in> set (queue_cmds c). good (config s) x"
    using in_flight_client [OF assms(2)] assms(1) by (auto simp: mc_inv_def)
  have "set (queue_cmds c) = insert cmd (set (queue_cmds c'))" using m by (metis set_mset_add_mset_insert set_mset_mset)
  with old t show "mc_inv (set_client a c' s)" "good (config s) cmd" using assms(1) by (auto intro: mc_inv_set)
  have "mset (map tag (queue_cmds c)) = add_mset (tag cmd) (mset (map tag (queue_cmds c')))"
    using m by (metis image_mset_add_mset mset_map)
  then show "accounted s = add_mset (tag cmd) (accounted (set_client a c' s))"
    using accounted_set [OF assms(2), of c'] by simp
  show "queue_weight q a (set_client a c' s) + cmd_weight cmd = queue_weight q a s"
    using assms(2,3) by (auto simp: pop_def PopRunningCommand_def PopWaitingCommand_def queue_weight_def queue_at_def
        split: mc_queue.splits list.splits)
qed

lemma drain_keeps:
  "mc_inv s \<Longrightarrow> client_at a s \<noteq> None \<Longrightarrow> \<exists>s'. drain e q err stop a s = Some s' \<and> conserves s s'"
proof (induction "queue_weight q a s" arbitrary: s rule: less_induct)
  case less
  then obtain c where c: "client_at a s = Some c" by auto
  show ?case
  proof (cases "pop q c")
    case None
    then show ?thesis using c less.prems by (subst drain.simps) (auto intro: conserves_refl)
  next
    case (Some x)
    then obtain cmd c' where x: "pop q c = Some (cmd, c')" by (cases x) auto
    note p = pop_client [OF less.prems(1) c x]
    obtain i s2 where g: "give_up e err cmd (set_client a c' s) = Some (i, s2)" "adds cmd (set_client a c' s) s2"
        "queue_weight q a s2 < queue_weight q a s"
      using give_up_adds [OF p(1), of cmd e err] p(2,4) by (metis set_client_same(1))
    have "client_at a (set_client a c' s) \<noteq> None" by simp
    with g(2) have k: "conserves s s2" using p(3) by (auto simp: adds_def conserves_def)
    moreover have "client_at a s2 \<noteq> None" using k c by (simp add: conserves_def)
    ultimately obtain s3 where "drain e q err stop a s2 = Some s3" "conserves s2 s3"
      using less.hyps [OF g(3)] by (auto simp: conserves_def)
    then show ?thesis using c x g(1) k conserves_trans [OF k]
      by (subst drain.simps) (cases "stop = Some i", auto)
  qed
qed

lemma keeps_timers:
  assumes "mc_inv s" and "client_at a s = Some c" and "timers_ok c'" and "queue_cmds c' = queue_cmds c"
  shows "conserves s (set_client a c' s)"
proof -
  have "\<forall>x \<in> set (queue_cmds c'). good (config s) x"
    using in_flight_client [OF assms(2)] assms(1,4) by (auto simp: mc_inv_def)
  then show ?thesis
    using mc_inv_set [OF assms(1,3)] accounted_set [OF assms(2), of c'] assms(4) by (simp add: conserves_def)
qed

lemma drained_timers:
  assumes "mc_inv s" and "client_at a s = Some c" and "timers_ok c'" and "queue_cmds c' = queue_cmds c"
  shows "\<exists>s'. drain e q err stop a (set_client a c' s) = Some s' \<and> conserves s s'"
proof -
  have k: "conserves s (set_client a c' s)" by (rule keeps_timers [OF assms])
  then have "mc_inv (set_client a c' s)" "client_at a (set_client a c' s) \<noteq> None" by (simp_all add: conserves_def)
  from drain_keeps [OF this, of e q err stop] conserves_trans [OF k] show ?thesis by blast
qed

lemma OnPacketTimeout_keeps:
  assumes "mc_inv s" and "client_at a s = Some c" and "i \<in> set (packet_timers c)"
  shows "\<exists>s'. OnPacketTimeout e i a s = Some s' \<and> conserves s s'"
proof -
  let ?c = "c\<lparr>packet_timers := remove1 i (packet_timers c), timer_canceled := True\<rparr>"
  have "packet_timers c = [i]" using timers_client [OF assms(2,1)] assms(3)
    by (cases "packet_timers c") (auto simp: timers_ok_def)
  then have t: "timers_ok ?c" "\<And>j. timers_ok (?c\<lparr>packet_timers := [j], timer_canceled := False\<rparr>)"
      "packet_timers ?c = []"
    using timers_client [OF assms(2,1)] by (simp_all add: timers_ok_def)
  note k = keeps_timers [OF assms(1,2)] and d = drained_timers [OF assms(1,2) t(1)]
  show ?thesis
    using assms(2) k [OF t(1)] k [OF t(2)] d t(3)
    by (cases "running c") (auto simp: OnPacketTimeout_def queue_cmds_def Let_def)
qed

lemma mc_OnConnectTimeout_keeps:
  assumes "mc_inv s" and "client_at a s = Some c" and "i \<in> set (connect_timers c)"
  shows "\<exists>s'. mc_OnConnectTimeout e i a s = Some s' \<and> conserves s s'"
proof -
  let ?c = "c\<lparr>connect_timers := remove1 i (connect_timers c), con_timer_canceled := True\<rparr>"
  have "connect_timers c = [i]" using timers_client [OF assms(2,1)] assms(3)
    by (cases "connect_timers c") (auto simp: timers_ok_def)
  then have t: "timers_ok ?c" "\<And>j. timers_ok (?c\<lparr>connect_timers := [j], con_timer_canceled := False\<rparr>)"
      "connect_timers ?c = []"
    using timers_client [OF assms(2,1)] by (simp_all add: timers_ok_def)
  note k = keeps_timers [OF assms(1,2)] and d = drained_timers [OF assms(1,2) t(1)]
  show ?thesis
    using assms(2) k [OF t(1)] k [OF t(2)] d t(3)
    by (cases "waiting c") (auto simp: mc_OnConnectTimeout_def queue_cmds_def Let_def)
qed

section \<open>Connections and answers\<close>

lemma launch_waiting_keeps:
  "mc_inv s \<Longrightarrow> client_at a s = Some c \<Longrightarrow> waiting c = cmds \<Longrightarrow>
    \<exists>s' c'. launch_waiting e cmds a s = Some s' \<and> conserves s s' \<and> client_at a s' = Some c'"
proof (induction cmds arbitrary: s c)
  case (Cons cmd cmds)
  have x: "pop Waiting c = Some (cmd, c\<lparr>waiting := cmds\<rparr>)" using Cons.prems(3) by (simp add: pop_def PopWaitingCommand_def)
  note p = pop_client [OF Cons.prems(1,2) x]
  let ?s = "set_client a (c\<lparr>waiting := cmds\<rparr>) s"
  obtain b c' where c': "run_command e a cmd ?s = Some (b, set_client a c' ?s)" "waiting c' = cmds"
    and ad: "adds cmd ?s (set_client a c' ?s)"
  proof -
    have "good (config ?s) cmd" using p(2) by simp
    then obtain b s' where r: "run_command e a cmd ?s = Some (b, s')" "adds cmd ?s s'"
      using run_command_adds [OF p(1), of a "c\<lparr>waiting := cmds\<rparr>" cmd e] by auto
    then obtain c' where "s' = set_client a c' ?s" "waiting c' = cmds"
      by (auto simp: run_command_def Launch_def PushRunningCommand_def next_id_def Let_def bind_eq_Some_conv split: if_splits)
    with r show ?thesis using that by blast
  qed
  have k: "conserves s (set_client a c' ?s)" using ad p(3) by (auto simp: adds_def conserves_def)
  then obtain s' c'' where "launch_waiting e cmds a (set_client a c' ?s) = Some s'" "conserves (set_client a c' ?s) s'"
      "client_at a s' = Some c''"
    using Cons.IH [of "set_client a c' ?s" c'] c'(2) by (auto simp: conserves_def)
  with k show ?case using Cons.prems(2) c'(1) conserves_trans [OF k] by auto
qed (auto intro: conserves_refl)

lemma OnClientConnection_keeps:
  assumes "mc_inv s" and "client_at a s = Some c"
  shows "\<exists>s'. OnClientConnection e up a s = Some s' \<and> conserves s s'"
proof (cases up)
  case True
  then show ?thesis using launch_waiting_keeps [OF assms refl, of e] assms(2) by (auto simp: OnClientConnection_def)
next
  case False
  obtain s1 where 1: "drain e Running ERR_CODE_NETWORK None a s = Some s1" "conserves s s1"
    using drain_keeps [OF assms(1), of a e Running] assms(2) by auto
  then have "mc_inv s1" "client_at a s1 \<noteq> None" using assms(2) by (auto simp: conserves_def)
  from drain_keeps [OF this, of e Waiting ERR_CODE_NETWORK None] 1 False conserves_trans show ?thesis
    by (auto simp: OnClientConnection_def)
qed

definition deliver_packet :: "endian \<Rightarrow> byte list \<Rightarrow> byte list \<Rightarrow> mc_state \<Rightarrow> mc_state option" where
  "deliver_packet e d a s = do {
     c \<leftarrow> client_at a s;
     (rest, c, w) \<leftarrow> OnCodecMessage e d c (wld s);
     Some ((set_client a c s)\<lparr>wld := w\<rparr>) }"
  \<comment> \<open>\<^verbatim>\<open>OnResponseData\<close> with bytes that form complete packets\<close>

lemma handle_packet:
  assumes "single cmd" and "op \<noteq> CMD_PGETK" and "op \<noteq> CMD_PGETKQ" and "op < 256" and "st < 2 ^ 16" and "i < 2 ^ 32"
    and "length v < 2 ^ 32"
  shows "\<exists>q' w'. handle_answer e (read_header e (response e op st i [] [] v)) (response e op st i [] [] v) cmd q w = Some (q', w')
    \<and> (q' = cmd # q \<and> done_tags w' = done_tags w \<and> dropped_tags w' = dropped_tags w
       \<or> q' = q \<and> mset (done_tags w') + mset (dropped_tags w') = add_mset (tag cmd) (mset (done_tags w) + mset (dropped_tags w)))"
proof -
  let ?d = "response e op st i [] [] v"
  have h: "read_header e ?d = \<lparr>opcode = op, keylen = 0, extlen = 0, status = st, bodylen = length v, opaque = i\<rparr>"
    using read_response [of op st i "[]" "[]" v e "[]"] assms(4-) by simp
  obtain H where H: "length H = 24" "?d = H @ v" using response_parts [of e op st i "[]" "[]" v] by auto
  have r: "mem_read ?d 24 (length v) = Some v" "mem_read ?d 24 0 = Some []" using H by (simp_all add: mem_read_def)
  show ?thesis unfolding h using assms(1-3,7) r
    by (auto simp: handle_answer_def Let_def kHeaderLen_def u32_minus_ok single_def OnSetCommandDone_def
        OnRemoveCommandDone_def OnGetCommandDone_def OnMultiGetCommandDone_def OnMultiGetCommandOneResponse_def
        complete_def make_call_def drop_command_def split: cmd_kind.splits)
qed

lemma answer_packet:
  assumes "timers_ok c" and "\<forall>x \<in> set (queue_cmds c). single x" and "op \<noteq> CMD_PGETK" and "op \<noteq> CMD_PGETKQ"
    and "op < 256" and "st < 2 ^ 16" and "i < 2 ^ 32" and "length v < 2 ^ 32"
  shows "\<exists>c' w'. OnCodecMessage e (response e op st i [] [] v) c w = Some ([], c', w') \<and> timers_ok c'
    \<and> set (queue_cmds c') \<subseteq> set (queue_cmds c)
    \<and> mset (map tag (queue_cmds c')) + (mset (done_tags w') + mset (dropped_tags w'))
      = mset (map tag (queue_cmds c)) + (mset (done_tags w) + mset (dropped_tags w))"
proof -
  let ?d = "response e op st i [] [] v"
  let ?h = "read_header e ?d"
  have h: "bodylen ?h = length v" "opaque ?h = i"
    using read_response [of op st i "[]" "[]" v e "[]"] assms(5-) by simp_all
  have step: "OnCodecMessage e ?d c w = Some ([], c', w')" if "OnResponsePacket e ?h ?d c w = Some ([], c', w')" for c' w'
    using OnCodecMessage_partial [of "[]" e] that h by (subst OnCodecMessage_step) (auto simp: kHeaderLen_def)
  show ?thesis
  proof (cases "running c = [] \<or> i \<noteq> cmd_id (hd (running c))")
    case True
    then have "OnResponsePacket e ?h ?d c w = Some ([], c, w)"
      using h by (cases "running c") (auto simp: OnResponsePacket_def kHeaderLen_def Let_def)
    from step [OF this] assms(1) show ?thesis by blast
  next
    case False
    then obtain cmd q where q: "running c = cmd # q" "i = cmd_id cmd" by (cases "running c") auto
    have "single cmd" using assms(2) q by (simp add: queue_cmds_def)
    from handle_packet [OF this assms(3-8), of e q w] obtain q' w' where
      a: "handle_answer e ?h ?d cmd q w = Some (q', w')"
        "q' = cmd # q \<and> done_tags w' = done_tags w \<and> dropped_tags w' = dropped_tags w
         \<or> q' = q \<and> mset (done_tags w') + mset (dropped_tags w') = add_mset (tag cmd) (mset (done_tags w) + mset (dropped_tags w))"
      by blast
    have r: "OnCodecMessage e ?d c w = Some ([], c\<lparr>running := q'\<rparr>, w')"
      using a(1) q h by (intro step) (simp add: OnResponsePacket_def kHeaderLen_def Let_def)
    from a(2) show ?thesis
    proof
      assume "q' = cmd # q \<and> done_tags w' = done_tags w \<and> dropped_tags w' = dropped_tags w"
      then show ?thesis using r q assms(1) by (auto simp: queue_cmds_def timers_ok_def)
    next
      assume "q' = q \<and> mset (done_tags w') + mset (dropped_tags w') = add_mset (tag cmd) (mset (done_tags w) + mset (dropped_tags w))"
      then show ?thesis using r q assms(1)
        by (intro exI [of _ "c\<lparr>running := q'\<rparr>"] exI [of _ w']) (auto simp: queue_cmds_def timers_ok_def)
    qed
  qed
qed

lemma deliver_packet_keeps:
  assumes "mc_inv s" and "client_at a s = Some c" and "op \<noteq> CMD_PGETK" and "op \<noteq> CMD_PGETKQ"
    and "op < 256" and "st < 2 ^ 16" and "i < 2 ^ 32" and "length v < 2 ^ 32"
  shows "\<exists>s'. deliver_packet e (response e op st i [] [] v) a s = Some s' \<and> conserves s s'"
proof -
  have g: "\<forall>x \<in> set (queue_cmds c). good (config s) x" using in_flight_client [OF assms(2)] assms(1) by (auto simp: mc_inv_def)
  then have "\<forall>x \<in> set (queue_cmds c). single x" by (simp add: good_def)
  from answer_packet [OF timers_client [OF assms(2,1)] this assms(3-8), of e "wld s"] obtain c' w' where
    p: "OnCodecMessage e (response e op st i [] [] v) c (wld s) = Some ([], c', w')" "timers_ok c'"
      "set (queue_cmds c') \<subseteq> set (queue_cmds c)"
      "mset (map tag (queue_cmds c')) + (mset (done_tags w') + mset (dropped_tags w'))
        = mset (map tag (queue_cmds c)) + (mset (done_tags (wld s)) + mset (dropped_tags (wld s)))" by blast
  let ?s = "set_client a c' s" and ?T = "\<lambda>s. mset (map tag (in_flight s))"
  have "?T ?s + mset (map tag (queue_cmds c)) = ?T s + mset (map tag (queue_cmds c'))"
    using accounted_set [OF assms(2), of c'] by (simp add: accounted_def)
  then have "?T ?s + (mset (done_tags w') + mset (dropped_tags w')) + mset (map tag (queue_cmds c))
      = ?T s + (mset (map tag (queue_cmds c')) + (mset (done_tags w') + mset (dropped_tags w')))"
    by (metis add.assoc add.commute)
  also have "\<dots> = ?T s + (mset (done_tags (wld s)) + mset (dropped_tags (wld s))) + mset (map tag (queue_cmds c))"
    unfolding p(4) by (simp only: ac_simps)
  finally have "accounted (?s\<lparr>wld := w'\<rparr>) = accounted s" by (simp add: accounted_def in_flight_def ac_simps)
  moreover have "mc_inv ?s" using mc_inv_set [OF assms(1) p(2)] p(3) g by blast
  ultimately show ?thesis using p(1) assms(2) by (simp add: deliver_packet_def conserves_def)
qed

section \<open>Runs\<close>

lemma first_choice:
  assumes "multi_ok m"
  shows "\<exists>vb i m'. key_vbucket po k m = Some vb \<and> Multi_SelectServerId vb BAD_SERVER_ID m = Some (i, m') \<and> multi_ok m'
    \<and> (\<forall>j. Multi_GetServerAddrById j m' = Multi_GetServerAddrById j m) \<and> Multi_GetServerAddrById i m \<noteq> None"
proof -
  obtain vb where vb: "key_vbucket po k m = Some vb"
    using assms by (cases "mode m")
      (auto simp: key_vbucket_def Multi_GetVbucketByKey_def GetVbucketByKey_def multi_ok_def config_ok_def)
  have "candidates vb BAD_SERVER_ID (conf m) \<noteq> []" if "mode m = CLUSTER_MODE"
  proof -
    let ?all = "vbucket_map (conf m) ! (vb mod length (vbucket_map (conf m)))"
    have "vbucket_map (conf m) \<noteq> []" using assms that by (simp add: multi_ok_def config_ok_def)
    then have all: "?all \<in> set (vbucket_map (conf m))" by simp
    then have hd: "hd ?all \<in> set ?all" using assms that by (intro list.set_sel(1)) (auto simp: multi_ok_def)
    have "\<forall>i \<in> set ?all. nat i < length (server_list (conf m))" "length (server_list (conf m)) < 65536"
      using all assms that unfolding multi_ok_def config_ok_def by auto
    with hd have "hd ?all \<in> set ?all" "nat (hd ?all) < 65535" by fastforce+
    then have "hd ?all \<in> set (candidates vb BAD_SERVER_ID (conf m))" by (auto simp: candidates_def BAD_SERVER_ID_def)
    then show ?thesis by auto
  qed
  with vb Multi_SelectServerId_ok [OF assms, of vb BAD_SERVER_ID] show ?thesis by auto
qed

lemma submit_adds:
  assumes "mc_inv s" and "single (mc_Command_new 0 k t)"
  shows "\<exists>s' cmd. submit e po key k t s = Some s' \<and> adds cmd s s' \<and> tag cmd = t"
proof -
  have "multi_ok (config s)" using assms(1) by (simp add: mc_inv_def)
  then obtain vb i m where m: "key_vbucket po key (config s) = Some vb"
      "Multi_SelectServerId vb BAD_SERVER_ID (config s) = Some (i, m)" "multi_ok m"
      "\<And>j. Multi_GetServerAddrById j m = Multi_GetServerAddrById j (config s)" "Multi_GetServerAddrById i (config s) \<noteq> None"
    using first_choice by blast
  let ?s = "s\<lparr>config := m\<rparr>" and ?cmd = "set_server_id i (mc_Command_new vb k t)"
  have "mc_inv ?s" using assms(1) m(3) good_addr [OF m(4)] by (simp add: mc_inv_def in_flight_def)
  moreover have "good (config ?s) ?cmd"
    using assms(2) m(4,5) by (simp add: good_def single_def set_server_id_def mc_Command_new_def server_id_def)
  ultimately obtain j s' where r: "LaunchCommand e ?cmd ?s = Some (j, s')" "adds ?cmd ?s s'"
    using LaunchCommand_adds by blast
  from r(2) have "adds ?cmd s s'" by (rule adds_after) (simp_all add: m(4) accounted_def in_flight_def)
  moreover have "tag ?cmd = t" by (simp add: set_server_id_def mc_Command_new_def)
  ultimately show ?thesis using m(1,2) r(1) by (auto simp: submit_def)
qed

datatype mc_event =
    Call "byte list" cmd_kind nat
  | Arrive command
  | Up "byte list"
  | Down "byte list"
  | Refused "byte list"
  | PacketTimer "byte list" nat
  | ConnectTimer "byte list" nat
  | Reply "byte list" nat nat nat "byte list"
  \<comment> \<open>a call with the key, the command and its tag; a functor queued by another loop; the connection to a server comes
    up, is lost, or fails; a timer fires; an answer with opcode, status, opaque and value\<close>

definition at_client :: "byte list \<Rightarrow> (mc_client \<Rightarrow> bool) \<Rightarrow> (mc_client \<Rightarrow> mc_state option) \<Rightarrow> mc_state
    \<Rightarrow> (nat list \<times> mc_state) option" where
  "at_client a enabled act s =
     (case client_at a s of
        None \<Rightarrow> Some ([], s)
      | Some c \<Rightarrow> if enabled c then map_option (Pair []) (act c) else Some ([], s))"
  \<comment> \<open>events that cannot happen are skipped\<close>

fun mc_do :: "endian \<Rightarrow> pool_opts \<Rightarrow> mc_event \<Rightarrow> mc_state \<Rightarrow> (nat list \<times> mc_state) option" where
  "mc_do e po (Call key k t) s =
     (if single (mc_Command_new 0 k t) then map_option (Pair [t]) (submit e po key k t s) else Some ([], s))"
| "mc_do e po (Arrive cmd) s =
     (if good (config s) cmd then map_option (\<lambda>(i, s). ([tag cmd], s)) (DoLaunchCommand e cmd s) else Some ([], s))"
| "mc_do e po (Up a) s =
     at_client a (\<lambda>c. mconn c = NoConn \<or> mconn c = ConnConnecting)
       (\<lambda>c. OnClientConnection e True a (set_client a (c\<lparr>mconn := ConnUp\<rparr>) s)) s"
| "mc_do e po (Down a) s =
     at_client a (\<lambda>c. mconn c = ConnUp)
       (\<lambda>c. do {
          s \<leftarrow> OnClientConnection e False a (set_client a (c\<lparr>mconn := ConnDown\<rparr>) s);
          c \<leftarrow> client_at a s;
          Some (set_client a (c\<lparr>mconn := NoConn\<rparr>) s) }) s"
| "mc_do e po (Refused a) s = at_client a (\<lambda>c. mconn c = NoConn) (\<lambda>c. OnClientConnection e False a s) s"
| "mc_do e po (PacketTimer a i) s = at_client a (\<lambda>c. i \<in> set (packet_timers c)) (\<lambda>c. OnPacketTimeout e i a s) s"
| "mc_do e po (ConnectTimer a i) s = at_client a (\<lambda>c. i \<in> set (connect_timers c)) (\<lambda>c. mc_OnConnectTimeout e i a s) s"
| "mc_do e po (Reply a op st i v) s =
     at_client a (\<lambda>c. op \<notin> {CMD_PGETK, CMD_PGETKQ} \<and> op < 256 \<and> st < 2 ^ 16 \<and> i < 2 ^ 32 \<and> length v < 2 ^ 32)
       (\<lambda>c. deliver_packet e (response e op st i [] [] v) a s) s"

fun mc_run :: "endian \<Rightarrow> pool_opts \<Rightarrow> mc_event list \<Rightarrow> mc_state \<Rightarrow> (nat list \<times> mc_state) option" where
  "mc_run e po [] s = Some ([], s)"
| "mc_run e po (v # vs) s = do {
     (ts, s) \<leftarrow> mc_do e po v s;
     (us, s) \<leftarrow> mc_run e po vs s;
     Some (ts @ us, s) }"
  \<comment> \<open>with the tags of the commands that came in\<close>

lemma at_client_ok:
  assumes "mc_inv s" and "\<And>c. client_at a s = Some c \<Longrightarrow> P c \<Longrightarrow> \<exists>s'. act c = Some s' \<and> conserves s s'"
  shows "\<exists>ts s'. at_client a P act s = Some (ts, s') \<and> mc_inv s' \<and> accounted s' = accounted s + mset ts"
proof (cases "\<exists>c. client_at a s = Some c \<and> P c")
  case True
  then show ?thesis using assms(2) by (fastforce simp: at_client_def conserves_def)
next
  case False
  then show ?thesis using assms(1) by (auto simp: at_client_def split: option.splits)
qed

lemma set_mconn:
  assumes "mc_inv s" and "client_at a s = Some c"
  shows "conserves s (set_client a (c\<lparr>mconn := x\<rparr>) s)"
  by (rule keeps_timers [OF assms]) (use timers_client [OF assms(2,1)] in \<open>simp_all add: timers_ok_def queue_cmds_def\<close>)

lemma connection_event:
  assumes "mc_inv s" and "client_at a s = Some c"
  shows "\<exists>s' c'. OnClientConnection e up a (set_client a (c\<lparr>mconn := x\<rparr>) s) = Some s' \<and> conserves s s'
    \<and> client_at a s' = Some c'"
proof -
  let ?s = "set_client a (c\<lparr>mconn := x\<rparr>) s"
  have k: "conserves s ?s" by (rule set_mconn [OF assms])
  then have "mc_inv ?s" by (simp add: conserves_def)
  from OnClientConnection_keeps [OF this, of a "c\<lparr>mconn := x\<rparr>" e up] obtain s' where
    "OnClientConnection e up a ?s = Some s'" "conserves ?s s'" by auto
  moreover from this(2) have "client_at a s' \<noteq> None" by (simp add: conserves_def)
  ultimately show ?thesis using conserves_trans [OF k] by blast
qed

lemma lost_connection:
  assumes "mc_inv s" and "client_at a s = Some c"
  shows "\<exists>s'. do { s \<leftarrow> OnClientConnection e False a (set_client a (c\<lparr>mconn := ConnDown\<rparr>) s);
      c \<leftarrow> client_at a s; Some (set_client a (c\<lparr>mconn := NoConn\<rparr>) s) } = Some s' \<and> conserves s s'"
proof -
  obtain s1 c1 where 1: "OnClientConnection e False a (set_client a (c\<lparr>mconn := ConnDown\<rparr>) s) = Some s1" "conserves s s1"
      "client_at a s1 = Some c1"
    using connection_event [OF assms] by blast
  then have "mc_inv s1" by (simp add: conserves_def)
  from 1 conserves_trans [OF 1(2) set_mconn [OF this 1(3)]] show ?thesis by simp
qed

lemma mc_do_ok:
  assumes "mc_inv s"
  shows "\<exists>ts s'. mc_do e po v s = Some (ts, s') \<and> mc_inv s' \<and> accounted s' = accounted s + mset ts"
proof (cases v)
  case (Call key k t)
  then show ?thesis using assms submit_adds [OF assms, of k t e po key] by (fastforce simp: adds_def)
next
  case (Arrive cmd)
  then show ?thesis using assms DoLaunchCommand_adds [OF assms, of cmd e] by (fastforce simp: adds_def)
next
  case (Up a)
  show ?thesis unfolding Up mc_do.simps by (rule at_client_ok [OF assms]) (use connection_event [OF assms] in \<open>blast\<close>)
next
  case (Down a)
  show ?thesis unfolding Down mc_do.simps by (rule at_client_ok [OF assms]) (use lost_connection [OF assms] in \<open>blast\<close>)
next
  case (Refused a)
  show ?thesis unfolding Refused mc_do.simps by (rule at_client_ok [OF assms]) (use OnClientConnection_keeps [OF assms] in \<open>blast\<close>)
next
  case (PacketTimer a i)
  show ?thesis unfolding PacketTimer mc_do.simps by (rule at_client_ok [OF assms]) (use OnPacketTimeout_keeps [OF assms] in \<open>blast\<close>)
next
  case (ConnectTimer a i)
  show ?thesis unfolding ConnectTimer mc_do.simps by (rule at_client_ok [OF assms]) (use mc_OnConnectTimeout_keeps [OF assms] in \<open>blast\<close>)
next
  case (Reply a op st i d)
  show ?thesis unfolding Reply mc_do.simps by (rule at_client_ok [OF assms]) (use deliver_packet_keeps [OF assms] in \<open>blast\<close>)
qed


definition idle :: mc_state where
  "idle = \<lparr>clients = [(''m:1'', MemcacheClient_new True)], wld = empty_world,
     config = \<lparr>conf = VbucketConfig_new 1, mode = STAND_ALONE_MODE, single_server = [''m:1'']\<rparr>,
     handed = [], picks = [True, True, False], timeout_ms_zero = False\<rparr>"


end
