(* ===== verification/Spec2Isabelle.thy ===== *)
theory Spec2Isabelle
  imports HttpFast HttpService EventLoop TcpServer Connector Nsq McFlow
begin

text \<open>
  This library models evpp, an event-driven network library in C++ (\<^verbatim>\<open>src/evpp\<close>), its NSQ client
  (\<^verbatim>\<open>src/apps/evnsq\<close>) and its memcached client (\<^verbatim>\<open>src/apps/evmc\<close>), and proves what makes their parts correct.

  \<^bold>\<open>The program.\<close> An \<^verbatim>\<open>EventLoop\<close> is a thread that waits in libevent for descriptors and timers and runs
  functors other threads queue in it. An \<^verbatim>\<open>FdChannel\<close> registers a descriptor with its loop. A \<^verbatim>\<open>TCPConn\<close>
  owns a channel and two \<^verbatim>\<open>Buffer\<close>s and calls the user's callbacks. A \<^verbatim>\<open>TCPServer\<close> accepts connections,
  hands them to the loops of an \<^verbatim>\<open>EventLoopThreadPool\<close> and keeps a table of them; a \<^verbatim>\<open>Connector\<close> makes
  outgoing connections for a \<^verbatim>\<open>TCPClient\<close>. On top of \<^verbatim>\<open>TCPServer\<close> there is an HTTP server (\<^verbatim>\<open>evpphttp\<close>) with
  its own parser, on top of \<^verbatim>\<open>TCPClient\<close> the NSQ client and the memcached client.
  The latter keeps one connection per server and loop, chooses servers by key and health, and
  sends commands in a pipeline whose answers come back in order.

  \<^bold>\<open>The theories\<close>, in the order of the code they model:

  \<^item> \<open>Prelude\<close>: \<open>option\<close> as the type of code that may fault, byte memory with uninitialised cells,
    searching, printing of numbers, and the locales \<open>preserved\<close> and \<open>decreasing\<close> for invariants and
    bounds of step relations.
  \<^item> \<open>Buffer\<close> (\<^verbatim>\<open>buffer.h\<close>, \<^verbatim>\<open>buffer.cc\<close>, \<^verbatim>\<open>slice.h\<close>): storage with read and write index, growth, integers in
    network order, \<^verbatim>\<open>readv\<close>. It refines a queue of bytes; integers round-trip; searches find the first
    line end.
  \<^item> \<open>HttpTypes\<close>, \<open>HttpParser\<close> (\<^verbatim>\<open>http_parser.h\<close>, \<^verbatim>\<open>http_parser_cpp.cc\<close>): the parser state, its tables, and one
    definition per group of states of \<^verbatim>\<open>http_parser_execute\<close>. \<open>HttpSafe\<close> shows that no step faults or
    overflows, \<open>HttpKeep\<close> what a step keeps, \<open>HttpFast\<close> that the look-ahead loops are equivalent to reading
    byte by byte. \<open>HttpUrl\<close> is \<^verbatim>\<open>http_parser_parse_url\<close>: safety, and the parts of an origin-form target.
  \<^item> \<open>HttpRequest\<close>, \<open>HttpResponse\<close>, \<open>HttpService\<close> (\<^verbatim>\<open>http_request.*\<close>, \<^verbatim>\<open>http_response.*\<close>, \<^verbatim>\<open>service.*\<close>): collecting a
    request over any pieces of input, writing the reply, and the loop that serves a connection.
    The reply round-trips through the parser; the loop ends; a malformed request is refused.
  \<^item> \<open>EventLoop\<close> (\<^verbatim>\<open>event_loop.*\<close>, the wake-up pipe of \<^verbatim>\<open>event_watcher.cc\<close>): the queue of functors as atomic steps
    of any number of threads. No wake-up is lost, every functor runs, stopping drains the queue.
  \<^item> \<open>FdChannel\<close> (\<^verbatim>\<open>fd_channel.*\<close>): libevent watches exactly what was asked for.
  \<^item> \<open>TcpConn\<close> (\<^verbatim>\<open>tcp_conn.*\<close>, the echo example): the life of a connection as events with a kernel that takes
    any number of bytes. The byte stream is kept, output drains, the end is reported once. The locales
    \<open>conn_closer\<close> and \<open>conn_user\<close> are the contract of the callbacks.
  \<^item> \<open>ThreadPool\<close> (\<^verbatim>\<open>event_loop_thread_pool.*\<close>, \<^verbatim>\<open>event_loop_thread.*\<close>), \<open>TcpServer\<close> (\<^verbatim>\<open>tcp_server.*\<close>): threads and
    loops interleave freely. The pool's status follows its threads, the table follows the connections,
    stopping completes, and the interleavings in which it does not.
  \<^item> \<open>Connector\<close> (\<^verbatim>\<open>connector.*\<close>): a reconnecting connector is never idle and leaks no descriptor.
  \<^item> \<open>Nsq\<close> (\<^verbatim>\<open>command.*\<close>, \<^verbatim>\<open>message.*\<close>, \<^verbatim>\<open>nsq_conn.*\<close> of \<^verbatim>\<open>evnsq\<close>): commands, frames and messages; a stream of frames is
    delivered exactly, however it is cut.
  \<^item> \<open>Framing\<close>: the locale \<open>framing\<close> of a protocol whose packets are taken from the front of the input; what
    holds packet by packet holds for a stream in any pieces. \<open>Nsq\<close> and \<open>McCodec\<close> interpret it.
  \<^item> \<open>Vbucket\<close> (\<^verbatim>\<open>random.h\<close>, \<^verbatim>\<open>vbucket_config.*\<close> of \<^verbatim>\<open>evmc\<close>): the random generator is modular multiplication; servers are
    chosen in proportion to their health; a loaded map stays well formed. The locale \<open>server_directory\<close>
    is what the client relies on.
  \<^item> \<open>McCommand\<close> (\<^verbatim>\<open>command.*\<close>, \<^verbatim>\<open>mctypes.h\<close>): the commands; their requests round-trip through a reader of the
    binary protocol.
  \<^item> \<open>McClient\<close>, \<open>McCodec\<close> (\<^verbatim>\<open>memcache_client.*\<close>, \<^verbatim>\<open>memcache_client_base.*\<close>, \<^verbatim>\<open>binary_codec.*\<close>): the queues and timers of
    a connection and the decoding of answers. Answers reach their commands in order; prefix answers are
    read exactly; which malformed answers are fatal.
  \<^item> \<open>McPool\<close>, \<open>McFlow\<close> (\<^verbatim>\<open>memcache_client_pool.*\<close>, \<^verbatim>\<open>memcache_client_serial.*\<close>): the requests of the two interfaces. A
    multi-key request is answered once; no command is lost or done twice, whatever connections and
    timers do; and where timeouts, retries and ids go wrong.

  \<^bold>\<open>Conventions.\<close> A C++ class is a record with the source's members; members the proofs need in addition
  record histories (bytes sent, callbacks called). \<^const>\<open>None\<close> is a failed assertion, an access out of
  range, a read of uninitialised memory or a loop that does not end, so that a theorem with \<^const>\<open>Some\<close>
  says that none of these happens. The kernel, libevent, the resolver, the user's callbacks, JSON and the clock are
  arguments of the definitions or come with the events. \<^verbatim>\<open>size_t\<close> is a natural number with its reduction modulo \<open>2 ^ 64\<close>
  written out, fixed-width counters are words. Threads are interleaved at the granularity of
  lock-protected sections and atomic operations.

  \<^bold>\<open>Bounds.\<close> No fuel is used: loops are structural or have a termination proof. Those that may not end (the request loop of the
  HTTP service, the frame loop of the NSQ connection, and in the memcached client the emptying of a queue whose commands may come
  back to it and the entries of a prefix answer) are partial functions. That they return is proved: for the first three in every
  reachable state, the third by the weight of the queue, in which a command counts two until it has been tried
  again; for the entries of a prefix answer on every well-formed answer.
  Liveness bounds are measures: the weight of the queue for the event loop, two steps
  per connection for stopping a server.

  \<^bold>\<open>Not modelled.\<close> Socket calls (\<^verbatim>\<open>sockets.cc\<close>, \<^verbatim>\<open>listener.cc\<close>), DNS and the HTTP code over libevent's own HTTP
  implementation, because what they do is done by the operating system or libevent; logging and platform headers; \<^verbatim>\<open>TCPClient\<close>, \<^verbatim>\<open>InvokeTimer\<close> and the UDP
  server, which connect modelled parts to callbacks. The memcached client is seen by one of its loops: other loops appear as commands
  handed over and commands that arrive. Its reloading of the server map is commented out in the source.
\<close>

end
